(* ===== verification/Prelude.thy ===== *)
theory Prelude
  imports Main "HOL-Library.Word"
begin

text \<open>
  Shared vocabulary of the development: the machine types of the 32-bit ARM target, the
  outcomes a C statement can have besides returning a value, bounded memory access, and
  the generic list and machine facts the component theories use.
\<close>

unbundle bit_operations_syntax

section \<open>Machine types\<close>

type_synonym byte = "8 word"          \<comment> \<open>unsigned char\<close>
type_synonym u16 = "16 word"          \<comment> \<open>unsigned short\<close>
type_synonym u32 = "32 word"          \<comment> \<open>unsigned int, UINT4, dma_addr_t\<close>

section \<open>Outcomes of C code\<close>

text \<open>
  A C function either returns a value or its behaviour is undefined.  The reasons for the
  latter that occur in this program are the constructors of \<open>ub\<close>; an operation that can
  run into one of them returns \<open>ub + 'a\<close>, with \<open>Inl\<close> for the undefined outcome.
\<close>

datatype ub =
    OutOfBounds      \<comment> \<open>read or write outside an array or an allocation\<close>
  | NullPointer      \<comment> \<open>access through a pointer with no live object behind it\<close>
  | Unterminated     \<comment> \<open>a string function ran past an array that holds no NUL\<close>
  | Diverges         \<comment> \<open>a loop that never ends\<close>

type_synonym 'a res = "ub + 'a"

definition bindR :: "'a res \<Rightarrow> ('a \<Rightarrow> 'b res) \<Rightarrow> 'b res" where
  "bindR m f = (case m of Inl e \<Rightarrow> Inl e | Inr x \<Rightarrow> f x)"

named_theorems res_simps "sequencing of operations that may be undefined"
named_theorems mem_simps "bounded memory access"

lemma bindR_Inr [simp, res_simps]: "bindR (Inr x) f = f x"
  by (simp add: bindR_def)

lemma bindR_Inl [simp, res_simps]: "bindR (Inl e) f = Inl e"
  by (simp add: bindR_def)

lemma bindR_eq_Inr [res_simps]:
  "bindR m f = Inr y \<longleftrightarrow> (\<exists>x. m = Inr x \<and> f x = Inr y)"
  by (cases m) (auto simp: bindR_def)

lemma bindR_eq_Inl:
  "bindR m f = Inl e \<longleftrightarrow> m = Inl e \<or> (\<exists>x. m = Inr x \<and> f x = Inl e)"
  by (cases m) (auto simp: bindR_def)

lemma bindR_assoc: "bindR (bindR m f) g = bindR m (\<lambda>x. bindR (f x) g)"
  by (cases m) (auto simp: bindR_def)

text \<open>
  A loop with no structural bound is a \<^theory_text>\<open>partial_function (option)\<close>: \<open>None\<close> is
  the value of a run that never leaves the loop.
\<close>

definition of_loop :: "'a res option \<Rightarrow> 'a res" where
  "of_loop r = (case r of None \<Rightarrow> Inl Diverges | Some x \<Rightarrow> x)"

lemma of_loop_Some [simp, res_simps]: "of_loop (Some x) = x"
  by (simp add: of_loop_def)

section \<open>Bounded memory\<close>

text \<open>
  An array or allocation is the list of its elements.  \<open>mem_read off n m\<close> reads \<open>n\<close>
  elements from offset \<open>off\<close>, \<open>mem_write off v m\<close> stores \<open>v\<close> there; both are undefined
  where they leave the object.  No object of the target is \<open>2 ^ 32\<close> bytes or longer.
\<close>

definition mem_read :: "nat \<Rightarrow> nat \<Rightarrow> 'a list \<Rightarrow> 'a list res" where
  "mem_read off n m =
     (if off + n \<le> length m \<and> off + n < 2 ^ 32 then Inr (take n (drop off m))
      else Inl OutOfBounds)"

definition mem_write :: "nat \<Rightarrow> 'a list \<Rightarrow> 'a list \<Rightarrow> 'a list res" where
  "mem_write off v m =
     (if off + length v \<le> length m then Inr (take off m @ v @ drop (off + length v) m)
      else Inl OutOfBounds)"

lemma mem_read_ok [mem_simps]:
  "off + n \<le> length m \<Longrightarrow> off + n < 2 ^ 32 \<Longrightarrow> mem_read off n m = Inr (take n (drop off m))"
  by (simp add: mem_read_def)

lemma mem_read_fault [mem_simps]: "length m < off + n \<Longrightarrow> mem_read off n m = Inl OutOfBounds"
  by (simp add: mem_read_def)

lemma mem_read_Inr:
  "mem_read off n m = Inr v \<longleftrightarrow>
     off + n \<le> length m \<and> off + n < 2 ^ 32 \<and> v = take n (drop off m)"
  by (auto simp: mem_read_def)

lemma mem_read_not_NullPointer [simp]: "mem_read off n m \<noteq> Inl NullPointer"
  by (simp add: mem_read_def)

lemma mem_write_ok [mem_simps]:
  "off + length v \<le> length m \<Longrightarrow>
     mem_write off v m = Inr (take off m @ v @ drop (off + length v) m)"
  by (simp add: mem_write_def)

lemma mem_write_fault [mem_simps]:
  "length m < off + length v \<Longrightarrow> mem_write off v m = Inl OutOfBounds"
  by (simp add: mem_write_def)

lemma mem_write_Inr_iff:
  "mem_write off v m = Inr m' \<longleftrightarrow>
     off + length v \<le> length m \<and> m' = take off m @ v @ drop (off + length v) m"
  by (auto simp: mem_write_def)

lemma mem_write_length: "mem_write off v m = Inr m' \<Longrightarrow> length m' = length m"
  by (auto simp: mem_write_Inr_iff)

text \<open>What was stored is what is read back.\<close>

lemma mem_read_write:
  "mem_write off v m = Inr m' \<Longrightarrow> length m < 2 ^ 32 \<Longrightarrow> mem_read off (length v) m' = Inr v"
  by (auto simp: mem_write_Inr_iff mem_read_def)

section \<open>Generic facts\<close>

text \<open>Small numbers as words.\<close>

lemma unat_u32: "k < 2 ^ 32 \<Longrightarrow> unat (of_nat k :: u32) = k"
  by (simp add: unsigned_of_nat take_bit_nat_eq_self)

lemma unat_u16: "k < 2 ^ 16 \<Longrightarrow> unat (of_nat k :: u16) = k"
  by (simp add: unsigned_of_nat take_bit_nat_eq_self)

text \<open>Signed reading of 16-bit words.\<close>

lemma sint_of_int16:
  assumes "- 32768 \<le> x" "x \<le> 32767"
  shows "sint (word_of_int x :: 16 word) = x"
proof -
  have "sint (word_of_int x :: 16 word) = signed_take_bit 15 x" by transfer simp
  also have "\<dots> = x" using assms by (intro signed_take_bit_int_eq_self) auto
  finally show ?thesis .
qed

lemma sint_u16:
  assumes "unat (n :: u16) < 32768"
  shows "sint n = int (unat n)"
proof -
  have "int (unat n) < int 32768" using assms by (simp only: of_nat_less_iff)
  then have "uint n \<le> 32767" by simp
  moreover have "- 32768 \<le> uint n" by (rule order_trans [of _ 0]) simp_all
  ultimately show ?thesis using sint_of_int16 [of "uint n"] by simp
qed

lemma sint_u16_pos:
  assumes "0 < unat (n :: u16)" "unat n < 32768"
  shows "sint n \<noteq> 0" "nat (sint n) = unat n"
  unfolding sint_u16 [OF assms(2)] using assms(1) by (simp_all only: nat_int of_nat_eq_0_iff)

text \<open>Reading the digits of a mixed-radix number back.\<close>

lemma digit_low: "0 \<le> q \<Longrightarrow> q < n \<Longrightarrow> (n * a + q) mod n = (q::int)"
  by simp

lemma digit_high: "0 \<le> q \<Longrightarrow> q < n \<Longrightarrow> (n * a + q) div n = (a::int)"
  by simp

lemma div_bounds:
  assumes "0 < (d::int)"
  shows "v div d * d \<le> v" "v < v div d * d + d"
proof -
  have "v = v div d * d + v mod d" "0 \<le> v mod d" "v mod d < d"
    using assms by simp_all
  then show "v div d * d \<le> v" "v < v div d * d + d" by linarith+
qed

lemma div_between:
  assumes d: "0 < d" and v: "a * d \<le> v" "v < b * d"
  shows "a \<le> v div d" "v div d < (b::int)"
proof -
  have m: "v = v div d * d + v mod d" "0 \<le> v mod d" "v mod d < d"
    using d by simp_all
  have "a * d < (v div d + 1) * d"
    using m v(1) unfolding distrib_right by linarith
  then have "a < v div d + 1" by (rule mult_right_less_imp_less) (use d in simp)
  then show "a \<le> v div d" by simp
  have "v div d * d < b * d"
    using m v(2) by linarith
  then show "v div d < b" by (rule mult_right_less_imp_less) (use d in simp)
qed

lemma set_upto_conv: "(\<forall>x \<in> {0..<int n}. P x) \<longleftrightarrow> (\<forall>i < n. P (int i))"
  by (auto simp: Ball_def) (metis int_nat_eq nat_less_iff)

end
