(* ===== verification/Codec.thy ===== *)
theory Codec
  imports Prelude
begin

text \<open>
  The G.711 codec of \<open>drv/linux/Ab_arm_codec.c\<close>: the two companding laws, sample by sample,
  and the u-law decoder of a whole RTP payload into the kernel buffer.

  The C code computes on \<open>int\<close>.  Every argument the program passes is a byte or a 16-bit
  sample and no intermediate value leaves 32 bits, so the functions are over \<open>int\<close> with
  the bit operations of two's complement; \<open>>>\<close> on a negative value is the arithmetic shift
  of the target compiler (\<open>drop_bit\<close> on \<open>int\<close>).
\<close>

section \<open>Constants and tables\<close>

definition BIAS :: int where "BIAS = 0x84"
definition CLIP :: int where "CLIP = 8159"
definition SIGN_BIT :: int where "SIGN_BIT = 0x80"
definition QUANT_MASK :: int where "QUANT_MASK = 0xf"
definition SEG_SHIFT :: nat where "SEG_SHIFT = 4"
definition SEG_MASK :: int where "SEG_MASK = 0x70"

lemmas codec_consts = BIAS_def CLIP_def SIGN_BIT_def QUANT_MASK_def SEG_SHIFT_def SEG_MASK_def

definition seg_aend :: "int list" where
  "seg_aend = [0x1F, 0x3F, 0x7F, 0xFF, 0x1FF, 0x3FF, 0x7FF, 0xFFF]"
definition seg_uend :: "int list" where
  "seg_uend = [0x3F, 0x7F, 0xFF, 0x1FF, 0x3FF, 0x7FF, 0xFFF, 0x1FFF]"

section \<open>The companding functions\<close>

text \<open>\<open>search\<close> walks the table with the pointer; \<open>size\<close> is 8 at both call sites.\<close>

fun search_from :: "int \<Rightarrow> int list \<Rightarrow> nat \<Rightarrow> nat \<Rightarrow> nat" where
  "search_from val [] i sz = sz"
| "search_from val (t # table) i sz =
     (if i < sz then if val \<le> t then i else search_from val table (Suc i) sz else sz)"

definition search :: "int \<Rightarrow> int list \<Rightarrow> nat \<Rightarrow> nat" where
  "search val table sz = search_from val table 0 sz"

definition linear2alaw :: "int \<Rightarrow> int" where
  "linear2alaw pcm_val0 =
     (let pcm_val1 = drop_bit 3 pcm_val0;
          mask = (if 0 \<le> pcm_val1 then 0xD5 else 0x55);
          pcm_val = (if 0 \<le> pcm_val1 then pcm_val1 else - pcm_val1 - 1);
          seg = search pcm_val seg_aend 8
      in if 8 \<le> seg then 0x7F XOR mask
         else let aval = push_bit SEG_SHIFT (int seg);
                  aval = (if seg < 2 then aval OR (drop_bit 1 pcm_val AND QUANT_MASK)
                          else aval OR (drop_bit seg pcm_val AND QUANT_MASK))
              in aval XOR mask)"

definition alaw2linear :: "int \<Rightarrow> int" where
  "alaw2linear a_val0 =
     (let a_val = a_val0 XOR 0x55;
          t = push_bit 4 (a_val AND QUANT_MASK);
          seg = drop_bit SEG_SHIFT (a_val AND SEG_MASK);
          t = (if seg = 0 then t + 8
               else if seg = 1 then t + 0x108
               else push_bit (nat (seg - 1)) (t + 0x108))
      in if a_val AND SIGN_BIT \<noteq> 0 then t else - t)"

definition linear2ulaw :: "int \<Rightarrow> int" where
  "linear2ulaw pcm_val0 =
     (let pcm_val1 = drop_bit 2 pcm_val0;
          mask = (if pcm_val1 < 0 then 0x7F else 0xFF);
          pcm_val2 = (if pcm_val1 < 0 then - pcm_val1 else pcm_val1);
          pcm_val3 = (if CLIP < pcm_val2 then CLIP else pcm_val2);
          pcm_val = pcm_val3 + drop_bit 2 BIAS;
          seg = search pcm_val seg_uend 8
      in if 8 \<le> seg then 0x7F XOR mask
         else let uval = push_bit 4 (int seg) OR (drop_bit (seg + 1) pcm_val AND 0xF)
              in uval XOR mask)"

definition ulaw2linear :: "int \<Rightarrow> int" where
  "ulaw2linear u_val0 =
     (let u_val = NOT u_val0;
          t = push_bit 3 (u_val AND QUANT_MASK) + BIAS;
          t = push_bit (nat (drop_bit SEG_SHIFT (u_val AND SEG_MASK))) t
      in if u_val AND SIGN_BIT \<noteq> 0 then BIAS - t else t - BIAS)"


section \<open>Bit fields as arithmetic\<close>

lemma and_15: "(x::int) AND 15 = x mod 16"
  using take_bit_eq_mask [of 4 x] by (simp add: take_bit_eq_mod mask_eq_exp_minus_1)

lemma and_7: "(x::int) AND 7 = x mod 8"
  using take_bit_eq_mask [of 3 x] by (simp add: take_bit_eq_mod mask_eq_exp_minus_1)

lemma seg_bits: "drop_bit 4 ((x::int) AND 112) = x div 16 mod 8"
proof -
  have "drop_bit 4 (x AND 112) = drop_bit 4 x AND drop_bit 4 112" by (rule drop_bit_and)
  then show ?thesis by (simp add: and_7 drop_bit_eq_div)
qed

lemma sign_bits: "(x::int) AND 128 \<noteq> 0 \<longleftrightarrow> odd (x div 128)"
  using and_exp_eq_0_iff_not_bit [of x 7] by (simp add: bit_iff_odd)

lemma or_fields: "push_bit 4 (s::int) OR (w mod 16) = 16 * s + w mod 16"
proof -
  have "push_bit 4 s AND take_bit 4 w = 0"
    by (auto intro!: bit_eqI simp: bit_simps)
  then have "push_bit 4 s + take_bit 4 w = push_bit 4 s OR take_bit 4 w"
    by (rule disjunctive_add_eq_or)
  then show ?thesis by (simp add: take_bit_eq_mod push_bit_eq_mult)
qed

lemma xor_mask_diff:
  assumes "0 \<le> x" "x < 2 ^ n"
  shows "(x::int) XOR mask n = mask n - x"
proof -
  have x: "take_bit n x = x" using assms by (simp add: take_bit_int_eq_self)
  have "bit x i \<Longrightarrow> i < n" for i
    using x by (metis bit_take_bit_iff)
  then have "x XOR mask n = take_bit n (NOT x)"
    by (intro bit_eqI) (auto simp: bit_simps)
  also have "\<dots> = mask n - x"
    by (simp add: take_bit_not_eq_mask_diff x)
  finally show ?thesis .
qed

lemma xor_7F: "0 \<le> x \<Longrightarrow> x < 128 \<Longrightarrow> (x::int) XOR 127 = 127 - x"
  using xor_mask_diff [of x 7] by (simp add: mask_eq_exp_minus_1)

lemma xor_FF: "0 \<le> x \<Longrightarrow> x < 256 \<Longrightarrow> (x::int) XOR 255 = 255 - x"
  using xor_mask_diff [of x 8] by (simp add: mask_eq_exp_minus_1)

lemma xor_80: "0 \<le> x \<Longrightarrow> x < 128 \<Longrightarrow> (x::int) XOR 128 = x + 128"
proof -
  assume x: "0 \<le> x" "x < 128"
  then have "x = take_bit 7 x" by (simp add: take_bit_int_eq_self)
  then have "x AND push_bit 7 1 = 0"
    by (metis bit_eqI bit_and_iff bit_0_eq bit_push_bit_iff bit_take_bit_iff bot_apply bot_bool_def leD)
  then have "x AND 128 = 0" by simp
  then show ?thesis by (metis disjunctive_add_eq_xor)
qed

section \<open>The u-law pair\<close>

text \<open>Closed form of the decoder and the search of the encoder.\<close>

lemma ulaw2linear_closed:
  "ulaw2linear u =
     (let w = - u - 1; t = (8 * (w mod 16) + 132) * 2 ^ nat (w div 16 mod 8)
      in if odd (w div 128) then 132 - t else t - 132)"
  by (simp add: ulaw2linear_def codec_consts Let_def and_15 seg_bits sign_bits not_eq_complement
        push_bit_eq_mult mult.commute del: drop_bit_and)

lemma search_uend:
  assumes "s < 8" "2 ^ (s + 5) \<le> v" "v < 2 ^ (s + 6)"
  shows "search v seg_uend 8 = s"
proof -
  from assms(1) have "s \<in> {0,1,2,3,4,5,6,7}" by auto
  with assms(2,3) show ?thesis
    by (auto simp: search_def seg_uend_def)
qed

lemma search_uend_over: "8192 \<le> v \<Longrightarrow> search v seg_uend 8 = 8"
  by (simp add: search_def seg_uend_def)

lemma segment_exists:
  assumes "32 \<le> v" "v < 8192"
  obtains s where "s < (8::nat)" "2 ^ (s + 5) \<le> (v::int)" "v < 2 ^ (s + 6)"
proof -
  consider "v < 64" | "64 \<le> v" "v < 128" | "128 \<le> v" "v < 256" | "256 \<le> v" "v < 512"
    | "512 \<le> v" "v < 1024" | "1024 \<le> v" "v < 2048" | "2048 \<le> v" "v < 4096"
    | "4096 \<le> v" by linarith
  then show thesis
    using assms that [of 0] that [of 1] that [of 2] that [of 3] that [of 4] that [of 5]
      that [of 6] that [of 7] by cases simp_all
qed

text \<open>The encoder in one segment: sign, segment number and four quantisation bits.\<close>

definition ulaw_byte :: "bool \<Rightarrow> nat \<Rightarrow> int \<Rightarrow> int" where
  "ulaw_byte neg s q = (if neg then 127 else 255) - (16 * int s + q)"

lemma ulaw_byte_decode:
  assumes "s < 8" "0 \<le> q" "q < 16"
  shows "ulaw2linear (ulaw_byte neg s q) =
    (if neg then 132 - (8 * q + 132) * 2 ^ s else (8 * q + 132) * 2 ^ s - 132)"
proof -
  define k :: int where "k = (if neg then - 1 else - 2)"
  let ?w = "16 * int s + q + 128 * k"
  have w: "- ulaw_byte neg s q - 1 = ?w"
    by (simp add: ulaw_byte_def k_def)
  have eq: "?w = 16 * (8 * k + int s) + q" by simp
  have 1: "?w mod 16 = q"
    unfolding eq using assms by (intro digit_low) auto
  have "?w div 16 = 8 * k + int s"
    unfolding eq using assms by (intro digit_high) auto
  then have 2: "?w div 16 mod 8 = int s"
    using assms digit_low [of "int s" 8 k] by simp
  have "?w = 128 * k + (16 * int s + q)" by simp
  then have 3: "?w div 128 = k"
    using assms digit_high [of "16 * int s + q" 128 k] by simp
  show ?thesis
    unfolding ulaw2linear_closed Let_def w 1 2 3 by (simp add: k_def)
qed

definition ulaw_mag :: "int \<Rightarrow> int" where
  "ulaw_mag p =
     (let m = (if p div 4 < 0 then - (p div 4) else p div 4)
      in (if 8159 < m then 8159 else m) + 33)"

lemma ulaw_mag_bounds: "33 \<le> ulaw_mag p" "ulaw_mag p \<le> 8192"
  by (auto simp: ulaw_mag_def Let_def)

lemma segment_quotient:
  assumes "2 ^ (s + 5) \<le> (v::int)" "v < 2 ^ (s + 6)"
  shows "16 \<le> v div 2 ^ (s + 1)" "v div 2 ^ (s + 1) < 32"
  using assms div_between [of "2 ^ (s + 1)" 16 v 32] by (simp_all add: power_add)

lemma linear2ulaw_unfold:
  "linear2ulaw p =
     (let v = ulaw_mag p; s = search v seg_uend 8; m = (if p div 4 < 0 then 127 else 255)
      in if 8 \<le> s then 127 XOR m else (16 * int s + v div 2 ^ (s + 1) mod 16) XOR m)"
proof -
  have c: "(2::int) ^ 2 = 4" "132 div 4 = (33::int)" by simp_all
  show ?thesis
    unfolding linear2ulaw_def ulaw_mag_def codec_consts Let_def drop_bit_eq_div and_15
      or_fields c ..
qed

lemma linear2ulaw_byte:
  assumes s: "s < 8" "2 ^ (s + 5) \<le> ulaw_mag p" "ulaw_mag p < 2 ^ (s + 6)"
  shows "linear2ulaw p = ulaw_byte (p < 0) s (ulaw_mag p div 2 ^ (s + 1) - 16)"
proof -
  define q where "q = ulaw_mag p div 2 ^ (s + 1) - 16"
  have q: "0 \<le> q" "q < 16"
    using segment_quotient [OF s(2,3)] by (simp_all add: q_def)
  have "ulaw_mag p div 2 ^ (s + 1) mod 16 = (16 * 1 + q) mod 16"
    by (simp add: q_def)
  also have "\<dots> = q" using q by (rule digit_low)
  finally have m: "ulaw_mag p div 2 ^ (s + 1) mod 16 = q" .
  have u: "0 \<le> 16 * int s + q" "16 * int s + q < 128" using q s(1) by auto
  have neg: "p div 4 < 0 \<longleftrightarrow> p < 0" by linarith
  show ?thesis
    unfolding linear2ulaw_unfold Let_def search_uend [OF s] m neg q_def [symmetric]
    using s(1) u by (simp add: ulaw_byte_def xor_7F xor_FF)
qed

lemma linear2ulaw_clip: "ulaw_mag p = 8192 \<Longrightarrow> linear2ulaw p = ulaw_byte (p < 0) 7 15"
  by (auto simp: linear2ulaw_unfold Let_def search_uend_over ulaw_byte_def)

text \<open>Decoding what was encoded, as a function of the magnitude alone.\<close>

definition ulaw_level :: "int \<Rightarrow> int" where
  "ulaw_level v =
     (if 8192 \<le> v then 32124
      else let s = search v seg_uend 8 in (2 * (v div 2 ^ (s + 1)) + 1) * 2 ^ (s + 2) - 132)"

lemma ulaw_level_segment:
  assumes s: "s < 8" "2 ^ (s + 5) \<le> v" "v < 2 ^ (s + 6)"
  shows "ulaw_level v = (2 * (v div 2 ^ (s + 1)) + 1) * 2 ^ (s + 2) - 132"
proof -
  have "(2::int) ^ (s + 6) \<le> 2 ^ 13" using s(1) by (intro power_increasing) auto
  with s(3) have "\<not> 8192 \<le> v" by simp
  then show ?thesis by (simp add: ulaw_level_def search_uend [OF s] Let_def)
qed

lemma ulaw_transcode:
  "ulaw2linear (linear2ulaw p) = (if p < 0 then - ulaw_level (ulaw_mag p) else ulaw_level (ulaw_mag p))"
proof (cases "ulaw_mag p = 8192")
  case True
  then show ?thesis
    using ulaw_byte_decode [of 7 15 "p < 0"] by (simp add: linear2ulaw_clip ulaw_level_def)
next
  case False
  then have "32 \<le> ulaw_mag p" "ulaw_mag p < 8192"
    using ulaw_mag_bounds [of p] by auto
  then obtain s where s: "s < 8" "2 ^ (s + 5) \<le> ulaw_mag p" "ulaw_mag p < 2 ^ (s + 6)"
    by (rule segment_exists)
  let ?k = "ulaw_mag p div 2 ^ (s + 1)"
  have "ulaw2linear (linear2ulaw p) =
      (if p < 0 then 132 - (8 * (?k - 16) + 132) * 2 ^ s else (8 * (?k - 16) + 132) * 2 ^ s - 132)"
    unfolding linear2ulaw_byte [OF s]
    using s(1) segment_quotient [OF s(2,3)] by (intro ulaw_byte_decode) auto
  moreover have "(8 * (?k - 16) + 132) * 2 ^ s = (2 * ?k + 1) * 2 ^ (s + 2)"
    by (simp add: power_add algebra_simps)
  ultimately show ?thesis by (simp add: ulaw_level_segment [OF s])
qed

lemma ulaw_mag_cases:
  assumes "32 \<le> v" "v \<le> 8192"
  obtains (clip) "v = (8192::int)"
    | (seg) s where "s < (8::nat)" "2 ^ (s + 5) \<le> v" "v < 2 ^ (s + 6)"
proof (cases "v = 8192")
  case False
  then have "v < 8192" using assms(2) by simp
  with assms(1) show thesis by (rule segment_exists) (rule seg)
qed (rule clip)

text \<open>The level of a magnitude stays inside its segment and near the magnitude.\<close>

lemma ulaw_level_near:
  assumes "2 ^ (s + 5) \<le> v" "v < 2 ^ (s + 6)" "s < 8"
  shows "\<bar>ulaw_level v + 132 - 4 * v\<bar> \<le> 2 ^ (s + 2)"
    and "2 ^ (s + 7) \<le> ulaw_level v + 132" "ulaw_level v + 132 < 2 ^ (s + 8)"
proof -
  define d :: int where "d = 2 ^ (s + 1)"
  define k where "k = v div d"
  have d: "0 < d" by (simp add: d_def)
  have l: "ulaw_level v + 132 = (2 * k + 1) * (2 * d)"
    using ulaw_level_segment [OF assms(3,1,2)] by (simp add: k_def d_def power_add)
  have v: "k * d \<le> v" "v < k * d + d"
    unfolding k_def by (rule div_bounds [OF d])+
  have p: "(2::int) ^ (s + 2) = 2 * d" "(2::int) ^ (s + 7) = 64 * d" "(2::int) ^ (s + 8) = 128 * d"
    by (simp_all add: d_def power_add)
  have k: "16 \<le> k" "k \<le> 31"
    using segment_quotient [OF assms(1,2)] by (simp_all add: k_def d_def)
  have e: "(2 * k + 1) * (2 * d) = 4 * (k * d) + 2 * d" by (simp add: algebra_simps)
  have kd: "16 * d \<le> k * d" "k * d \<le> 31 * d"
    using k d by (simp_all add: mult_right_mono)
  show "\<bar>ulaw_level v + 132 - 4 * v\<bar> \<le> 2 ^ (s + 2)"
    unfolding l e p using v by linarith
  show "2 ^ (s + 7) \<le> ulaw_level v + 132" "ulaw_level v + 132 < 2 ^ (s + 8)"
    unfolding l e p using kd d by linarith+
qed

lemma ulaw_level_mono:
  assumes "32 \<le> v" "v \<le> w" "w \<le> 8192"
  shows "ulaw_level v \<le> ulaw_level w"
proof (cases "w = 8192")
  case True
  show ?thesis
  proof (cases "v = 8192")
    case False
    with assms have "32 \<le> v" "v < 8192" by auto
    then obtain s where s: "s < 8" "2 ^ (s + 5) \<le> v" "v < 2 ^ (s + 6)"
      by (rule segment_exists)
    have "v div 2 ^ (s + 1) \<le> 31" using segment_quotient [OF s(2,3)] by simp
    then have "(2 * (v div 2 ^ (s + 1)) + 1) * 2 ^ (s + 2) \<le> (63::int) * 2 ^ 9"
      using s(1) segment_quotient [OF s(2,3)]
      by (intro mult_mono power_increasing) auto
    moreover have "ulaw_level w = 32124" using True by (simp add: ulaw_level_def)
    ultimately show ?thesis unfolding ulaw_level_segment [OF s] by simp
  qed (use True in simp)
next
  case False
  with assms have v: "32 \<le> v" "v < 8192" and w: "32 \<le> w" "w < 8192" by auto
  from v obtain s where s: "s < 8" "2 ^ (s + 5) \<le> v" "v < 2 ^ (s + 6)"
    by (rule segment_exists)
  from w obtain t where t: "t < 8" "2 ^ (t + 5) \<le> w" "w < 2 ^ (t + 6)"
    by (rule segment_exists)
  consider "s = t" | "s < t" | "t < s" by linarith
  then show ?thesis
  proof cases
    case 1
    have "v div 2 ^ (s + 1) \<le> w div 2 ^ (s + 1)" using assms(2) by (intro zdiv_mono1) auto
    then show ?thesis
      unfolding ulaw_level_segment [OF s] ulaw_level_segment [OF t] 1 by simp
  next
    case 2
    then have "(2::int) ^ (s + 8) \<le> 2 ^ (t + 7)" by (intro power_increasing) auto
    then show ?thesis
      using ulaw_level_near(3) [OF s(2,3,1)] ulaw_level_near(2) [OF t(2,3,1)] by linarith
  next
    case 3
    then have "(2::int) ^ (t + 6) \<le> 2 ^ (s + 5)" by (intro power_increasing) auto
    with s t assms(2) show ?thesis by linarith
  qed
qed

lemma ulaw_level_nonneg: "33 \<le> v \<Longrightarrow> v \<le> 8192 \<Longrightarrow> 0 \<le> ulaw_level v"
  using ulaw_level_mono [of 33 v] by (simp add: ulaw_level_def search_def seg_uend_def)

lemma ulaw_mag_pos: "0 \<le> p \<Longrightarrow> p \<le> r \<Longrightarrow> ulaw_mag p \<le> ulaw_mag r"
  using zdiv_mono1 [of p r 4] by (auto simp: ulaw_mag_def Let_def)

lemma ulaw_mag_neg: "p \<le> r \<Longrightarrow> r < 0 \<Longrightarrow> ulaw_mag r \<le> ulaw_mag p"
  using zdiv_mono1 [of p r 4] by (auto simp: ulaw_mag_def Let_def)

lemma ulaw_mag_abs:
  assumes "ulaw_mag p < 8192"
  shows "4 * ulaw_mag p \<le> \<bar>p\<bar> + 135" "\<bar>p\<bar> + 129 \<le> 4 * ulaw_mag p"
proof -
  have "p div 4 * 4 \<le> p" "p < p div 4 * 4 + 4" by (rule div_bounds, simp)+
  with assms show "4 * ulaw_mag p \<le> \<bar>p\<bar> + 135" "\<bar>p\<bar> + 129 \<le> 4 * ulaw_mag p"
    unfolding ulaw_mag_def Let_def by (auto split: if_splits)
qed

lemma ulaw_mag_clip: "ulaw_mag p = 8192 \<Longrightarrow> 32633 \<le> \<bar>p\<bar>"
  by (auto simp: ulaw_mag_def Let_def split: if_splits)

lemma ulaw_error:
  assumes "- 32768 \<le> p" "p \<le> 32767"
  shows "32 * \<bar>ulaw2linear (linear2ulaw p) - p\<bar> \<le> \<bar>p\<bar> + 231"
proof -
  let ?v = "ulaw_mag p"
  have e: "\<bar>ulaw2linear (linear2ulaw p) - p\<bar> = \<bar>ulaw_level ?v - \<bar>p\<bar>\<bar>"
    by (auto simp: ulaw_transcode)
  have "32 \<le> ?v" "?v \<le> 8192" using ulaw_mag_bounds [of p] by auto
  then show ?thesis
  proof (cases rule: ulaw_mag_cases)
    case clip
    then show ?thesis
      unfolding e using ulaw_mag_clip [OF clip] assms by (simp add: ulaw_level_def)
  next
    case (seg s)
    have "(2::int) ^ (s + 6) \<le> 2 ^ 13" using seg(1) by (intro power_increasing) auto
    then have "?v < 8192" using seg(3) by simp
    note m = ulaw_mag_abs [OF this]
    define d :: int where "d = 2 ^ (s + 2)"
    have "8 * d \<le> ?v" using seg(2) by (simp add: d_def power_add)
    moreover have "\<bar>ulaw_level ?v + 132 - 4 * ?v\<bar> \<le> d"
      using ulaw_level_near(1) [OF seg(2,3,1)] by (simp add: d_def)
    ultimately have "\<bar>ulaw_level ?v - \<bar>p\<bar>\<bar> \<le> d + 3" "32 * d \<le> \<bar>p\<bar> + 135"
      using m by linarith+
    moreover have "32 * x \<le> a + 231" if "x \<le> d + 3" "32 * d \<le> a + 135" for x a
      using that by linarith
    ultimately show ?thesis unfolding e by blast
  qed
qed

text \<open>Encoding a decoded byte gives the byte back.\<close>

lemma ulaw_byte_roundtrip:
  assumes "s < 8" "0 \<le> q" "q < 16"
  shows "linear2ulaw (ulaw2linear (ulaw_byte neg s q)) =
    (if neg \<and> s = 0 \<and> q = 0 then 255 else ulaw_byte neg s q)"
proof -
  define v where "v = (2 * q + 33) * 2 ^ s"
  let ?p = "ulaw2linear (ulaw_byte neg s q)"
  have v1: "2 ^ (s + 5) \<le> v"
    using assms mult_right_mono [of 32 "2 * q + 33" "2 ^ s"] by (simp add: v_def power_add)
  have v2: "v < 2 ^ (s + 6)"
    using assms mult_strict_right_mono [of "2 * q + 33" 64 "2 ^ s"] by (simp add: v_def power_add)
  have "(2::int) ^ (s + 6) \<le> 2 ^ 13" using assms(1) by (intro power_increasing) auto
  with v2 have "v < 8192" by simp
  have p: "?p = 4 * (if neg then 33 - v else v - 33)"
    unfolding ulaw_byte_decode [OF assms] by (simp add: v_def algebra_simps)
  have v33: "33 \<le> v" using assms(2) mult_mono [of 33 "2 * q + 33" 1 "(2::int) ^ s"]
    by (simp add: v_def)
  have mag: "ulaw_mag ?p = v"
    unfolding p using v33 \<open>v < 8192\<close> by (auto simp: ulaw_mag_def Let_def)
  have sign: "?p < 0 \<longleftrightarrow> neg \<and> v \<noteq> 33" unfolding p using v33 by auto
  have "v div 2 ^ (s + 1) = 16 + q"
    using digit_high [of "2 ^ s" "2 ^ (s + 1)" "16 + q"]
    by (simp add: v_def power_add algebra_simps)
  then have "linear2ulaw ?p = ulaw_byte (neg \<and> v \<noteq> 33) s q"
    using linear2ulaw_byte [of s ?p] assms(1) v1 v2 unfolding mag sign by simp
  moreover have "v = 33 \<longleftrightarrow> s = 0 \<and> q = 0"
  proof (cases s)
    case (Suc t)
    have "33 * 1 \<le> (2 * q + 33) * (2::int) ^ t" using assms(2) by (intro mult_mono) auto
    with Suc show ?thesis by (simp add: v_def)
  qed (simp add: v_def)
  ultimately show ?thesis by (auto simp: ulaw_byte_def)
qed

lemma ulaw_byte_cases:
  assumes "0 \<le> u" "u \<le> 255"
  obtains neg s q where "s < 8" "0 \<le> q" "q < 16" "u = ulaw_byte neg s q"
proof -
  define r where "r = (if u < 128 then 127 - u else 255 - u)"
  have r: "0 \<le> r" "r < 128" using assms by (auto simp: r_def)
  have "0 \<le> r div 16" using r by (simp add: pos_imp_zdiv_nonneg_iff)
  then have "r = 16 * int (nat (r div 16)) + r mod 16" by simp
  moreover have "u = (if u < 128 then 127 else 255) - r" by (auto simp: r_def)
  ultimately have "u = ulaw_byte (u < 128) (nat (r div 16)) (r mod 16)"
    by (simp add: ulaw_byte_def)
  moreover have "nat (r div 16) < 8" using r by auto
  ultimately show thesis using that [of "nat (r div 16)" "r mod 16" "u < 128"] by simp
qed

section \<open>The A-law pair\<close>

lemma alaw2linear_xor:
  assumes "0 \<le> w" "w < 256" "a XOR 85 = w"
  shows "alaw2linear a =
     (let t = 16 * (w mod 16); s = nat (w div 16 mod 8);
          m = (if s = 0 then t + 8 else (t + 264) * 2 ^ (s - 1))
      in if odd (w div 128) then m else - m)"
proof -
  have s: "drop_bit 4 (w AND 112) = w div 16 mod 8" by (rule seg_bits)
  have "0 \<le> w div 16 mod 8" by simp
  then show ?thesis
    unfolding alaw2linear_def codec_consts Let_def assms(3) and_15 s sign_bits
    by (auto simp: push_bit_eq_mult mult.commute nat_diff_distrib)
qed

definition alaw_byte :: "bool \<Rightarrow> nat \<Rightarrow> int \<Rightarrow> int" where
  "alaw_byte neg s q = (16 * int s + q) XOR (if neg then 0x55 else 0xD5)"

lemma alaw_byte_xor:
  assumes "s < 8" "0 \<le> q" "q < 16"
  shows "alaw_byte neg s q XOR 85 = 16 * int s + q + (if neg then 0 else 128)"
proof -
  let ?b = "16 * int s + q"
  have b: "0 \<le> ?b" "?b < 128" using assms by auto
  have "alaw_byte neg s q XOR 85 = ?b XOR ((if neg then 85 else 213) XOR 85)"
    by (simp add: alaw_byte_def xor.assoc)
  then show ?thesis using xor_80 [OF b] by simp
qed

lemma alaw_byte_decode:
  assumes "s < 8" "0 \<le> q" "q < 16"
  shows "alaw2linear (alaw_byte neg s q) =
    (let m = (if s = 0 then 16 * q + 8 else (16 * q + 264) * 2 ^ (s - 1)) in if neg then - m else m)"
proof -
  define k :: int where "k = (if neg then 0 else 1)"
  let ?w = "16 * int s + q + 128 * k"
  have x: "alaw_byte neg s q XOR 85 = ?w"
    using alaw_byte_xor [OF assms] by (simp add: k_def)
  have eq: "?w = 16 * (8 * k + int s) + q" by simp
  have 1: "?w mod 16 = q"
    unfolding eq using assms by (intro digit_low) auto
  have "?w div 16 = 8 * k + int s"
    unfolding eq using assms by (intro digit_high) auto
  then have 2: "?w div 16 mod 8 = int s"
    using assms digit_low [of "int s" 8 k] by simp
  have "?w = 128 * k + (16 * int s + q)" by simp
  then have 3: "?w div 128 = k"
    using assms digit_high [of "16 * int s + q" 128 k] by simp
  have w: "0 \<le> ?w" "?w < 256" using assms by (auto simp: k_def)
  show ?thesis
    unfolding alaw2linear_xor [OF w x] Let_def 1 2 3 by (simp add: k_def)
qed

lemma search_aend:
  assumes "s < 8" "s = 0 \<and> 0 \<le> v \<or> 2 ^ (s + 4) \<le> v" "v < 2 ^ (s + 5)"
  shows "search v seg_aend 8 = s"
proof -
  from assms(1) have "s \<in> {0,1,2,3,4,5,6,7}" by auto
  with assms(2,3) show ?thesis
    by (auto simp: search_def seg_aend_def)
qed

lemma alaw_segment_exists:
  assumes "0 \<le> v" "v < 4096"
  obtains s where "s < (8::nat)" "s = 0 \<and> 0 \<le> v \<or> 2 ^ (s + 4) \<le> (v::int)" "v < 2 ^ (s + 5)"
proof (cases "v < 32")
  case True
  then show thesis using that [of 0] assms by simp
next
  case False
  then have "32 \<le> 2 * v" "2 * v < 8192" using assms by auto
  then obtain s where s: "s < (8::nat)" "2 ^ (s + 5) \<le> 2 * v" "2 * v < 2 ^ (s + 6)"
    by (rule segment_exists)
  then show thesis using that [of s] by (simp add: power_add)
qed

definition alaw_mag :: "int \<Rightarrow> int" where
  "alaw_mag p = (if 0 \<le> p div 8 then p div 8 else - (p div 8) - 1)"

lemma alaw_mag_nonneg: "0 \<le> alaw_mag p"
  by (simp add: alaw_mag_def)

lemma alaw_mag_less: "- 32768 \<le> p \<Longrightarrow> p \<le> 32767 \<Longrightarrow> alaw_mag p < 4096"
  by (auto simp: alaw_mag_def)

text \<open>Segments 0 and 1 share the step size: the shift is by \<open>max 1 seg\<close>.\<close>

lemma alaw_quotient:
  assumes "s = 0 \<and> 0 \<le> v \<or> 2 ^ (s + 4) \<le> (v::int)" "v < 2 ^ (s + 5)"
  shows "v div 2 ^ max 1 s = v div 2 ^ max 1 s mod 16 + (if s = 0 then 0 else 16)"
    and "0 \<le> v div 2 ^ max 1 s" "v div 2 ^ max 1 s < 32"
proof -
  let ?k = "v div 2 ^ max 1 s"
  have k: "if s = 0 then 0 \<le> ?k \<and> ?k < 16 else 16 \<le> ?k \<and> ?k < 32"
  proof (cases s)
    case 0
    then show ?thesis using assms by auto
  next
    case (Suc t)
    then show ?thesis
      using assms div_between [of "2 ^ s" 16 v 32] by (simp add: power_add)
  qed
  then show "0 \<le> ?k" "?k < 32" by (auto split: if_splits)
  show "?k = ?k mod 16 + (if s = 0 then 0 else 16)"
  proof (cases "s = 0")
    case False
    with k have "0 \<le> ?k - 16" "?k - 16 < 16" by auto
    then have "(16 * 1 + (?k - 16)) mod 16 = ?k - 16" by (rule digit_low)
    then have "?k mod 16 = ?k - 16" by simp
    with False show ?thesis by simp
  qed (use k in simp)
qed

lemma linear2alaw_unfold:
  "linear2alaw p =
     (let v = alaw_mag p; s = search v seg_aend 8; m = (if 0 \<le> p div 8 then 0xD5 else 0x55)
      in if 8 \<le> s then 127 XOR m else (16 * int s + v div 2 ^ max 1 s mod 16) XOR m)"
proof -
  have c: "(2::int) ^ 3 = 8" by simp
  have m: "(if s < 2 then x OR v div 2 ^ 1 mod 16 else x OR v div 2 ^ s mod 16)
    = x OR (v div 2 ^ max 1 s mod 16)" for s and x v :: int
  proof -
    have "max 1 s = (if s < 2 then 1 else s)" by auto
    then show ?thesis by simp
  qed
  show ?thesis
    unfolding linear2alaw_def alaw_mag_def codec_consts Let_def drop_bit_eq_div and_15 c m or_fields
    ..
qed

definition alaw_level :: "int \<Rightarrow> int" where
  "alaw_level v =
     (if 4096 \<le> v then 32256
      else let s = max 1 (search v seg_aend 8) in (2 * (v div 2 ^ s) + 1) * 2 ^ (s + 2))"

lemma alaw_level_segment:
  assumes s: "s < 8" "s = 0 \<and> 0 \<le> v \<or> 2 ^ (s + 4) \<le> v" "v < 2 ^ (s + 5)"
  shows "alaw_level v = (2 * (v div 2 ^ max 1 s) + 1) * 2 ^ (max 1 s + 2)"
proof -
  have "(2::int) ^ (s + 5) \<le> 2 ^ 12" using s(1) by (intro power_increasing) auto
  with s(3) have "\<not> 4096 \<le> v" by simp
  then show ?thesis by (simp add: alaw_level_def search_aend [OF s] Let_def)
qed

lemma linear2alaw_byte:
  assumes s: "s < 8" "s = 0 \<and> 0 \<le> alaw_mag p \<or> 2 ^ (s + 4) \<le> alaw_mag p"
    "alaw_mag p < 2 ^ (s + 5)"
  shows "linear2alaw p = alaw_byte (p < 0) s (alaw_mag p div 2 ^ max 1 s mod 16)"
proof -
  have neg: "0 \<le> p div 8 \<longleftrightarrow> \<not> p < 0" by linarith
  show ?thesis
    unfolding linear2alaw_unfold Let_def search_aend [OF s] neg
    using s(1) by (simp add: alaw_byte_def)
qed

lemma alaw_transcode:
  assumes "alaw_mag p < 4096"
  shows "alaw2linear (linear2alaw p) =
    (if p < 0 then - alaw_level (alaw_mag p) else alaw_level (alaw_mag p))"
proof -
  from alaw_mag_nonneg assms
  obtain s where s: "s < 8" "s = 0 \<and> 0 \<le> alaw_mag p \<or> 2 ^ (s + 4) \<le> alaw_mag p"
    "alaw_mag p < 2 ^ (s + 5)" by (rule alaw_segment_exists)
  let ?k = "alaw_mag p div 2 ^ max 1 s"
  have q: "0 \<le> ?k mod 16" "?k mod 16 < 16" by simp_all
  have k: "?k = ?k mod 16 + (if s = 0 then 0 else 16)" by (rule alaw_quotient(1) [OF s(2,3)])
  have "(if s = 0 then 16 * (?k mod 16) + 8 else (16 * (?k mod 16) + 264) * 2 ^ (s - 1))
      = (2 * ?k + 1) * 2 ^ (max 1 s + 2)"
  proof (cases s)
    case 0
    then show ?thesis using k by simp
  next
    case (Suc t)
    define r where "r = ?k mod 16"
    have "?k = r + 16" using k Suc by (simp add: r_def)
    then show ?thesis
      unfolding r_def [symmetric] using Suc by (simp add: power_add algebra_simps)
  qed
  then show ?thesis
    unfolding linear2alaw_byte [OF s] alaw_byte_decode [OF s(1) q] alaw_level_segment [OF s]
    by (simp add: Let_def)
qed

lemma alaw_level_near:
  assumes s: "s < 8" "s = 0 \<and> 0 \<le> v \<or> 2 ^ (s + 4) \<le> v" "v < 2 ^ (s + 5)"
  shows "8 * v - 2 ^ (max 1 s + 2) + 8 \<le> alaw_level v" "alaw_level v \<le> 8 * v + 2 ^ (max 1 s + 2)"
    and "(if s = 0 then 0 else 2 ^ (s + 7)) \<le> alaw_level v" "alaw_level v < 2 ^ (s + 8)"
proof -
  define d :: int where "d = 2 ^ max 1 s"
  define k where "k = v div d"
  have d: "0 < d" by (simp add: d_def)
  have l: "alaw_level v = (2 * k + 1) * (4 * d)"
    using alaw_level_segment [OF s] by (simp add: k_def d_def power_add)
  have v: "k * d \<le> v" "v < k * d + d"
    unfolding k_def by (rule div_bounds [OF d])+
  have p: "(2::int) ^ (max 1 s + 2) = 4 * d" by (simp add: d_def power_add)
  have e: "(2 * k + 1) * (4 * d) = 8 * (k * d) + 4 * d" by (simp add: algebra_simps)
  show "8 * v - 2 ^ (max 1 s + 2) + 8 \<le> alaw_level v" "alaw_level v \<le> 8 * v + 2 ^ (max 1 s + 2)"
    unfolding l e p using v by linarith+
  have k: "k = v div d mod 16 + (if s = 0 then 0 else 16)" "0 \<le> k"
    using alaw_quotient [OF s(2,3)] by (simp_all add: k_def d_def)
  have ds: "(2::int) ^ (s + 7) = (if s = 0 then 64 * d else 128 * d)" by (auto simp: d_def power_add)
  have "(if s = 0 then 0 else 16) \<le> k" "k \<le> (if s = 0 then 15 else 31)"
    using k pos_mod_bound [of 16 "v div d"] by (auto split: if_splits)
  then have "(if s = 0 then 0 else 16) * d \<le> k * d" "k * d \<le> (if s = 0 then 15 else 31) * d"
    using d by (intro mult_right_mono; simp)+
  then show "(if s = 0 then 0 else 2 ^ (s + 7)) \<le> alaw_level v" "alaw_level v < 2 ^ (s + 8)"
    unfolding l e using d ds by (auto simp: power_add split: if_splits)
qed

lemma alaw_level_mono:
  assumes "0 \<le> v" "v \<le> w" "w < 4096"
  shows "alaw_level v \<le> alaw_level w"
proof -
  have v: "0 \<le> v" "v < 4096" and w: "0 \<le> w" "w < 4096" using assms by auto
  from v obtain s where s: "s < 8" "s = 0 \<and> 0 \<le> v \<or> 2 ^ (s + 4) \<le> v" "v < 2 ^ (s + 5)"
    by (rule alaw_segment_exists)
  from w obtain t where t: "t < 8" "t = 0 \<and> 0 \<le> w \<or> 2 ^ (t + 4) \<le> w" "w < 2 ^ (t + 5)"
    by (rule alaw_segment_exists)
  consider "s = t" | "s < t" | "t < s" by linarith
  then show ?thesis
  proof cases
    case 1
    have "v div 2 ^ max 1 s \<le> w div 2 ^ max 1 s" using assms(2) by (intro zdiv_mono1) auto
    then show ?thesis
      unfolding alaw_level_segment [OF s] alaw_level_segment [OF t] 1 by simp
  next
    case 2
    then have "(2::int) ^ (s + 8) \<le> 2 ^ (t + 7)" by (intro power_increasing) auto
    moreover have "2 ^ (t + 7) \<le> alaw_level w" using alaw_level_near(3) [OF t] 2 by simp
    ultimately show ?thesis using alaw_level_near(4) [OF s] by linarith
  next
    case 3
    then have "(2::int) ^ (t + 5) \<le> 2 ^ (s + 4)" by (intro power_increasing) auto
    with s(2) t(3) assms(2) 3 show ?thesis by linarith
  qed
qed

lemma alaw_level_nonneg: "0 \<le> v \<Longrightarrow> v < 4096 \<Longrightarrow> 0 \<le> alaw_level v"
  using alaw_level_mono [of 0 v] by (simp add: alaw_level_def search_def seg_aend_def)

lemma alaw_mag_pos: "0 \<le> p \<Longrightarrow> p \<le> r \<Longrightarrow> alaw_mag p \<le> alaw_mag r"
  using zdiv_mono1 [of p r 8] by (auto simp: alaw_mag_def)

lemma alaw_mag_neg: "p \<le> r \<Longrightarrow> r < 0 \<Longrightarrow> alaw_mag r \<le> alaw_mag p"
  using zdiv_mono1 [of p r 8] by (auto simp: alaw_mag_def)

lemma alaw_mag_abs: "8 * alaw_mag p \<le> \<bar>p\<bar>" "\<bar>p\<bar> \<le> 8 * alaw_mag p + 8"
proof -
  have "p div 8 * 8 \<le> p" "p < p div 8 * 8 + 8" by (rule div_bounds, simp)+
  then show "8 * alaw_mag p \<le> \<bar>p\<bar>" "\<bar>p\<bar> \<le> 8 * alaw_mag p + 8"
    unfolding alaw_mag_def by (auto split: if_splits)
qed

lemma alaw_error:
  assumes "- 32768 \<le> p" "p \<le> 32767"
  shows "32 * \<bar>alaw2linear (linear2alaw p) - p\<bar> \<le> max 256 \<bar>p\<bar>"
proof -
  let ?v = "alaw_mag p"
  have lt: "?v < 4096" using assms by (rule alaw_mag_less)
  have e: "\<bar>alaw2linear (linear2alaw p) - p\<bar> = \<bar>alaw_level ?v - \<bar>p\<bar>\<bar>"
    by (auto simp: alaw_transcode [OF lt])
  from alaw_mag_nonneg lt
  obtain s where s: "s < 8" "s = 0 \<and> 0 \<le> ?v \<or> 2 ^ (s + 4) \<le> ?v" "?v < 2 ^ (s + 5)"
    by (rule alaw_segment_exists)
  define d :: int where "d = 2 ^ (max 1 s + 2)"
  have near: "\<bar>alaw_level ?v - \<bar>p\<bar>\<bar> \<le> d"
    using alaw_level_near(1,2) [OF s] alaw_mag_abs [of p] unfolding d_def by linarith
  have d: "32 * d \<le> max 256 \<bar>p\<bar>"
  proof (cases "s < 2")
    case True
    then have "s = 0 \<or> s = 1" by auto
    then show ?thesis by (auto simp: d_def)
  next
    case False
    then have "32 * d = 8 * 2 ^ (s + 4)" by (simp add: d_def power_add max_def)
    with False s(2) alaw_mag_abs(1) [of p] show ?thesis by linarith
  qed
  have "32 * \<bar>alaw_level ?v - \<bar>p\<bar>\<bar> \<le> 32 * d" using near by (rule mult_left_mono) simp
  then show ?thesis unfolding e using d by (rule order_trans)
qed

lemma alaw_byte_roundtrip:
  assumes "s < 8" "0 \<le> q" "q < 16"
  shows "linear2alaw (alaw2linear (alaw_byte neg s q)) = alaw_byte neg s q"
proof -
  define v where "v = (if s = 0 then 2 * q + 1 else (2 * q + 33) * 2 ^ (s - 1))"
  let ?p = "alaw2linear (alaw_byte neg s q)"
  have p: "?p = (if neg then - (8 * v) else 8 * v)"
    unfolding alaw_byte_decode [OF assms] by (simp add: v_def Let_def algebra_simps)
  have "0 < v" using assms by (simp add: v_def)
  then have sign: "?p < 0 \<longleftrightarrow> neg" unfolding p by auto
  define m where "m = (if neg then v - 1 else v)"
  have mag: "alaw_mag ?p = m"
    unfolding p using \<open>0 < v\<close> by (auto simp: alaw_mag_def m_def)
  have "m div 2 ^ max 1 s = q + (if s = 0 then 0 else 16) \<and>
      (s = 0 \<and> 0 \<le> m \<or> 2 ^ (s + 4) \<le> m) \<and> m < 2 ^ (s + 5)"
  proof (cases s)
    case 0
    then show ?thesis using assms by (auto simp: m_def v_def)
  next
    case (Suc t)
    define e :: int where "e = 2 ^ t - (if neg then 1 else 0)"
    have "(1::int) \<le> 2 ^ t" by simp
    then have e: "0 \<le> e" "e < 2 ^ s"
      unfolding e_def Suc power_Suc by (cases neg; simp; linarith)+
    have m: "m = 2 ^ s * (q + 16) + e"
      by (simp add: m_def v_def e_def Suc algebra_simps)
    have "2 ^ s * 16 \<le> 2 ^ s * (q + 16)" "2 ^ s * (q + 16) \<le> 2 ^ s * (31::int)"
      using assms by (simp_all add: mult_left_mono)
    moreover have "(2::int) ^ (s + 4) = 2 ^ s * 16" "(2::int) ^ (s + 5) = 2 ^ s * 32"
      by (simp_all add: power_add)
    ultimately have "2 ^ (s + 4) \<le> m" "m < 2 ^ (s + 5)"
      using e unfolding m by linarith+
    then show ?thesis using digit_high [OF e, of "q + 16"] Suc by (simp add: m)
  qed
  then have q: "m div 2 ^ max 1 s = q + (if s = 0 then 0 else 16)"
    and b: "s = 0 \<and> 0 \<le> m \<or> 2 ^ (s + 4) \<le> m" "m < 2 ^ (s + 5)" by auto
  have "m div 2 ^ max 1 s mod 16 = q"
    unfolding q using assms by simp
  then show ?thesis
    using linear2alaw_byte [of s ?p] assms(1) b unfolding mag sign by simp
qed

lemma alaw_byte_cases:
  assumes "0 \<le> a" "a \<le> 255"
  obtains neg s q where "s < 8" "0 \<le> q" "q < 16" "a = alaw_byte neg s q"
proof -
  define w where "w = a XOR 85"
  have a: "take_bit 8 a = a" using assms by (simp add: take_bit_int_eq_self)
  have "take_bit 8 w = w" unfolding w_def take_bit_xor a by simp
  then have w: "0 \<le> w" "w < 256"
    using take_bit_nonnegative [of 8 w] take_bit_int_less_exp [of 8 w] by simp_all
  define r where "r = w mod 128"
  have r: "0 \<le> r" "r < 128" by (simp_all add: r_def)
  have "0 \<le> r div 16" using r by (simp add: pos_imp_zdiv_nonneg_iff)
  then have req: "r = 16 * int (nat (r div 16)) + r mod 16" by simp
  have s: "nat (r div 16) < 8" using r by auto
  have "w = r + (if w < 128 then 0 else 128)" unfolding r_def using w by presburger
  then have "w = alaw_byte (w < 128) (nat (r div 16)) (r mod 16) XOR 85"
    using alaw_byte_xor [OF s, of "r mod 16" "w < 128"] req by simp
  then have "a = alaw_byte (w < 128) (nat (r div 16)) (r mod 16)"
    unfolding w_def by (metis xor.assoc xor_self_eq xor.right_neutral)
  with s show thesis using that [of "nat (r div 16)" "r mod 16" "w < 128"] by simp
qed

section \<open>The contract of a companding pair\<close>

abbreviation pcm16 :: "int \<Rightarrow> bool" where
  "pcm16 p \<equiv> - 32768 \<le> p \<and> p \<le> 32767"

abbreviation code8 :: "int \<Rightarrow> bool" where
  "code8 c \<equiv> 0 \<le> c \<and> c \<le> 255"

text \<open>
  Both laws encode a sample by its sign and a quantised magnitude.  What a sender and a
  receiver rely on follows from that shape: transcoding is monotone (louder stays
  louder), and a second pass through the codec loses nothing more.
\<close>

locale compander =
  fixes enc dec mag level :: "int \<Rightarrow> int"
  assumes transcode: "pcm16 p \<Longrightarrow> dec (enc p) = (if p < 0 then - level (mag p) else level (mag p))"
    and level_mono: "pcm16 p \<Longrightarrow> pcm16 r \<Longrightarrow> mag p \<le> mag r \<Longrightarrow> level (mag p) \<le> level (mag r)"
    and level_nonneg: "pcm16 p \<Longrightarrow> 0 \<le> level (mag p)"
    and mag_pos: "0 \<le> p \<Longrightarrow> p \<le> r \<Longrightarrow> mag p \<le> mag r"
    and mag_neg: "p \<le> r \<Longrightarrow> r < 0 \<Longrightarrow> mag r \<le> mag p"
    and enc_code: "pcm16 p \<Longrightarrow> code8 (enc p)"
    and dec_enc_dec: "code8 c \<Longrightarrow> dec (enc (dec c)) = dec c"
begin

lemma transcode_mono:
  assumes "pcm16 p" "pcm16 r" "p \<le> r"
  shows "dec (enc p) \<le> dec (enc r)"
proof -
  consider "0 \<le> p" | "p < 0" "0 \<le> r" | "r < 0" using assms(3) by linarith
  then show ?thesis
  proof cases
    case 1
    then show ?thesis using assms mag_pos level_mono by (simp add: transcode)
  next
    case 2
    have "- level (mag p) \<le> 0" "0 \<le> level (mag r)" using assms level_nonneg by simp_all
    then show ?thesis using assms 2 by (simp add: transcode)
  next
    case 3
    then show ?thesis using assms mag_neg level_mono by (simp add: transcode)
  qed
qed

lemma transcode_idem: "pcm16 p \<Longrightarrow> dec (enc (dec (enc p))) = dec (enc p)"
  by (simp add: enc_code dec_enc_dec)

end

lemma ulaw_byte_code: "s < 8 \<Longrightarrow> 0 \<le> q \<Longrightarrow> q < 16 \<Longrightarrow> code8 (ulaw_byte neg s q)"
  by (auto simp: ulaw_byte_def)

lemma linear2ulaw_code: "code8 (linear2ulaw p)"
proof -
  have "32 \<le> ulaw_mag p" "ulaw_mag p \<le> 8192" using ulaw_mag_bounds [of p] by auto
  then show ?thesis
  proof (cases rule: ulaw_mag_cases)
    case clip
    then show ?thesis using ulaw_byte_code [of 7 15] by (simp add: linear2ulaw_clip)
  next
    case (seg s)
    then show ?thesis
      unfolding linear2ulaw_byte [OF seg] using segment_quotient [OF seg(2,3)]
      by (intro ulaw_byte_code) auto
  qed
qed

lemma alaw_byte_code:
  assumes "s < 8" "0 \<le> q" "q < 16"
  shows "code8 (alaw_byte neg s q)"
proof -
  define b where "b = 16 * int s + q"
  have "0 \<le> b" "b < 256" using assms by (auto simp: b_def)
  then have b: "take_bit 8 b = b" by (simp add: take_bit_int_eq_self)
  have "take_bit 8 (alaw_byte neg s q) = alaw_byte neg s q"
    by (simp add: alaw_byte_def take_bit_xor b flip: b_def)
  then show ?thesis
    using take_bit_nonnegative [of 8 "alaw_byte neg s q"]
      take_bit_int_less_exp [of 8 "alaw_byte neg s q"] by simp
qed

lemma linear2alaw_code:
  assumes "pcm16 p"
  shows "code8 (linear2alaw p)"
proof -
  have "alaw_mag p < 4096" using assms alaw_mag_less by simp
  with alaw_mag_nonneg obtain s where s: "s < 8" "s = 0 \<and> 0 \<le> alaw_mag p \<or> 2 ^ (s + 4) \<le> alaw_mag p"
    "alaw_mag p < 2 ^ (s + 5)" by (rule alaw_segment_exists)
  then show ?thesis unfolding linear2alaw_byte [OF s] by (intro alaw_byte_code) auto
qed

text \<open>Positive and negative zero.\<close>

lemma ulaw_zero: "ulaw2linear 127 = 0" "ulaw2linear 255 = 0"
  using ulaw_byte_decode [of 0 0 True] ulaw_byte_decode [of 0 0 False]
  by (simp_all add: ulaw_byte_def)

lemma ulaw_dec_enc_dec: "code8 c \<Longrightarrow> ulaw2linear (linear2ulaw (ulaw2linear c)) = ulaw2linear c"
proof -
  assume "code8 c"
  then obtain neg s q where b: "s < 8" "0 \<le> q" "q < 16" "c = ulaw_byte neg s q"
    using ulaw_byte_cases by blast
  then show ?thesis
    using ulaw_byte_roundtrip [OF b(1-3), of neg] ulaw_zero by (auto simp: ulaw_byte_def)
qed

lemma alaw_enc_dec: "code8 c \<Longrightarrow> linear2alaw (alaw2linear c) = c"
  using alaw_byte_cases [of c] alaw_byte_roundtrip by metis

interpretation ulaw: compander linear2ulaw ulaw2linear ulaw_mag ulaw_level
proof (unfold_locales, goal_cases)
  case (1 p) show ?case by (rule ulaw_transcode)
next
  case (2 p r)
  then show ?case
    using ulaw_mag_bounds(1) [of p] ulaw_mag_bounds(2) [of r] by (intro ulaw_level_mono) auto
next
  case (3 p) show ?case by (intro ulaw_level_nonneg ulaw_mag_bounds)
next
  case (4 p r) then show ?case by (rule ulaw_mag_pos)
next
  case (5 p r) then show ?case by (rule ulaw_mag_neg)
next
  case (6 p) show ?case by (rule linear2ulaw_code)
next
  case (7 c) then show ?case by (rule ulaw_dec_enc_dec)
qed

interpretation alaw: compander linear2alaw alaw2linear alaw_mag alaw_level
proof (unfold_locales, goal_cases)
  case (1 p) then show ?case using alaw_mag_less by (intro alaw_transcode) simp
next
  case (2 p r)
  then show ?case using alaw_mag_nonneg alaw_mag_less by (intro alaw_level_mono) simp_all
next
  case (3 p)
  then show ?case using alaw_mag_nonneg alaw_mag_less by (intro alaw_level_nonneg) simp_all
next
  case (4 p r) then show ?case by (rule alaw_mag_pos)
next
  case (5 p r) then show ?case by (rule alaw_mag_neg)
next
  case (6 p) then show ?case by (rule linear2alaw_code)
next
  case (7 c) then show ?case by (simp add: alaw_enc_dec)
qed

section \<open>The decoder of a whole payload\<close>

text \<open>
  \<open>output_pcm_buf\<close> is the one buffer of the codec: the bytes of its allocation, or \<open>None\<close>
  when no live allocation is behind the pointer (\<open>kmalloc\<close> failed, or \<open>kfree\<close> was called).
  \<open>kmalloc\<close> is a function of the kernel and a parameter here.  A \<open>short\<close> occupies two bytes,
  low byte first.  The decoder returns a pointer to that buffer, or null for an empty payload.
\<close>

record codec_state =
  output_pcm_buf :: "byte list option"

definition short_bytes :: "int \<Rightarrow> byte list" where
  "short_bytes x = (let w = word_of_int x :: 16 word in [ucast w, ucast (drop_bit 8 w)])"

definition Init_audio_codecs :: "(nat \<Rightarrow> byte list option) \<Rightarrow> codec_state \<Rightarrow> codec_state" where
  "Init_audio_codecs kmalloc st = st\<lparr>output_pcm_buf := kmalloc 4380\<rparr>"

definition Clear_audio_codec :: "codec_state \<Rightarrow> codec_state" where
  "Clear_audio_codec st = st\<lparr>output_pcm_buf := None\<rparr>"

function decode_loop :: "nat \<Rightarrow> nat \<Rightarrow> byte list \<Rightarrow> byte list option \<Rightarrow> byte list option res" where
  "decode_loop i n input out =
     (if i < n then
        case out of
          None \<Rightarrow> Inl NullPointer
        | Some b \<Rightarrow>
            bindR (mem_read i 1 input) (\<lambda>v.
            bindR (mem_write (2 * i) (short_bytes (ulaw2linear (uint (hd v)))) b) (\<lambda>b'.
            decode_loop (Suc i) n input (Some b')))
      else Inr out)"
  by pat_completeness auto
termination by (relation "measure (\<lambda>(i, n, input, out). n - i)") auto

declare decode_loop.simps [simp del]

definition g711_ulaw_decoder ::
  "u16 \<Rightarrow> byte list \<Rightarrow> codec_state \<Rightarrow> (codec_state \<times> byte list option) res" where
  "g711_ulaw_decoder in_ulaw_byte_size input_ulaw_buffer st =
     (let l_in_size_byte = sint in_ulaw_byte_size
      in if l_in_size_byte = 0 then Inr (st, None)
         else bindR (decode_loop 0 (nat l_in_size_byte) input_ulaw_buffer (output_pcm_buf st))
                (\<lambda>out. Inr (st\<lparr>output_pcm_buf := out\<rparr>, out)))"

text \<open>What the buffer holds after the loop.\<close>

definition pcm_bytes :: "byte list \<Rightarrow> byte list" where
  "pcm_bytes us = concat (map (\<lambda>u. short_bytes (ulaw2linear (uint u))) us)"

lemma length_short_bytes [simp]: "length (short_bytes x) = 2"
  by (simp add: short_bytes_def Let_def)

lemma length_pcm_bytes [simp]: "length (pcm_bytes us) = 2 * length us"
  by (induction us) (simp_all add: pcm_bytes_def)

lemma decode_loop_ok:
  assumes "i \<le> n" "n \<le> length input" "n < 2 ^ 31" "2 * n \<le> length b"
    "take (2 * i) b = pcm_bytes (take i input)"
  shows "decode_loop i n input (Some b) = Inr (Some (pcm_bytes (take n input) @ drop (2 * n) b))"
  using assms
proof (induction "n - i" arbitrary: i b)
  case 0
  then have "i = n" by simp
  with 0 show ?case
    by (subst decode_loop.simps) (metis append_take_drop_id less_irrefl)
next
  case (Suc k)
  then have i: "i < n" "i < length input" by auto
  define v where "v = short_bytes (ulaw2linear (uint (input ! i)))"
  define b' where "b' = take (2 * i) b @ v @ drop (2 * i + 2) b"
  have v: "length v = 2" by (simp add: v_def)
  have "pcm_bytes (take (Suc i) input) = take (2 * i) b @ v"
    using Suc.prems(5) i(2) by (simp add: take_Suc_conv_app_nth pcm_bytes_def v_def)
  then have t: "take (2 * Suc i) b' = pcm_bytes (take (Suc i) input)"
    using Suc.prems i v by (simp add: b'_def)
  have IH: "decode_loop (Suc i) n input (Some b') =
      Inr (Some (pcm_bytes (take n input) @ drop (2 * n) b'))"
    using Suc.hyps(2) Suc.prems i v t by (intro Suc.hyps(1)) (auto simp: b'_def)
  have "Suc (Suc (2 * n - 2)) = 2 * n" using i by simp
  then have d: "drop (2 * n) b' = drop (2 * n) b"
    using Suc.prems i v by (simp add: b'_def)
  have "mem_read i 1 input = Inr [input ! i]"
    using i Suc.prems(3) by (simp add: mem_read_ok take_Suc_conv_app_nth flip: One_nat_def) (simp add: hd_drop_conv_nth take_Suc)
  moreover have "mem_write (2 * i) v b = Inr b'"
    using Suc.prems i v by (simp add: mem_write_ok b'_def)
  ultimately show ?case
    using i by (subst decode_loop.simps) (simp add: IH d flip: v_def)
qed

lemma decode_loop_overflow:
  assumes "i \<le> n" "length b div 2 < n" "even (length b)" "n \<le> length input" "n < 2 ^ 31" "2 * i \<le> length b"
  shows "decode_loop i n input (Some b) = Inl OutOfBounds"
  using assms
proof (induction "n - i" arbitrary: i b)
  case 0
  then show ?case by auto
next
  case (Suc k)
  define v where "v = short_bytes (ulaw2linear (uint (input ! i)))"
  have i: "i < n" "i < length input" using Suc by auto
  have r: "mem_read i 1 input = Inr [input ! i]"
    using i Suc.prems(5) by (simp add: mem_read_def take_Suc hd_drop_conv_nth)
  show ?case
  proof (cases "2 * Suc i \<le> length b")
    case True
    define b' where "b' = take (2 * i) b @ v @ drop (2 * i + 2) b"
    have l: "length b' = length b" using True by (simp add: b'_def v_def)
    have "decode_loop (Suc i) n input (Some b') = Inl OutOfBounds"
      using Suc.hyps(2) Suc.prems i True l by (intro Suc.hyps(1)) auto
    moreover have "mem_write (2 * i) v b = Inr b'"
      using True by (simp add: mem_write_ok b'_def v_def)
    ultimately show ?thesis
      using i r by (subst decode_loop.simps) (simp flip: v_def)
  next
    case False
    then have "mem_write (2 * i) v b = Inl OutOfBounds"
      using Suc.prems by (simp add: mem_write_def v_def)
    then show ?thesis using i r by (subst decode_loop.simps) (simp flip: v_def)
  qed
qed

lemma ulaw2linear_range:
  assumes "code8 u"
  shows "\<bar>ulaw2linear u\<bar> \<le> 32124"
proof -
  obtain neg s q where b: "s < 8" "0 \<le> q" "q < 16" "u = ulaw_byte neg s q"
    using ulaw_byte_cases [of u] assms by blast
  have "(8 * q + 132) * 2 ^ s \<le> 252 * (2::int) ^ 7"
    using b by (intro mult_mono power_increasing) auto
  moreover have "132 * 1 \<le> (8 * q + 132) * (2::int) ^ s"
    using b by (intro mult_mono) auto
  ultimately show ?thesis
    unfolding b(4) ulaw_byte_decode [OF b(1-3)] by auto
qed

text \<open>The two bytes of a sample read back as the sample: nothing is cut off.\<close>

definition short_of_bytes :: "byte \<Rightarrow> byte \<Rightarrow> int" where
  "short_of_bytes lo hi = sint (ucast lo OR push_bit 8 (ucast hi) :: 16 word)"

lemma short_of_short_bytes:
  assumes "- 32768 \<le> x" "x \<le> 32767"
  shows "short_of_bytes (short_bytes x ! 0) (short_bytes x ! 1) = x"
proof -
  let ?w = "word_of_int x :: 16 word"
  have "ucast (ucast ?w :: byte) OR push_bit 8 (ucast (ucast (drop_bit 8 ?w) :: byte)) = ?w"
  proof (rule bit_eqI)
    fix n assume "possible_bit TYPE(16 word) n"
    then have n: "n < 16" by simp
    show "bit (ucast (ucast ?w :: byte) OR push_bit 8 (ucast (ucast (drop_bit 8 ?w) :: byte)) :: 16 word) n
        = bit ?w n"
      using n by (cases "n < 8") (auto simp: bit_simps)
  qed
  then show ?thesis
    using sint_of_int16 [OF assms] by (simp add: short_of_bytes_def short_bytes_def Let_def)
qed

lemma pcm_bytes_nth:
  assumes "i < length us"
  shows "pcm_bytes us ! (2 * i) = short_bytes (ulaw2linear (uint (us ! i))) ! 0"
    and "pcm_bytes us ! Suc (2 * i) = short_bytes (ulaw2linear (uint (us ! i))) ! 1"
  using assms
proof (induction us arbitrary: i)
  case (Cons u us)
  {
    case 1
    then show ?case using Cons.IH(1) by (cases i) (auto simp: pcm_bytes_def nth_append)
  next
    case 2
    then show ?case using Cons.IH(2) by (cases i) (auto simp: pcm_bytes_def nth_append)
  }
qed simp_all

lemma ulaw2linear_uint: "\<bar>ulaw2linear (uint (u :: byte))\<bar> \<le> 32124"
proof (rule ulaw2linear_range)
  show "code8 (uint u)" using uint_bounded [of u] by simp
qed

lemma sample_roundtrip:
  "short_of_bytes (short_bytes (ulaw2linear (uint (u :: byte))) ! 0)
     (short_bytes (ulaw2linear (uint u)) ! Suc 0) = ulaw2linear (uint u)"
  using ulaw2linear_uint [of u] short_of_short_bytes [of "ulaw2linear (uint u)"] by simp

lemma g711_decoder_run:
  assumes "output_pcm_buf st = Some b" "2 * unat n \<le> length b" "0 < unat n" "unat n < 32768"
    "unat n \<le> length input"
  shows "g711_ulaw_decoder n input st =
    (let b' = pcm_bytes (take (unat n) input) @ drop (2 * unat n) b
     in Inr (st\<lparr>output_pcm_buf := Some b'\<rparr>, Some b'))"
proof -
  have "decode_loop 0 (unat n) input (Some b) =
      Inr (Some (pcm_bytes (take (unat n) input) @ drop (2 * unat n) b))"
    using assms by (intro decode_loop_ok) (auto simp: pcm_bytes_def)
  then show ?thesis
    using sint_u16_pos [OF assms(3,4)] by (simp add: g711_ulaw_decoder_def Let_def assms(1))
qed

lemma g711_decoder_zero: "g711_ulaw_decoder 0 input st = Inr (st, None)"
  by (simp add: g711_ulaw_decoder_def)

section \<open>Properties of the codec\<close>

text \<open>
  C15: the u-law pair is lossless on codes: encoding a decoded byte gives the byte back, for
  every byte but 127 (minus zero), which comes back as 255 (plus zero).
\<close>

theorem ulaw_roundtrip:
  assumes "0 \<le> u" "u \<le> 255"
  shows "linear2ulaw (ulaw2linear u) = (if u = 127 then 255 else u)"
proof -
  from assms obtain neg s q where b: "s < 8" "0 \<le> q" "q < 16" "u = ulaw_byte neg s q"
    by (rule ulaw_byte_cases)
  moreover from this have "u = 127 \<longleftrightarrow> neg \<and> s = 0 \<and> q = 0"
    by (auto simp: ulaw_byte_def)
  ultimately show ?thesis using ulaw_byte_roundtrip [OF b(1-3)] by auto
qed

theorem ulaw_roundtrip_witness: "linear2ulaw (ulaw2linear 42) = 42"
  using ulaw_roundtrip [of 42] by simp

text \<open>C27: the A-law pair is lossless on all 256 codes.\<close>

theorem alaw_roundtrip:
  assumes "0 \<le> a" "a \<le> 255"
  shows "linear2alaw (alaw2linear a) = a"
  using assms by (intro alaw_enc_dec) simp

theorem alaw_roundtrip_witness: "linear2alaw (alaw2linear 213) = 213"
  using alaw_roundtrip [of 213] by simp

text \<open>
  C28: quantisation: sending a 16-bit sample through the u-law pair moves it by at most
  1/32 of its size plus eight steps, and keeps its code in one byte.
\<close>

theorem ulaw_quantisation:
  assumes "- 32768 \<le> p" "p \<le> 32767"
  shows "32 * \<bar>ulaw2linear (linear2ulaw p) - p\<bar> \<le> \<bar>p\<bar> + 231
    \<and> 0 \<le> linear2ulaw p \<and> linear2ulaw p \<le> 255"
  using ulaw_error [OF assms] linear2ulaw_code [of p] by simp

theorem ulaw_quantisation_witness:
  "32 * \<bar>ulaw2linear (linear2ulaw 20000) - 20000\<bar> \<le> 20231"
  using ulaw_quantisation [of 20000] by simp

text \<open>The same for the A-law pair: at most 1/32 of the sample, or eight steps for small ones.\<close>

lemma alaw_quantisation:
  assumes "- 32768 \<le> p" "p \<le> 32767"
  shows "32 * \<bar>alaw2linear (linear2alaw p) - p\<bar> \<le> max 256 \<bar>p\<bar>
    \<and> 0 \<le> linear2alaw p \<and> linear2alaw p \<le> 255"
  using alaw_error [OF assms] linear2alaw_code [of p] assms by simp

lemma alaw_quantisation_witness:
  "32 * \<bar>alaw2linear (linear2alaw (- 100)) + 100\<bar> \<le> 256"
  using alaw_quantisation [of "- 100"] by simp

text \<open>
  Both codecs are monotone on 16-bit samples (a louder sample never decodes quieter) and
  a second pass through the codec changes nothing.
\<close>

lemma companding_monotone:
  assumes "- 32768 \<le> p" "p \<le> r" "r \<le> 32767"
  shows "ulaw2linear (linear2ulaw p) \<le> ulaw2linear (linear2ulaw r)
    \<and> alaw2linear (linear2alaw p) \<le> alaw2linear (linear2alaw r)
    \<and> ulaw2linear (linear2ulaw (ulaw2linear (linear2ulaw p))) = ulaw2linear (linear2ulaw p)
    \<and> alaw2linear (linear2alaw (alaw2linear (linear2alaw p))) = alaw2linear (linear2alaw p)"
  using assms ulaw.transcode_mono alaw.transcode_mono ulaw.transcode_idem alaw.transcode_idem
  by simp

lemma companding_monotone_witness:
  "ulaw2linear (linear2ulaw (- 3)) \<le> ulaw2linear (linear2ulaw 1000)"
  using companding_monotone [of "- 3" 1000] by simp

text \<open>
  C26: the payload decoder, given an allocated output buffer of 4380 bytes and 1 to 2190
  bytes of input, stays in bounds and leaves in the buffer, as little-endian 16-bit samples
  without loss, the decoded value of every input byte; the rest of the buffer is unchanged.
\<close>

theorem g711_ulaw_decoder_correct:
  assumes "output_pcm_buf st = Some b" "length b = 4380"
    and "0 < unat n" "unat n \<le> 2190" "unat n \<le> length input"
  shows "\<exists>b'. g711_ulaw_decoder n input st = Inr (st\<lparr>output_pcm_buf := Some b'\<rparr>, Some b')
    \<and> length b' = 4380
    \<and> (\<forall>i < unat n. short_of_bytes (b' ! (2 * i)) (b' ! (2 * i + 1)) = ulaw2linear (uint (input ! i)))
    \<and> drop (2 * unat n) b' = drop (2 * unat n) b"
proof -
  let ?us = "take (unat n) input"
  define b' where "b' = pcm_bytes ?us @ drop (2 * unat n) b"
  have len: "length (pcm_bytes ?us) = 2 * unat n" using assms(5) by simp
  have "short_of_bytes (b' ! (2 * i)) (b' ! (2 * i + 1)) = ulaw2linear (uint (input ! i))"
    if i: "i < unat n" for i
  proof -
    have "b' ! (2 * i) = pcm_bytes ?us ! (2 * i)" "b' ! (2 * i + 1) = pcm_bytes ?us ! (2 * i + 1)"
      unfolding b'_def using i len by (simp_all add: nth_append)
    then show ?thesis
      using i assms(5) by (simp add: pcm_bytes_nth sample_roundtrip)
  qed
  moreover have "g711_ulaw_decoder n input st = Inr (st\<lparr>output_pcm_buf := Some b'\<rparr>, Some b')"
    using g711_decoder_run [OF assms(1), of n input] assms by (simp add: b'_def Let_def)
  moreover have "length b' = 4380" "drop (2 * unat n) b' = drop (2 * unat n) b"
    using assms len by (simp_all add: b'_def)
  ultimately show ?thesis by blast
qed

theorem g711_ulaw_decoder_correct_witness:
  "\<exists>b'. g711_ulaw_decoder 2 [0, 255] \<lparr>output_pcm_buf = Some (replicate 4380 7)\<rparr>
      = Inr (\<lparr>output_pcm_buf = Some b'\<rparr>, Some b') \<and> length b' = 4380"
proof -
  let ?st = "\<lparr>output_pcm_buf = Some (replicate 4380 7)\<rparr>"
  have n: "unat (2 :: u16) = 2" by simp
  show ?thesis
    using g711_ulaw_decoder_correct [of ?st "replicate 4380 7" 2 "[0, 255]"] n by auto
qed

text \<open>
  The decoder has no guard against longer input: more than 2190 bytes (and fewer than
  32768, where the length turns negative and nothing is decoded) write past the allocation.
\<close>

lemma g711_ulaw_decoder_overflow:
  assumes "output_pcm_buf st = Some b" "length b = 4380"
    and "2190 < unat n" "unat n < 32768" "unat n \<le> length input"
  shows "g711_ulaw_decoder n input st = Inl OutOfBounds"
proof -
  have "decode_loop 0 (unat n) input (Some b) = Inl OutOfBounds"
    using assms by (intro decode_loop_overflow) auto
  moreover have "sint n \<noteq> 0" "nat (sint n) = unat n"
    using assms by (intro sint_u16_pos; simp)+
  ultimately show ?thesis by (simp add: g711_ulaw_decoder_def Let_def assms(1))
qed

lemma g711_ulaw_decoder_overflow_witness:
  "g711_ulaw_decoder 2191 (replicate 2191 0) \<lparr>output_pcm_buf = Some (replicate 4380 0)\<rparr> = Inl OutOfBounds"
  using g711_ulaw_decoder_overflow
    [of "\<lparr>output_pcm_buf = Some (replicate 4380 0)\<rparr>" "replicate 4380 0" 2191 "replicate 2191 0"]
  by simp

end
