(* ===== verification/Voice_Fifo.thy ===== *)
theory Voice_Fifo
  imports Prelude "HOL-Library.Sublist"
begin

text \<open>
  The byte FIFO between the network hook and the DMA player: \<open>drv/linux/Ab_arm_fifodrv.c\<close>.

  The kernel's \<open>kfifo\<close> is not part of the program.  Its operations are a record of
  functions, an argument of the definitions that call them, and the locale
  \<open>kfifo_contract\<close> states what its documentation promises.  Inside the locale the two stream
  operations of the driver are proved to satisfy \<open>voice_queue\<close>, the contract their callers
  use.
\<close>

section \<open>The kernel FIFO the driver calls\<close>

record 'q kfifo_api =
  kfifo_alloc :: "nat \<Rightarrow> 'q option"               \<comment> \<open>\<open>None\<close> for an error code\<close>
  kfifo_put :: "'q \<Rightarrow> byte \<Rightarrow> 'q \<times> bool"          \<comment> \<open>\<open>False\<close> when full\<close>
  kfifo_get :: "'q \<Rightarrow> ('q \<times> byte) option"         \<comment> \<open>\<open>None\<close> when empty\<close>
  kfifo_is_full :: "'q \<Rightarrow> bool"
  kfifo_is_empty :: "'q \<Rightarrow> bool"

section \<open>The driver's operations\<close>

definition FIFO_SIZE :: nat where "FIFO_SIZE = 8192"

text \<open>
  The static variable \<open>test\<close> is the FIFO; \<open>None\<close> is a variable whose FIFO is not allocated
  (before initialisation, after a failed one, after \<open>kfifo_free\<close>).
\<close>

definition Init_FIFO_voice_rtp_buf :: "'q kfifo_api \<Rightarrow> 'q option" where
  "Init_FIFO_voice_rtp_buf api = kfifo_alloc api FIFO_SIZE"

definition Clear_FIFO_voice_rtp_buf :: "'q option \<Rightarrow> 'q option" where
  "Clear_FIFO_voice_rtp_buf test = None"

text \<open>
  The counter \<open>i\<close> is an \<open>unsigned short\<close> and is compared with the \<open>int\<close> size for
  inequality, so a size outside 0 to 65535 is never reached.
\<close>

partial_function (option) set_loop ::
  "'q kfifo_api \<Rightarrow> byte list \<Rightarrow> int \<Rightarrow> u16 \<Rightarrow> 'q \<Rightarrow> ('q \<times> u16) res option" where
  "set_loop api in_buf in_size i q =
     (if uint i \<noteq> in_size then
        case mem_read (unat i) 1 in_buf of
          Inl e \<Rightarrow> Some (Inl e)
        | Inr v \<Rightarrow> set_loop api in_buf in_size (i + 1) (fst (kfifo_put api q (hd v)))
      else Some (Inr (q, i)))"

definition voice_buf_set_data_in_rtp_stream1 ::
  "'q kfifo_api \<Rightarrow> 'q \<Rightarrow> byte list \<Rightarrow> int \<Rightarrow> ('q \<times> u16) res" where
  "voice_buf_set_data_in_rtp_stream1 api q in_buf in_size =
     (if kfifo_is_full api q then Inr (q, 0)
      else of_loop (set_loop api in_buf in_size 0 q))"

text \<open>
  The reader.  Its second parameter is declared a pointer, but the caller passes the
  number 4000 and the loop compares it as a number: a 32-bit unsigned value.
\<close>

partial_function (option) get_loop ::
  "'q kfifo_api \<Rightarrow> u32 \<Rightarrow> u16 \<Rightarrow> 'q \<Rightarrow> byte list \<Rightarrow> ('q \<times> byte list \<times> u16) res option" where
  "get_loop api in_size j q in_buf =
     (if ucast j \<noteq> in_size then
        case kfifo_get api q of
          None \<Rightarrow> Some (Inr (q, in_buf, j))
        | Some (q', x) \<Rightarrow>
            (case mem_write (unat j) [x] in_buf of
               Inl e \<Rightarrow> Some (Inl e)
             | Inr in_buf' \<Rightarrow> get_loop api in_size (j + 1) q' in_buf')
      else Some (Inr (q, in_buf, j)))"

definition voice_buf_get_data_in_rtp_stream1 ::
  "'q kfifo_api \<Rightarrow> 'q \<Rightarrow> byte list \<Rightarrow> u32 \<Rightarrow> ('q \<times> byte list \<times> u16) res" where
  "voice_buf_get_data_in_rtp_stream1 api q in_buf in_size =
     (if kfifo_is_empty api q then Inr (q, in_buf, 0)
      else of_loop (get_loop api in_size 0 q in_buf))"

section \<open>Sequences of operations\<close>

text \<open>
  The hook writes packets and the player reads blocks, in any order.  \<open>queue_run\<close> performs
  a sequence of such calls and collects what the reads delivered.
\<close>

datatype voice_op = Put "byte list" | Take nat

fun puts :: "voice_op list \<Rightarrow> byte list" where
  "puts [] = []"
| "puts (Put d # ops) = d @ puts ops"
| "puts (Take n # ops) = puts ops"

fun queue_run ::
  "('q \<Rightarrow> byte list \<Rightarrow> int \<Rightarrow> ('q \<times> u16) res) \<Rightarrow>
   ('q \<Rightarrow> byte list \<Rightarrow> u32 \<Rightarrow> ('q \<times> byte list \<times> u16) res) \<Rightarrow>
   'q \<Rightarrow> voice_op list \<Rightarrow> ('q \<times> byte list) res" where
  "queue_run set_data get_data q [] = Inr (q, [])"
| "queue_run set_data get_data q (Put d # ops) =
     bindR (set_data q d (int (length d))) (\<lambda>(q', r). queue_run set_data get_data q' ops)"
| "queue_run set_data get_data q (Take n # ops) =
     bindR (get_data q (replicate n 0) (of_nat n)) (\<lambda>(q', buf, k).
     bindR (queue_run set_data get_data q' ops) (\<lambda>(q'', out). Inr (q'', take (unat k) buf @ out)))"

fun small_ops :: "voice_op list \<Rightarrow> bool" where
  "small_ops [] = True"
| "small_ops (Put d # ops) = (length d < 65536 \<and> small_ops ops)"
| "small_ops (Take n # ops) = (n < 65536 \<and> small_ops ops)"

section \<open>The contract of a voice queue\<close>

text \<open>
  What the packet handler and the player rely on, over the list of bytes in the queue:
  \<open>set\<close> appends what fits and reports the full size unless the queue was full to begin
  with, \<open>get\<close> takes from the front.
\<close>

locale voice_queue =
  fixes set_data :: "'q \<Rightarrow> byte list \<Rightarrow> int \<Rightarrow> ('q \<times> u16) res"
    and get_data :: "'q \<Rightarrow> byte list \<Rightarrow> u32 \<Rightarrow> ('q \<times> byte list \<times> u16) res"
    and contents :: "'q \<Rightarrow> byte list"
    and capacity :: "'q \<Rightarrow> nat"
    and valid :: "'q \<Rightarrow> bool"
  assumes bounded: "valid q \<Longrightarrow> length (contents q) \<le> capacity q"
    and set_data: "valid q \<Longrightarrow> n \<le> length buf \<Longrightarrow> n < 65536 \<Longrightarrow>
      \<exists>q'. set_data q buf (int n) = Inr (q', if length (contents q) < capacity q then of_nat n else 0)
        \<and> valid q' \<and> capacity q' = capacity q
        \<and> contents q' = take (capacity q) (contents q @ take n buf)"
    and get_data: "valid q \<Longrightarrow> n \<le> length buf \<Longrightarrow> n < 65536 \<Longrightarrow>
      \<exists>q'. get_data q buf (of_nat n) =
          Inr (q', take n (contents q) @ drop (min n (length (contents q))) buf,
               of_nat (min n (length (contents q))))
        \<and> valid q' \<and> capacity q' = capacity q \<and> contents q' = drop n (contents q)"
begin

text \<open>What goes in comes out, in order, as long as it fits.\<close>

lemma set_then_get:
  assumes "valid q" "length data < 65536" "length (contents q) + length data \<le> capacity q"
    and "n \<le> length buf" "n < 65536"
  shows "\<exists>q1 r q2 k. set_data q data (int (length data)) = Inr (q1, r)
    \<and> get_data q1 buf (of_nat n) =
        Inr (q2, take n (contents q @ data) @ drop (min n (length (contents q @ data))) buf, k)
    \<and> contents q2 = drop n (contents q @ data) \<and> valid q2"
proof -
  obtain q1 r where q1: "set_data q data (int (length data)) = Inr (q1, r)" "valid q1"
    "contents q1 = take (capacity q) (contents q @ data)"
    using set_data [OF assms(1) le_refl assms(2)] by auto
  have c: "contents q1 = contents q @ data" using q1(3) assms(3) by simp
  show ?thesis
    using get_data [OF q1(2) assms(4,5)] q1(1) unfolding c by auto
qed

lemma dropped_subseq:
  assumes "subseq (out @ c) (take k (xs @ d) @ ps)"
  shows "subseq (out @ c) (xs @ d @ ps)"
proof -
  have "subseq (take k (xs @ d)) (xs @ d)" by (metis append_take_drop_id list_emb_prefix subseq_order.refl)
  then have "subseq (take k (xs @ d) @ ps) ((xs @ d) @ ps)" by (rule list_emb_append_mono) simp
  then show ?thesis using assms subseq_order.order_trans by fastforce
qed

text \<open>One write, and one read, at the head of a sequence.\<close>

lemma put_step:
  assumes "valid q" "length d < 65536"
  shows "\<exists>q1. queue_run set_data get_data q (Put d # ops) = queue_run set_data get_data q1 ops
    \<and> valid q1 \<and> capacity q1 = capacity q \<and> contents q1 = take (capacity q) (contents q @ d)"
  using set_data [OF assms(1) le_refl assms(2)] by auto

lemma take_step:
  assumes "valid q" "n < 65536"
  shows "\<exists>q1. queue_run set_data get_data q (Take n # ops) =
      bindR (queue_run set_data get_data q1 ops) (\<lambda>(q', out). Inr (q', take n (contents q) @ out))
    \<and> valid q1 \<and> capacity q1 = capacity q \<and> contents q1 = drop n (contents q)"
proof -
  let ?m = "min n (length (contents q))"
  obtain q1 where q1: "get_data q (replicate n 0) (of_nat n) =
      Inr (q1, take n (contents q) @ drop ?m (replicate n 0), of_nat ?m)" "valid q1"
    "capacity q1 = capacity q" "contents q1 = drop n (contents q)"
    using get_data [OF assms(1) _ assms(2), of "replicate n 0"] by auto
  have "unat (of_nat ?m :: u16) = ?m" by (rule unat_u16) (use assms(2) in simp)
  then have t: "take (unat (of_nat ?m :: u16)) (take n (contents q) @ drop ?m (replicate n 0))
      = take n (contents q)" by (simp add: min_def)
  have "queue_run set_data get_data q (Take n # ops) =
      bindR (queue_run set_data get_data q1 ops) (\<lambda>(q', out). Inr (q', take n (contents q) @ out))"
    unfolding queue_run.simps q1(1) bindR_Inr prod.case t ..
  then show ?thesis using q1(2-4) by blast
qed

text \<open>
  Whatever the order of reads and writes, every run succeeds and the reader gets a
  subsequence of the written bytes, in order: bytes are dropped when the queue is full, but
  never repeated, reordered or made up.  Nothing is dropped when everything fits.
\<close>

lemma run_delivers:
  assumes "valid q" "small_ops ops"
  shows "\<exists>q' out. queue_run set_data get_data q ops = Inr (q', out) \<and> valid q'
    \<and> subseq (out @ contents q') (contents q @ puts ops)
    \<and> (length (contents q) + length (puts ops) \<le> capacity q
        \<longrightarrow> out @ contents q' = contents q @ puts ops)"
  using assms
proof (induction ops arbitrary: q)
  case (Cons oper ops)
  show ?case
  proof (cases oper)
    case (Put d)
    with Cons.prems have d: "length d < 65536" "small_ops ops" by auto
    obtain q1 where q1: "queue_run set_data get_data q (oper # ops) = queue_run set_data get_data q1 ops" "valid q1"
      "capacity q1 = capacity q" "contents q1 = take (capacity q) (contents q @ d)"
      using put_step [OF Cons.prems(1) d(1)] Put by blast
    obtain q' out where IH: "queue_run set_data get_data q1 ops = Inr (q', out)" "valid q'"
      "subseq (out @ contents q') (contents q1 @ puts ops)"
      "length (contents q1) + length (puts ops) \<le> capacity q1 \<longrightarrow> out @ contents q' = contents q1 @ puts ops"
      using Cons.IH [OF q1(2) d(2)] by blast
    have "subseq (out @ contents q') (contents q @ d @ puts ops)"
      using IH(3) dropped_subseq unfolding q1(4) by blast
    then show ?thesis using IH q1 Put by (auto simp: q1(1))
  next
    case (Take n)
    with Cons.prems have n: "n < 65536" "small_ops ops" by auto
    obtain q1 where q1: "queue_run set_data get_data q (oper # ops) =
        bindR (queue_run set_data get_data q1 ops) (\<lambda>(q', out). Inr (q', take n (contents q) @ out))" "valid q1"
      "capacity q1 = capacity q" "contents q1 = drop n (contents q)"
      using take_step [OF Cons.prems(1) n(1)] Take by blast
    obtain q' out where IH: "queue_run set_data get_data q1 ops = Inr (q', out)" "valid q'"
      "subseq (out @ contents q') (contents q1 @ puts ops)"
      "length (contents q1) + length (puts ops) \<le> capacity q1 \<longrightarrow> out @ contents q' = contents q1 @ puts ops"
      using Cons.IH [OF q1(2) n(2)] by blast
    have c: "contents q @ puts (oper # ops) = take n (contents q) @ contents q1 @ puts ops"
      unfolding q1(4) by (simp add: Take)
    have "subseq ((take n (contents q) @ out) @ contents q') (contents q @ puts (oper # ops))"
      unfolding c append_assoc by (rule list_emb_append_mono [OF subseq_order.refl IH(3)])
    moreover have "(take n (contents q) @ out) @ contents q' = contents q @ puts (oper # ops)"
      if "length (contents q) + length (puts (oper # ops)) \<le> capacity q"
      unfolding c using IH(4) that q1(3,4) Take by simp
    ultimately show ?thesis using IH(1,2) q1(1) by simp
  qed
qed simp

end

section \<open>The documented behaviour of kfifo\<close>

locale kfifo_contract =
  fixes api :: "'q kfifo_api"
    and contents :: "'q \<Rightarrow> byte list"
    and capacity :: "'q \<Rightarrow> nat"
    and valid :: "'q \<Rightarrow> bool"
  assumes len: "valid q \<Longrightarrow> length (contents q) \<le> capacity q"
    and alloc: "kfifo_alloc api 8192 = Some q \<Longrightarrow>
      valid q \<and> contents q = [] \<and> capacity q = 8192"
    and put: "valid q \<Longrightarrow> kfifo_put api q x = (q', ok) \<Longrightarrow>
      valid q' \<and> capacity q' = capacity q \<and> (ok \<longleftrightarrow> length (contents q) < capacity q)
      \<and> contents q' = take (capacity q) (contents q @ [x])"
    and get_empty: "valid q \<Longrightarrow> contents q = [] \<Longrightarrow> kfifo_get api q = None"
    and get: "valid q \<Longrightarrow> contents q = x # xs \<Longrightarrow>
      \<exists>q'. kfifo_get api q = Some (q', x) \<and> valid q' \<and> capacity q' = capacity q \<and> contents q' = xs"
    and full: "valid q \<Longrightarrow> kfifo_is_full api q \<longleftrightarrow> length (contents q) = capacity q"
    and empty: "valid q \<Longrightarrow> kfifo_is_empty api q \<longleftrightarrow> contents q = []"
begin

lemma set_loop_run:
  assumes "valid q" "n \<le> length buf" "n < 65536" "i \<le> n"
  shows "\<exists>q'. set_loop api buf (int n) (of_nat i) q = Some (Inr (q', of_nat n))
    \<and> valid q' \<and> capacity q' = capacity q
    \<and> contents q' = take (capacity q) (contents q @ take (n - i) (drop i buf))"
  using assms
proof (induction "n - i" arbitrary: i q)
  case 0
  then have "i = n" by simp
  with 0 len [OF 0(2)] show ?case
    by (subst set_loop.simps) (simp add: take_bit_nat_eq_self unsigned_of_nat)
next
  case (Suc k)
  then have i: "i < n" "i < length buf" by auto
  obtain q1 ok where p: "kfifo_put api q (buf ! i) = (q1, ok)" by fastforce
  note q1 = put [OF Suc.prems(1) p]
  have IH: "\<exists>q'. set_loop api buf (int n) (of_nat (Suc i)) q1 = Some (Inr (q', of_nat n))
    \<and> valid q' \<and> capacity q' = capacity q1
    \<and> contents q' = take (capacity q1) (contents q1 @ take (n - Suc i) (drop (Suc i) buf))"
    using Suc.hyps(2) Suc.prems i q1 by (intro Suc.hyps(1)) auto
  have "uint (of_nat i :: u16) = int i" "unat (of_nat i :: u16) = i"
    using i Suc.prems(3) by (simp_all add: unsigned_of_nat take_bit_nat_eq_self)
  moreover have "mem_read i 1 buf = Inr [buf ! i]"
    using i Suc.prems(3) by (simp add: mem_read_def take_Suc hd_drop_conv_nth)
  ultimately have step: "set_loop api buf (int n) (of_nat i) q = set_loop api buf (int n) (of_nat (Suc i)) q1"
    using i p by (subst set_loop.simps) (simp add: add.commute)
  have "take (n - i) (drop i buf) = buf ! i # take (n - Suc i) (drop (Suc i) buf)"
    using i by (simp add: Cons_nth_drop_Suc [symmetric] Suc_diff_Suc take_Suc_Cons flip: Suc_diff_Suc)
  then show ?case
    unfolding step using IH q1 by (auto simp: take_Cons' min_def)
qed

lemma get_loop_run:
  assumes "valid q" "n \<le> length buf" "n < 65536" "j \<le> n"
  shows "\<exists>q'. get_loop api (of_nat n) (of_nat j) q buf =
      Some (Inr (q', take j buf @ take (n - j) (contents q) @ drop (j + min (n - j) (length (contents q))) buf,
                 of_nat (j + min (n - j) (length (contents q)))))
    \<and> valid q' \<and> capacity q' = capacity q \<and> contents q' = drop (n - j) (contents q)"
  using assms
proof (induction "n - j" arbitrary: j q buf)
  case 0
  then have "j = n" by simp
  with 0 show ?case
    by (subst get_loop.simps) (simp add: unsigned_of_nat take_bit_nat_eq_self unsigned_ucast_eq)
next
  case (Suc k)
  then have j: "j < n" by simp
  have u: "unat (of_nat j :: u16) = j"
    using j Suc.prems(3) by (intro unat_u16) simp
  have "unat (of_nat n :: u32) = n" using Suc.prems(3) by (intro unat_u32) simp
  moreover have "unat (ucast (of_nat j :: u16) :: u32) = j"
    using u j Suc.prems(3) take_bit_nat_eq_self [of j 32] by (simp add: unsigned_ucast_eq)
  ultimately have ne: "(ucast (of_nat j :: u16) :: u32) \<noteq> of_nat n"
    using j by (metis less_irrefl)
  show ?case
  proof (cases "contents q")
    case Nil
    then show ?thesis
      using Suc.prems ne get_empty [OF Suc.prems(1) Nil] by (subst get_loop.simps) simp
  next
    case (Cons x xs)
    from get [OF Suc.prems(1) Cons] obtain q1 where q1: "kfifo_get api q = Some (q1, x)"
      "valid q1" "capacity q1 = capacity q" "contents q1 = xs" by blast
    define buf1 where "buf1 = take j buf @ [x] @ drop (Suc j) buf"
    have l: "length buf1 = length buf" using j Suc.prems by (simp add: buf1_def)
    have w: "mem_write j [x] buf = Inr buf1"
      using j Suc.prems by (simp add: mem_write_def buf1_def)
    have step: "get_loop api (of_nat n) (of_nat j) q buf = get_loop api (of_nat n) (of_nat (Suc j)) q1 buf1"
      using ne q1(1) w u by (subst get_loop.simps) (simp add: add.commute)
    have IH: "\<exists>q'. get_loop api (of_nat n) (of_nat (Suc j)) q1 buf1 =
      Some (Inr (q', take (Suc j) buf1 @ take (n - Suc j) xs @ drop (Suc j + min (n - Suc j) (length xs)) buf1,
                 of_nat (Suc j + min (n - Suc j) (length xs))))
      \<and> valid q' \<and> capacity q' = capacity q1 \<and> contents q' = drop (n - Suc j) xs"
      using Suc.hyps(2) Suc.prems j l q1 Suc.hyps(1) [of "Suc j" q1 buf1] by auto
    have b: "take (Suc j) buf1 = take j buf @ [x]" "drop (Suc j + m) buf1 = drop (Suc j + m) buf" for m
      using j Suc.prems by (auto simp: buf1_def add.commute)
    have nj: "n - j = Suc (n - Suc j)" using j by simp
    show ?thesis
      unfolding step Cons using IH unfolding b q1(3) nj by (simp add: min_Suc_Suc)
  qed
qed

text \<open>The two stream operations of the driver are a voice queue.\<close>

lemma voice_set:
  assumes "valid q" "n \<le> length buf" "n < 65536"
  shows "\<exists>q'. voice_buf_set_data_in_rtp_stream1 api q buf (int n) =
      Inr (q', if length (contents q) < capacity q then of_nat n else 0)
    \<and> valid q' \<and> capacity q' = capacity q
    \<and> contents q' = take (capacity q) (contents q @ take n buf)"
proof (cases "length (contents q) < capacity q")
  case True
  then have "\<not> kfifo_is_full api q" using full [OF assms(1)] by simp
  then show ?thesis
    using True set_loop_run [OF assms, of 0]
    by (auto simp: voice_buf_set_data_in_rtp_stream1_def)
next
  case False
  then have "length (contents q) = capacity q" using len [OF assms(1)] by simp
  then show ?thesis
    using full [OF assms(1)] assms(1) by (simp add: voice_buf_set_data_in_rtp_stream1_def)
qed

lemma voice_get:
  assumes "valid q" "n \<le> length buf" "n < 65536"
  shows "\<exists>q'. voice_buf_get_data_in_rtp_stream1 api q buf (of_nat n) =
      Inr (q', take n (contents q) @ drop (min n (length (contents q))) buf,
           of_nat (min n (length (contents q))))
    \<and> valid q' \<and> capacity q' = capacity q \<and> contents q' = drop n (contents q)"
proof (cases "contents q = []")
  case True
  then show ?thesis
    using empty [OF assms(1)] assms(1) by (simp add: voice_buf_get_data_in_rtp_stream1_def)
next
  case False
  then show ?thesis
    using empty [OF assms(1)] get_loop_run [OF assms, of 0]
    by (auto simp: voice_buf_get_data_in_rtp_stream1_def)
qed

end

sublocale kfifo_contract \<subseteq> voice: voice_queue
  "voice_buf_set_data_in_rtp_stream1 api" "voice_buf_get_data_in_rtp_stream1 api"
  contents capacity valid
proof unfold_locales
  show "valid q \<Longrightarrow> length (contents q) \<le> capacity q" for q by (rule len)
qed (rule voice_set voice_get, assumption+)+

context kfifo_contract begin

lemmas voice_run = voice.run_delivers
lemmas voice_set_then_get = voice.set_then_get

end

section \<open>A reference instance\<close>

text \<open>
  A list with a capacity behaves as the documentation of \<open>kfifo\<close> says: the contract can be
  met, and concrete runs can be evaluated on it.
\<close>

definition list_kfifo :: "(byte list \<times> nat) kfifo_api" where
  "list_kfifo =
     \<lparr>kfifo_alloc = (\<lambda>n. Some ([], n)),
      kfifo_put = (\<lambda>(xs, c) x. if length xs < c then ((xs @ [x], c), True) else ((xs, c), False)),
      kfifo_get = (\<lambda>(xs, c). case xs of [] \<Rightarrow> None | x # ys \<Rightarrow> Some ((ys, c), x)),
      kfifo_is_full = (\<lambda>(xs, c). c \<le> length xs),
      kfifo_is_empty = (\<lambda>(xs, c). xs = [])\<rparr>"

definition list_kfifo_valid :: "byte list \<times> nat \<Rightarrow> bool" where
  "list_kfifo_valid q \<longleftrightarrow> length (fst q) \<le> snd q"

interpretation list_fifo: kfifo_contract list_kfifo fst snd list_kfifo_valid
  by unfold_locales
    (auto simp: list_kfifo_def list_kfifo_valid_def split: if_splits prod.splits list.splits)

lemma set_loop_size:
  assumes "set_loop api buf sz i q = Some (Inr (q', k))"
  shows "uint k = sz"
proof -
  have "\<forall>q' k. r = Inr (q', k) \<longrightarrow> uint k = sz"
    if "set_loop api buf sz i q = Some r" for r
  proof (rule set_loop.raw_induct
      [where P = "\<lambda>api buf sz i q r. \<forall>q' k. r = Inr (q', k) \<longrightarrow> uint k = sz", OF _ that])
    fix loop :: "'a kfifo_api \<Rightarrow> byte list \<Rightarrow> int \<Rightarrow> u16 \<Rightarrow> 'a \<Rightarrow> ('a \<times> u16) res option"
      and api buf sz i q r
    assume IH: "\<And>api buf sz i q r. loop api buf sz i q = Some r \<Longrightarrow>
        \<forall>q' k. r = Inr (q', k) \<longrightarrow> uint k = sz"
      and step: "(if uint i \<noteq> sz then
        case mem_read (unat i) 1 buf of
          Inl e \<Rightarrow> Some (Inl e)
        | Inr v \<Rightarrow> loop api buf sz (i + 1) (fst (kfifo_put api q (hd v)))
      else Some (Inr (q, i))) = Some r"
    show "\<forall>q' k. r = Inr (q', k) \<longrightarrow> uint k = sz"
    proof (cases "uint i = sz")
      case True
      with step show ?thesis by auto
    next
      case False
      then show ?thesis using step IH by (auto split: sum.splits)
    qed
  qed
  with assms show ?thesis by blast
qed

section \<open>Properties of the voice FIFO\<close>

text \<open>
  C7: on any kfifo that behaves as documented, every interleaving of packet writes and block
  reads succeeds and delivers, in order, a subsequence of the bytes written; nothing is lost
  if what is written fits the capacity.
\<close>

theorem voice_fifo_delivers_in_order:
  assumes "kfifo_contract api contents capacity valid" "valid q" "small_ops ops"
  shows "\<exists>q' out. queue_run (voice_buf_set_data_in_rtp_stream1 api)
        (voice_buf_get_data_in_rtp_stream1 api) q ops = Inr (q', out) \<and> valid q'
    \<and> subseq (out @ contents q') (contents q @ puts ops)
    \<and> (length (contents q) + length (puts ops) \<le> capacity q
        \<longrightarrow> out @ contents q' = contents q @ puts ops)"
  by (rule kfifo_contract.voice_run [OF assms])

theorem voice_fifo_delivers_in_order_witness:
  "\<exists>q' out. queue_run (voice_buf_set_data_in_rtp_stream1 list_kfifo)
        (voice_buf_get_data_in_rtp_stream1 list_kfifo) ([], 2)
        [Put [1, 2, 3], Take 1, Put [4]] = Inr (q', out)
    \<and> subseq (out @ fst q') [1, 2, 3, 4]"
  using voice_fifo_delivers_in_order [OF list_fifo.kfifo_contract_axioms,
      of "([], 2)" "[Put [1, 2, 3], Take 1, Put [4]]"]
  by (auto simp: list_kfifo_valid_def)

text \<open>
  A write to a queue that is not full appends the bytes that fit, drops the rest and
  returns the full size all the same: the caller cannot tell that voice data was lost.  Only
  a queue that is already full makes it return 0.
\<close>

lemma voice_set_effect:
  assumes "kfifo_contract api contents capacity valid" "valid q"
    and "n \<le> length buf" "n < 65536"
  shows "\<exists>q'. voice_buf_set_data_in_rtp_stream1 api q buf (int n) =
      Inr (q', if length (contents q) < capacity q then of_nat n else 0)
    \<and> contents q' = contents q @ take (min n (capacity q - length (contents q))) buf"
proof -
  have "length (contents q) \<le> capacity q"
    by (rule kfifo_contract.len [OF assms(1,2)])
  then show ?thesis
    using kfifo_contract.voice_set [OF assms] by (auto simp: min.commute)
qed

lemma voice_set_effect_witness:
  "\<exists>q'. voice_buf_set_data_in_rtp_stream1 list_kfifo ([5], 2) [6, 7, 8] 3 = Inr (q', 3)
    \<and> fst q' = [5, 6]"
  using voice_set_effect [OF list_fifo.kfifo_contract_axioms, of "([5], 2)" 3 "[6, 7, 8]"]
  by (auto simp: list_kfifo_valid_def)

text \<open>
  The write loop counts in 16 bits but compares with an \<open>int\<close>: for a size that is
  negative or above 65535 it never returns normally (it leaves the source buffer or runs for
  ever), unless the queue was full.
\<close>

lemma voice_set_size_guard:
  assumes "\<not> kfifo_is_full api q" "sz < 0 \<or> 65535 < sz"
  shows "voice_buf_set_data_in_rtp_stream1 api q buf sz \<noteq> Inr r"
proof
  assume "voice_buf_set_data_in_rtp_stream1 api q buf sz = Inr r"
  then have "set_loop api buf sz 0 q = Some (Inr (fst r, snd r))"
    using assms(1)
    by (auto simp: voice_buf_set_data_in_rtp_stream1_def of_loop_def split: option.splits)
  then have "uint (snd r) = sz" by (rule set_loop_size)
  then show False using assms(2) uint_bounded [of "snd r"] by auto
qed

lemma voice_set_size_guard_witness:
  "voice_buf_set_data_in_rtp_stream1 list_kfifo ([], 8192) [1, 2] (- 1) \<noteq> Inr (([], 0), 0)"
  using voice_set_size_guard [of list_kfifo "([], 8192)" "- 1"] by (simp add: list_kfifo_def)

end
