(* ===== verification/Rtp_Handler.thy ===== *)
theory Rtp_Handler
  imports Codec Voice_Fifo
begin

text \<open>
  The RTP packet handler of \<open>drv/linux/Ab_arm_itdmdrv.c\<close>: it takes a whole Ethernet frame,
  cuts the payload out behind 14 + 20 + 8 + 12 bytes of headers, decodes it when it is
  G.711 u-law, and writes the samples into the voice FIFO.
\<close>

section \<open>State and local arrays\<close>

record 'q voice_state =
  codec :: codec_state
  fifo :: "'q option"        \<comment> \<open>\<open>None\<close>: no FIFO is allocated\<close>

text \<open>
  A \<open>memcpy\<close> to the start of a local array of \<open>n\<close> elements: out of bounds when it is longer.
  The result is the initialised part of the array, so reading on behind what was copied in is
  out of bounds, too.
\<close>

definition local_array :: "nat \<Rightarrow> 'a list \<Rightarrow> 'a list res" where
  "local_array n v = (if length v \<le> n then Inr v else Inl OutOfBounds)"

text \<open>\<open>memcpy\<close> from a pointer that may be null: nothing is accessed when the size is 0.\<close>

definition copy_from :: "byte list option \<Rightarrow> nat \<Rightarrow> byte list res" where
  "copy_from p n =
     (case p of None \<Rightarrow> if n = 0 then Inr [] else Inl NullPointer
      | Some b \<Rightarrow> mem_read 0 n b)"

definition PAYLOAD_TYPE_PCMU :: u16 where "PAYLOAD_TYPE_PCMU = 0"
definition PAYLOAD_TYPE_DynamicRTP_Type96 :: u16 where "PAYLOAD_TYPE_DynamicRTP_Type96 = 96"

section \<open>The handler\<close>

definition store_voice ::
  "'q kfifo_api \<Rightarrow> byte list \<Rightarrow> u16 \<Rightarrow> 'q voice_state \<Rightarrow> 'q voice_state res" where
  "store_voice api buf sz st =
     (case fifo st of
        None \<Rightarrow> Inl NullPointer
      | Some q \<Rightarrow> bindR (voice_buf_set_data_in_rtp_stream1 api q buf (uint sz))
                    (\<lambda>(q', r). Inr (st\<lparr>fifo := Some q'\<rparr>)))"

definition get_rtp_prepare_packet_handler ::
  "'q kfifo_api \<Rightarrow> byte list \<Rightarrow> int \<Rightarrow> 'q voice_state \<Rightarrow> ('q voice_state \<times> int) res" where
  "get_rtp_prepare_packet_handler api packet packet_len st =
     (let rtp_payload_size = word_of_int (packet_len - 14 - 20 - 8 - 12) :: u16
      in bindR (mem_read 43 1 packet) (\<lambda>t.
         let rtp_payload_type = ucast (hd t) :: u16
         in if rtp_payload_type = PAYLOAD_TYPE_PCMU then
              let decode_pcm_payload_size = rtp_payload_size * 2
              in bindR (mem_read (14 + 20 + 8 + 12) (unat rtp_payload_size) packet) (\<lambda>payload.
                 bindR (local_array 1514 payload) (\<lambda>data_packet_array.
                 bindR (g711_ulaw_decoder rtp_payload_size data_packet_array (codec st)) (\<lambda>(cs, out).
                 bindR (copy_from out (unat decode_pcm_payload_size)) (\<lambda>pcm.
                 bindR (local_array 2920 pcm) (\<lambda>out_pcm_array.
                 bindR (store_voice api out_pcm_array decode_pcm_payload_size (st\<lparr>codec := cs\<rparr>)) (\<lambda>st'.
                 Inr (st', 1)))))))
            else if rtp_payload_type = PAYLOAD_TYPE_DynamicRTP_Type96 then
              bindR (mem_read (14 + 20 + 8 + 12) (unat rtp_payload_size) packet) (\<lambda>payload.
              bindR (local_array 1514 payload) (\<lambda>data_packet_array.
              bindR (store_voice api data_packet_array rtp_payload_size st) (\<lambda>st'.
              Inr (st', 1))))
            else Inr (st, 1)))"

lemmas payload_types = PAYLOAD_TYPE_PCMU_def PAYLOAD_TYPE_DynamicRTP_Type96_def

section \<open>What the handler does to the queue\<close>

definition voice_ready ::
  "('q \<Rightarrow> bool) \<Rightarrow> 'q voice_state \<Rightarrow> bool" where
  "voice_ready valid st \<longleftrightarrow>
     (\<exists>b. output_pcm_buf (codec st) = Some b \<and> length b = 4380)
     \<and> (\<exists>q. fifo st = Some q \<and> valid q)"

text \<open>The samples a frame carries: decoded u-law, raw 16-bit samples, or nothing.\<close>

definition frame_samples :: "byte list \<Rightarrow> byte list" where
  "frame_samples packet =
     (if packet ! 43 = 0 then pcm_bytes (drop 54 packet)
      else if packet ! 43 = 96 then drop 54 packet
      else [])"

text \<open>The longest frame whose samples fit the local arrays.\<close>

definition frame_ok :: "byte list \<Rightarrow> bool" where
  "frame_ok packet \<longleftrightarrow> 44 \<le> length packet \<and>
     (packet ! 43 = 0 \<longrightarrow> 54 \<le> length packet \<and> length packet \<le> 1514) \<and>
     (packet ! 43 = 96 \<longrightarrow> 54 \<le> length packet \<and> length packet \<le> 1568)"

lemma read_type: "44 \<le> length packet \<Longrightarrow> mem_read 43 (Suc 0) packet = Inr [packet ! 43]"
  by (simp add: mem_read_def take_Suc hd_drop_conv_nth)

lemma unat_byte_u16: "unat (ucast (x :: byte) :: u16) = unat x"
proof -
  have "unat x < 256" using unsigned_less [of x, where 'a = nat] by simp
  then have "take_bit 16 (unat x) = unat x" by (intro take_bit_nat_eq_self) simp
  then show ?thesis by (simp add: unsigned_ucast_eq)
qed

lemma ucast_type [simp]:
  "(ucast (x :: byte) :: u16) = 0 \<longleftrightarrow> x = 0" "(ucast (x :: byte) :: u16) = 96 \<longleftrightarrow> x = 96"
proof -
  have i: "(ucast x :: u16) = ucast y \<Longrightarrow> x = y" for y :: byte
    by (rule unsigned_word_eqI [where 'a = nat]) (metis unat_byte_u16)
  show "(ucast x :: u16) = 0 \<longleftrightarrow> x = 0" using i [of 0] by auto
  show "(ucast x :: u16) = 96 \<longleftrightarrow> x = 96" using i [of 96] by auto
qed

lemma unat_of_int16: "unat (word_of_int k :: u16) = nat (k mod 65536)"
proof -
  have "uint (word_of_int k :: u16) = k mod 65536"
    by (simp add: uint_word_of_int take_bit_eq_mod)
  then show ?thesis by (metis nat_uint_eq)
qed

lemma unat_payload_size:
  assumes "54 \<le> n" "n < 65536"
  shows "unat (word_of_int (int n - 54) :: u16) = n - 54"
  unfolding unat_of_int16 using assms by (simp add: nat_diff_distrib)

lemma unat_payload_size_short:
  assumes "n < 54"
  shows "unat (word_of_int (int n - 54) :: u16) = 65482 + n"
proof -
  have "(int n - 54) mod 65536 = (int n - 54 + 65536) mod 65536"
    by (simp only: mod_add_self2)
  also have "\<dots> = int n + 65482" using assms by (subst mod_pos_pos_trivial) auto
  finally show ?thesis unfolding unat_of_int16 by simp
qed

lemma handler_pcmu:
  assumes n: "54 \<le> length packet" "length packet \<le> 1514" and t: "packet ! 43 = 0"
    and b: "output_pcm_buf (codec st) = Some b" "length b = 4380"
  shows "\<exists>b'. length b' = 4380 \<and> get_rtp_prepare_packet_handler api packet (int (length packet)) st =
    bindR (store_voice api (pcm_bytes (drop 54 packet)) (of_nat (2 * (length packet - 54)))
        (st\<lparr>codec := codec st\<lparr>output_pcm_buf := Some b'\<rparr>\<rparr>)) (\<lambda>st'. Inr (st', 1))"
proof -
  define k where "k = length packet - 54"
  define w :: u16 where "w = word_of_int (int (length packet) - 54)"
  define pl where "pl = drop 54 packet"
  have k: "k \<le> 1460" "length pl = k" using n by (auto simp: k_def pl_def)
  have w: "unat w = k" unfolding w_def k_def using n by (intro unat_payload_size) auto
  have w2: "w * 2 = of_nat (2 * k)" by (simp flip: w)
  have u2: "unat (w * 2) = 2 * k"
    unfolding w2 using k by (simp add: unsigned_of_nat take_bit_nat_eq_self del: of_nat_mult)
  have r: "mem_read 54 k packet = Inr pl"
    using n by (simp add: mem_read_def k_def pl_def)
  have "\<exists>b' out. length b' = 4380 \<and>
      g711_ulaw_decoder w pl (codec st) = Inr (codec st\<lparr>output_pcm_buf := Some b'\<rparr>, out) \<and>
      copy_from out (2 * k) = Inr (pcm_bytes pl)"
  proof (cases "k = 0")
    case True
    then have "w = 0" using w by (simp add: unat_eq_0)
    moreover have "codec st\<lparr>output_pcm_buf := Some b\<rparr> = codec st" using b(1) by (cases "codec st") simp
    ultimately show ?thesis
      using True k b by (intro exI [of _ b] exI [of _ None])
        (simp add: g711_decoder_zero copy_from_def pcm_bytes_def)
  next
    case False
    let ?b = "pcm_bytes pl @ drop (2 * k) b"
    have "g711_ulaw_decoder w pl (codec st) = Inr (codec st\<lparr>output_pcm_buf := Some ?b\<rparr>, Some ?b)"
      using g711_decoder_run [OF b(1), of w pl] w k b(2) False by (simp add: Let_def)
    moreover have "copy_from (Some ?b) (2 * k) = Inr (pcm_bytes pl)"
      using k by (simp add: copy_from_def mem_read_def)
    ultimately show ?thesis using k b(2) by (intro exI [of _ ?b] exI [of _ "Some ?b"]) simp
  qed
  then obtain b' out where "length b' = 4380"
    "g711_ulaw_decoder w pl (codec st) = Inr (codec st\<lparr>output_pcm_buf := Some b'\<rparr>, out)"
    "copy_from out (2 * k) = Inr (pcm_bytes pl)" by blast
  moreover have "mem_read 43 (Suc 0) packet = Inr [packet ! 43]" using n by (intro read_type) simp
  moreover have "of_nat (length packet) - 54 = w" by (simp add: w_def)
  moreover have "of_nat (2 * (length packet - 54)) = w * 2" unfolding w2 k_def ..
  ultimately show ?thesis
    using k r w u2 t
    by (intro exI [of _ b'])
      (simp add: get_rtp_prepare_packet_handler_def local_array_def payload_types Let_def
        flip: pl_def)
qed

lemma handler_raw:
  assumes n: "54 \<le> length packet" "length packet \<le> 1568" and t: "packet ! 43 = 96"
  shows "get_rtp_prepare_packet_handler api packet (int (length packet)) st =
    bindR (store_voice api (drop 54 packet) (of_nat (length packet - 54)) st) (\<lambda>st'. Inr (st', 1))"
proof -
  define k where "k = length packet - 54"
  define w :: u16 where "w = word_of_int (int (length packet) - 54)"
  have w: "unat w = k" unfolding w_def k_def using n by (intro unat_payload_size) auto
  have wk: "w = of_nat k" by (simp flip: w)
  have r: "mem_read 54 k packet = Inr (drop 54 packet)"
    using n by (simp add: mem_read_def k_def)
  have "k \<le> 1514" using n by (simp add: k_def)
  have w': "of_nat (length packet) - 54 = w" by (simp add: w_def)
  have "mem_read 43 (Suc 0) packet = Inr [packet ! 43]" using n by (intro read_type) simp
  then show ?thesis
    using r w t n \<open>k \<le> 1514\<close>
    by (simp add: get_rtp_prepare_packet_handler_def local_array_def payload_types Let_def w'
        flip: k_def wk)
qed

lemma handler_other:
  assumes "44 \<le> length packet" "packet ! 43 \<noteq> 0" "packet ! 43 \<noteq> 96"
  shows "get_rtp_prepare_packet_handler api packet len st = Inr (st, 1)"
  using assms by (simp add: get_rtp_prepare_packet_handler_def read_type payload_types Let_def)

context kfifo_contract begin

lemma store_voice_ok:
  assumes "fifo st = Some q" "valid q" "length buf < 65536"
  shows "\<exists>q'. store_voice api buf (of_nat (length buf)) st = Inr (st\<lparr>fifo := Some q'\<rparr>)
    \<and> valid q' \<and> capacity q' = capacity q \<and> contents q' = take (capacity q) (contents q @ buf)"
proof -
  have "uint (of_nat (length buf) :: u16) = int (length buf)"
    using assms(3) by (simp add: unsigned_of_nat take_bit_nat_eq_self)
  then show ?thesis
    using voice_set [OF assms(2) le_refl assms(3)] assms(1) by (auto simp: store_voice_def)
qed

lemma handler_queues:
  assumes ready: "voice_ready valid st" and q: "fifo st = Some q" and ok: "frame_ok packet"
  shows "\<exists>st' q'. get_rtp_prepare_packet_handler api packet (int (length packet)) st = Inr (st', 1)
    \<and> voice_ready valid st' \<and> fifo st' = Some q' \<and> capacity q' = capacity q
    \<and> contents q' = take (capacity q) (contents q @ frame_samples packet)"
proof -
  from ready q obtain b where b: "output_pcm_buf (codec st) = Some b" "length b = 4380"
    and v: "valid q" by (auto simp: voice_ready_def)
  consider (pcmu) "packet ! 43 = 0" | (raw) "packet ! 43 = 96"
    | (other) "packet ! 43 \<noteq> 0" "packet ! 43 \<noteq> 96" by blast
  then show ?thesis
  proof cases
    case pcmu
    with ok have n: "54 \<le> length packet" "length packet \<le> 1514" by (auto simp: frame_ok_def)
    let ?d = "pcm_bytes (drop 54 packet)"
    have l: "length ?d = 2 * (length packet - 54)" by simp
    obtain b' where b': "length b' = 4380"
      "get_rtp_prepare_packet_handler api packet (int (length packet)) st =
        bindR (store_voice api ?d (of_nat (length ?d))
          (st\<lparr>codec := codec st\<lparr>output_pcm_buf := Some b'\<rparr>\<rparr>)) (\<lambda>st'. Inr (st', 1))"
      using handler_pcmu [OF n pcmu b] unfolding l by blast
    let ?st1 = "st\<lparr>codec := codec st\<lparr>output_pcm_buf := Some b'\<rparr>\<rparr>"
    have f: "fifo ?st1 = Some q" and d: "length ?d < 65536" using q n by simp_all
    obtain q' where s: "store_voice api ?d (of_nat (length ?d)) ?st1 = Inr (?st1\<lparr>fifo := Some q'\<rparr>)"
      "valid q'" "capacity q' = capacity q" "contents q' = take (capacity q) (contents q @ ?d)"
      using store_voice_ok [OF f v d] by blast
    show ?thesis
      unfolding b'(2) s(1) bindR_Inr
      using s(2-4) b'(1) by (simp add: frame_samples_def pcmu voice_ready_def)
  next
    case raw
    with ok have n: "54 \<le> length packet" "length packet \<le> 1568" by (auto simp: frame_ok_def)
    let ?d = "drop 54 packet"
    have d: "length ?d < 65536" and l: "length packet - 54 = length ?d" using n by simp_all
    obtain q' where s: "store_voice api ?d (of_nat (length ?d)) st = Inr (st\<lparr>fifo := Some q'\<rparr>)"
      "valid q'" "capacity q' = capacity q" "contents q' = take (capacity q) (contents q @ ?d)"
      using store_voice_ok [OF q v d] by blast
    show ?thesis
      unfolding handler_raw [OF n raw] l s(1) bindR_Inr
      using s(2-4) b by (simp add: frame_samples_def raw voice_ready_def)
  next
    case other
    then show ?thesis
      using ok ready q len [OF v]
      by (auto simp: handler_other frame_ok_def frame_samples_def)
  qed
qed

end

section \<open>Frames that break the handler\<close>

lemma handler_short:
  assumes "44 \<le> length packet" "length packet < 54" "packet ! 43 = 0 \<or> packet ! 43 = 96"
  shows "get_rtp_prepare_packet_handler api packet (int (length packet)) st = Inl OutOfBounds"
proof -
  define w :: u16 where "w = word_of_int (int (length packet) - 54)"
  have w': "of_nat (length packet) - 54 = w" by (simp add: w_def)
  have w: "unat w = 65482 + length packet"
    unfolding w_def using assms(2) by (rule unat_payload_size_short)
  then have "mem_read 54 (unat w) packet = Inl OutOfBounds"
    using assms(2) by (simp add: mem_read_def)
  with assms show ?thesis
    by (auto simp: get_rtp_prepare_packet_handler_def payload_types Let_def w' read_type)
qed

lemma handler_long:
  assumes n: "1514 < length packet" "length packet < 65536" and t: "packet ! 43 = 0"
    and b: "output_pcm_buf (codec st) = Some b" "length b = 4380"
  shows "get_rtp_prepare_packet_handler api packet (int (length packet)) st = Inl OutOfBounds"
proof -
  define k where "k = length packet - 54"
  define w :: u16 where "w = word_of_int (int (length packet) - 54)"
  define pl where "pl = drop 54 packet"
  have w': "of_nat (length packet) - 54 = w" by (simp add: w_def)
  have k: "1460 < k" "length pl = k" using n by (auto simp: k_def pl_def)
  have w: "unat w = k" unfolding w_def k_def using n by (intro unat_payload_size) auto
  have r: "mem_read 54 k packet = Inr pl" using n by (simp add: mem_read_def k_def pl_def)
  have t': "mem_read 43 (Suc 0) packet = Inr [0]" using n t by (simp add: read_type)
  show ?thesis
  proof (cases "k \<le> 1514")
    case False
    then show ?thesis using r t' w k
      by (simp add: get_rtp_prepare_packet_handler_def payload_types Let_def w' local_array_def)
  next
    case True
    let ?b = "pcm_bytes pl @ drop (2 * k) b"
    have u2: "unat (w * 2) = 2 * k"
      using w True by (simp add: unat_word_ariths)
    have "g711_ulaw_decoder w pl (codec st) = Inr (codec st\<lparr>output_pcm_buf := Some ?b\<rparr>, Some ?b)"
      using g711_decoder_run [OF b(1), of w pl] w k True b(2) by (simp add: Let_def)
    moreover have "copy_from (Some ?b) (2 * k) = Inr (pcm_bytes pl)"
      using k True by (simp add: copy_from_def mem_read_def)
    ultimately show ?thesis using r t' w k u2 True
      by (simp add: get_rtp_prepare_packet_handler_def payload_types Let_def w' local_array_def)
  qed
qed

section \<open>Properties of the handler\<close>

text \<open>
  C16: every frame within the handler's bounds is processed without a memory error: a u-law
  frame of 54 to 1514 bytes appends its decoded samples to the FIFO, a frame of payload type
  96 its raw payload, any other type nothing; what does not fit the FIFO is dropped, and the
  buffers stay ready for the next frame.
\<close>

theorem rtp_handler_queues_samples:
  assumes "kfifo_contract api contents capacity valid"
    and "voice_ready valid st" "fifo st = Some q" "frame_ok packet"
  shows "\<exists>st' q'. get_rtp_prepare_packet_handler api packet (int (length packet)) st = Inr (st', 1)
    \<and> voice_ready valid st' \<and> fifo st' = Some q' \<and> capacity q' = capacity q
    \<and> contents q' = take (capacity q) (contents q @ frame_samples packet)"
  by (rule kfifo_contract.handler_queues [OF assms])

definition demo_state :: "(byte list \<times> nat) voice_state" where
  "demo_state = \<lparr>codec = \<lparr>output_pcm_buf = Some (replicate 4380 0)\<rparr>, fifo = Some ([], 8192)\<rparr>"

lemma demo_ready: "voice_ready list_kfifo_valid demo_state" "fifo demo_state = Some ([], 8192)"
  by (simp_all add: voice_ready_def demo_state_def list_kfifo_valid_def)

theorem rtp_handler_queues_samples_witness:
  "\<exists>st' q'. get_rtp_prepare_packet_handler list_kfifo (replicate 54 0 @ [255, 0])
        (int (length (replicate 54 (0 :: byte) @ [255, 0]))) demo_state = Inr (st', 1)
    \<and> fifo st' = Some q' \<and> fst q' = take 8192 (pcm_bytes [255, 0])"
  using rtp_handler_queues_samples [OF list_fifo.kfifo_contract_axioms demo_ready,
      of "replicate 54 0 @ [255, 0]"]
  by (auto simp: frame_ok_def frame_samples_def nth_append)

text \<open>
  C33: the bounds are not checked by the code and they are exact for u-law: with the buffers
  ready, a frame of at least 44 bytes whose type byte is 0 is handled without a memory error
  if and only if it has 54 to 1514 bytes.  A shorter one makes the 16-bit payload size wrap
  around to more than 65000, a longer one overflows the local array for the samples.
\<close>

theorem rtp_handler_safe_iff:
  assumes "kfifo_contract api contents capacity valid" "voice_ready valid st"
    and "44 \<le> length packet" "length packet < 65536" "packet ! 43 = 0"
  shows "(\<exists>r. get_rtp_prepare_packet_handler api packet (int (length packet)) st = Inr r)
    \<longleftrightarrow> 54 \<le> length packet \<and> length packet \<le> 1514"
proof -
  obtain b q where b: "output_pcm_buf (codec st) = Some b" "length b = 4380"
    and q: "fifo st = Some q" using assms(2) by (auto simp: voice_ready_def)
  consider (short) "length packet < 54" | (long) "1514 < length packet" | (ok) "54 \<le> length packet" "length packet \<le> 1514"
    by linarith
  then show ?thesis
  proof cases
    case ok
    then have "frame_ok packet" using assms(5) by (simp add: frame_ok_def)
    then show ?thesis
      using kfifo_contract.handler_queues [OF assms(1,2) q] ok by fastforce
  next
    case short
    then show ?thesis using handler_short [OF assms(3), of api st] assms(5) by simp
  next
    case long
    then show ?thesis using handler_long [OF long assms(4,5) b, of api] by simp
  qed
qed

theorem rtp_handler_safe_iff_witness:
  "(\<exists>r. get_rtp_prepare_packet_handler list_kfifo (replicate 50 0)
        (int (length (replicate 50 (0 :: byte)))) demo_state = Inr r) = False"
  using rtp_handler_safe_iff [OF list_fifo.kfifo_contract_axioms demo_ready(1), of "replicate 50 0"]
  by simp

text \<open>
  The type byte is compared whole, although its top bit is the RTP marker: a u-law packet
  with the marker set (as the first of a talk spurt has) is ignored.
\<close>

lemma rtp_marker_ignored:
  assumes "44 \<le> length packet" "packet ! 43 = 128"
  shows "get_rtp_prepare_packet_handler api packet packet_len st = Inr (st, 1)"
  using assms by (intro handler_other) auto

lemma rtp_marker_ignored_witness:
  "get_rtp_prepare_packet_handler list_kfifo (replicate 43 0 @ [128] @ replicate 20 0) 64 demo_state
     = Inr (demo_state, 1)"
  using rtp_marker_ignored [of "replicate 43 0 @ [128] @ replicate 20 0"] by (simp add: nth_append)

end
