(* ===== verification/Net_Hook.thy ===== *)
theory Net_Hook
  imports Rtp_Handler
begin

text \<open>
  The netfilter hooks of \<open>drv/linux/Ab_arm_maindrv.c\<close>: \<open>Hook_Func\<close> sees every incoming IP
  packet before routing, takes the RTP packets of two known senders out of the stack and
  hands them to the RTP handler; \<open>Hook_Func_ARP\<close> lets every ARP frame pass.
\<close>

section \<open>Socket buffers and verdicts\<close>

text \<open>
  The parts of the kernel's \<open>struct sk_buff\<close> the hook reads.  \<open>mac_header\<close> is the memory the
  pointer of that name points to, up to the end of the buffer, and \<open>network_offset\<close> the
  distance from there to the network header.
\<close>

record skb =
  mac_len :: u16
  skb_len :: u32
  mac_header :: "byte list"
  network_offset :: nat

datatype verdict = NF_DROP | NF_ACCEPT

record 'q hook_state =
  voice :: "'q voice_state"
  rtp_count :: u32

section \<open>The hook functions\<close>

definition RTP_SOURCE_TRAFFIC_LE :: u32 where "RTP_SOURCE_TRAFFIC_LE = 0x0182A8C0"
definition SAPFIRE_IP_ADDRESS_LE :: u32 where "SAPFIRE_IP_ADDRESS_LE = 0x010318AC"
definition RTP_SOURCE_TRAFFIC_BE :: u32 where "RTP_SOURCE_TRAFFIC_BE = 0xC0A88201"
definition SITARA_cpsw0_IP_ADDR :: u32 where "SITARA_cpsw0_IP_ADDR = 0xC0A9827C"
definition SITARA_cpsw1_IP_ADDR :: u32 where "SITARA_cpsw1_IP_ADDR = 0x0A000001"
definition SAPFIRE_IP_ADDRESS_BE :: u32 where "SAPFIRE_IP_ADDRESS_BE = 0xAC180301"
definition udp_dest_port_LE :: u32 where "udp_dest_port_LE = 0x1027"
definition ETHERNET_HEADER_LEGTH :: nat where "ETHERNET_HEADER_LEGTH = 14"

text \<open>Bytes read into an integer variable of the little-endian target.\<close>

primrec le_bytes :: "byte list \<Rightarrow> u32" where
  "le_bytes [] = 0"
| "le_bytes (b # bs) = ucast b + 256 * le_bytes bs"

text \<open>The field \<open>saddr\<close> of \<open>struct iphdr\<close> at the network header.\<close>

definition ip_saddr :: "skb \<Rightarrow> u32 res" where
  "ip_saddr skb =
     bindR (mem_read (network_offset skb + 12) 4 (mac_header skb)) (\<lambda>v. Inr (le_bytes v))"

text \<open>\<open>(uint)skb->mac_len+(uint)skb->len\<close>, which the handler receives as an \<open>int\<close>.\<close>

definition frame_len :: "skb \<Rightarrow> u32" where
  "frame_len skb = ucast (mac_len skb) + skb_len skb"

text \<open>
  One of the two source filters of the hook: it returns from the hook when both the source
  address and the destination port match, and falls through to \<open>next_filter\<close> otherwise.
\<close>

definition source_filter ::
  "'q kfifo_api \<Rightarrow> u32 \<Rightarrow> skb \<Rightarrow> u32 \<Rightarrow> 'q hook_state
     \<Rightarrow> ('q hook_state \<times> verdict) res \<Rightarrow> ('q hook_state \<times> verdict) res" where
  "source_filter api addr skb saddr st next_filter =
     (if saddr = addr then
        bindR (mem_read (ETHERNET_HEADER_LEGTH + 22) 2 (mac_header skb)) (\<lambda>p.
        let my_l_dest_udp_port = le_bytes p
        in if my_l_dest_udp_port = udp_dest_port_LE then
             bindR (get_rtp_prepare_packet_handler api (mac_header skb) (sint (frame_len skb)) (voice st))
               (\<lambda>(v, r). Inr (st\<lparr>voice := v, rtp_count := rtp_count st + 1\<rparr>, NF_DROP))
           else next_filter)
      else next_filter)"

definition Hook_Func :: "'q kfifo_api \<Rightarrow> skb \<Rightarrow> 'q hook_state \<Rightarrow> ('q hook_state \<times> verdict) res" where
  "Hook_Func api skb st =
     (if frame_len skb = 42 then Inr (st, NF_DROP)
      else bindR (ip_saddr skb) (\<lambda>saddr.
        source_filter api RTP_SOURCE_TRAFFIC_LE skb saddr st
          (source_filter api SAPFIRE_IP_ADDRESS_LE skb saddr st
            (Inr (st, NF_ACCEPT)))))"

definition Hook_Func_ARP :: "skb \<Rightarrow> 'q hook_state \<Rightarrow> ('q hook_state \<times> verdict) res" where
  "Hook_Func_ARP skb st = Inr (st, NF_ACCEPT)"

lemmas hook_constants =
  RTP_SOURCE_TRAFFIC_LE_def SAPFIRE_IP_ADDRESS_LE_def udp_dest_port_LE_def ETHERNET_HEADER_LEGTH_def

section \<open>Which packets are voice\<close>

text \<open>
  The intended reading of the filter, over the bytes of the frame: from 192.168.130.1 or
  172.24.3.1, to port 10000 in the place where a UDP header without IP options has it.
\<close>

definition voice_sources :: "byte list list" where
  "voice_sources = [[192, 168, 130, 1], [172, 24, 3, 1]]"

definition is_voice :: "byte list \<Rightarrow> bool" where
  "is_voice frame \<longleftrightarrow> take 4 (drop 26 frame) \<in> set voice_sources
     \<and> take 2 (drop 36 frame) = [0x27, 0x10]"

text \<open>An Ethernet frame as the stack hands it to the hook.\<close>

definition skb_ok :: "skb \<Rightarrow> bool" where
  "skb_ok skb \<longleftrightarrow> mac_len skb = 14 \<and> network_offset skb = 14
     \<and> 38 \<le> length (mac_header skb) \<and> length (mac_header skb) < 65536
     \<and> skb_len skb = of_nat (length (mac_header skb) - 14)"

lemma frame_len_ok: "skb_ok skb \<Longrightarrow> frame_len skb = of_nat (length (mac_header skb))"
  by (simp add: skb_ok_def frame_len_def unsigned_ucast_eq of_nat_diff)

lemma sint_frame_len:
  assumes "skb_ok skb" shows "sint (frame_len skb) = int (length (mac_header skb))"
proof -
  have l: "length (mac_header skb) < 65536" using assms by (simp add: skb_ok_def)
  have "sint (of_nat (length (mac_header skb)) :: u32) = signed_take_bit 31 (int (length (mac_header skb)))"
    by (simp add: signed_of_nat)
  also have "\<dots> = int (length (mac_header skb))"
    using l by (intro signed_take_bit_int_eq_self) auto
  finally show ?thesis by (simp add: frame_len_ok [OF assms])
qed

lemma frame_len_42:
  assumes ok: "skb_ok skb" shows "frame_len skb = 42 \<longleftrightarrow> length (mac_header skb) = 42"
proof -
  have "unat (frame_len skb) = length (mac_header skb)"
    using ok by (simp add: frame_len_ok [OF ok] unsigned_of_nat take_bit_nat_eq_self skb_ok_def)
  moreover have "frame_len skb = 42 \<longleftrightarrow> unat (frame_len skb) = unat (42 :: u32)"
    by (rule word_unat_eq_iff)
  ultimately show ?thesis by simp
qed

text \<open>Little-endian reading is injective on blocks of one length.\<close>

lemma uint_byte_u32: "uint (ucast (b :: byte) :: u32) = uint b"
proof -
  have "uint b < 256" using uint_bounded [of b] by simp
  then have "take_bit 32 (uint b) = uint b" by (intro take_bit_int_eq_self) auto
  then show ?thesis by (simp add: unsigned_ucast_eq)
qed

lemma le_bytes_Cons_uint:
  assumes "uint (le_bytes bs) < 256 ^ length bs" "length bs \<le> 3"
  shows "uint (le_bytes (b # bs)) = uint b + 256 * uint (le_bytes bs)"
proof -
  have "(256::int) ^ length bs \<le> 256 ^ 3" using assms(2) by (intro power_increasing) auto
  then have "uint (le_bytes bs) < 16777216" using assms(1) by simp
  moreover have "uint b < 256" using uint_bounded [of b] by simp
  ultimately show ?thesis by (simp add: uint_word_ariths uint_byte_u32)
qed

lemma le_bytes_bound: "length bs \<le> 4 \<Longrightarrow> uint (le_bytes bs) < 256 ^ length bs"
proof (induction bs)
  case (Cons b bs)
  then have IH: "uint (le_bytes bs) < 256 ^ length bs" by simp
  have "uint b < 256" using uint_bounded [of b] by simp
  moreover have "uint (le_bytes (b # bs)) = uint b + 256 * uint (le_bytes bs)"
    using Cons.prems by (intro le_bytes_Cons_uint IH) simp
  ultimately show ?case using IH by simp
qed simp

lemma le_bytes_inj:
  assumes "length bs = length cs" "length bs \<le> 4"
  shows "le_bytes bs = le_bytes cs \<longleftrightarrow> bs = cs"
  using assms
proof (induction bs cs rule: list_induct2)
  case (Cons b bs c cs)
  have bc: "uint b < 256" "uint c < 256" using uint_bounded [of b] uint_bounded [of c] by simp_all
  have l: "length bs \<le> 3" "length cs \<le> 3" using Cons by simp_all
  have u: "uint (le_bytes (b # bs)) = uint b + 256 * uint (le_bytes bs)"
    "uint (le_bytes (c # cs)) = uint c + 256 * uint (le_bytes cs)"
    using l by (intro le_bytes_Cons_uint le_bytes_bound; simp)+
  show ?case
  proof
    assume "le_bytes (b # bs) = le_bytes (c # cs)"
    then have e: "uint b + 256 * uint (le_bytes bs) = uint c + 256 * uint (le_bytes cs)"
      using u by metis
    then have "uint b = uint c" using bc
      by (metis add.commute digit_low uint_ge_0)
    with e have "b = c" "le_bytes bs = le_bytes cs" by (simp_all add: word_uint_eq_iff)
    with Cons l show "b # bs = c # cs" by simp
  qed simp
qed simp

lemma saddr_ok:
  assumes "skb_ok skb"
  shows "ip_saddr skb = Inr (le_bytes (take 4 (drop 26 (mac_header skb))))"
  using assms by (simp add: skb_ok_def ip_saddr_def mem_read_def)

lemma port_ok:
  assumes "skb_ok skb"
  shows "mem_read 36 2 (mac_header skb) = Inr (take 2 (drop 36 (mac_header skb)))"
  using assms by (simp add: skb_ok_def mem_read_def)

lemma source_iff:
  assumes "skb_ok skb"
  defines "s \<equiv> take 4 (drop 26 (mac_header skb))"
  shows "le_bytes s = RTP_SOURCE_TRAFFIC_LE \<longleftrightarrow> s = [192, 168, 130, 1]"
    "le_bytes s = SAPFIRE_IP_ADDRESS_LE \<longleftrightarrow> s = [172, 24, 3, 1]"
proof -
  have l: "length s = 4" using assms(1) by (auto simp: skb_ok_def s_def)
  have "le_bytes [192, 168, 130, 1] = RTP_SOURCE_TRAFFIC_LE" "le_bytes [172, 24, 3, 1] = SAPFIRE_IP_ADDRESS_LE"
    by (simp_all add: hook_constants)
  then show "le_bytes s = RTP_SOURCE_TRAFFIC_LE \<longleftrightarrow> s = [192, 168, 130, 1]"
    "le_bytes s = SAPFIRE_IP_ADDRESS_LE \<longleftrightarrow> s = [172, 24, 3, 1]"
    using le_bytes_inj [of s "[192, 168, 130, 1]"] le_bytes_inj [of s "[172, 24, 3, 1]"] l by simp_all
qed

text \<open>
  The constants in network byte order denote the same two hosts; the address of the first port is not the
  192.168.130.124 of its comment.
\<close>

lemma address_constants:
  "le_bytes (rev [192, 168, 130, 1]) = RTP_SOURCE_TRAFFIC_BE" "le_bytes [192, 168, 130, 1] = RTP_SOURCE_TRAFFIC_LE"
  "le_bytes (rev [172, 24, 3, 1]) = SAPFIRE_IP_ADDRESS_BE" "le_bytes [172, 24, 3, 1] = SAPFIRE_IP_ADDRESS_LE"
  "le_bytes (rev [10, 0, 0, 1]) = SITARA_cpsw1_IP_ADDR" "le_bytes (rev [192, 169, 130, 124]) = SITARA_cpsw0_IP_ADDR"
  by (simp_all add: RTP_SOURCE_TRAFFIC_BE_def SAPFIRE_IP_ADDRESS_BE_def SITARA_cpsw0_IP_ADDR_def
      SITARA_cpsw1_IP_ADDR_def hook_constants)

lemma port_iff:
  assumes "skb_ok skb"
  shows "le_bytes (take 2 (drop 36 (mac_header skb))) = udp_dest_port_LE
    \<longleftrightarrow> take 2 (drop 36 (mac_header skb)) = [0x27, 0x10]"
proof -
  have "length (take 2 (drop 36 (mac_header skb))) = 2" using assms by (auto simp: skb_ok_def)
  moreover have "le_bytes [0x27, 0x10] = udp_dest_port_LE" by (simp add: hook_constants)
  ultimately show ?thesis
    using le_bytes_inj [of "take 2 (drop 36 (mac_header skb))" "[0x27, 0x10]"] by simp
qed

text \<open>The hook, in terms of the intended reading.\<close>

lemma hook_cases:
  assumes "skb_ok skb"
  shows "Hook_Func api skb st =
    (if length (mac_header skb) = 42 then Inr (st, NF_DROP)
     else if is_voice (mac_header skb) then
       bindR (get_rtp_prepare_packet_handler api (mac_header skb) (int (length (mac_header skb))) (voice st))
         (\<lambda>(v, r). Inr (st\<lparr>voice := v, rtp_count := rtp_count st + 1\<rparr>, NF_DROP))
     else Inr (st, NF_ACCEPT))"
proof -
  define s where "s = take 4 (drop 26 (mac_header skb))"
  define p where "p = take 2 (drop 36 (mac_header skb))"
  note sp = source_iff [OF assms, folded s_def] port_iff [OF assms, folded p_def]
  have v: "is_voice (mac_header skb) \<longleftrightarrow>
      (le_bytes s = RTP_SOURCE_TRAFFIC_LE \<or> le_bytes s = SAPFIRE_IP_ADDRESS_LE) \<and> le_bytes p = udp_dest_port_LE"
    unfolding sp by (simp add: is_voice_def voice_sources_def s_def p_def)
  have a: "ip_saddr skb = Inr (le_bytes s)" "mem_read 36 2 (mac_header skb) = Inr p"
    using saddr_ok [OF assms] port_ok [OF assms] by (simp_all add: s_def p_def)
  have ne: "RTP_SOURCE_TRAFFIC_LE \<noteq> SAPFIRE_IP_ADDRESS_LE" by (simp add: hook_constants)
  show ?thesis
    unfolding v Hook_Func_def a(1) source_filter_def frame_len_42 [OF assms] sint_frame_len [OF assms]
    using ne by (simp add: a(2) ETHERNET_HEADER_LEGTH_def Let_def)
qed


section \<open>Sequences of packets\<close>

fun hook_run :: "'q kfifo_api \<Rightarrow> skb list \<Rightarrow> 'q hook_state \<Rightarrow> ('q hook_state \<times> verdict list) res" where
  "hook_run api [] st = Inr (st, [])"
| "hook_run api (skb # skbs) st =
     bindR (Hook_Func api skb st) (\<lambda>(st', v).
     bindR (hook_run api skbs st') (\<lambda>(st'', vs). Inr (st'', v # vs)))"

text \<open>What a frame contributes to the playback queue, and what the stack is told.\<close>

definition taken :: "byte list \<Rightarrow> bool" where
  "taken frame \<longleftrightarrow> length frame \<noteq> 42 \<and> is_voice frame"

definition voice_data :: "byte list \<Rightarrow> byte list" where
  "voice_data frame = (if taken frame then frame_samples frame else [])"

definition frame_verdict :: "byte list \<Rightarrow> verdict" where
  "frame_verdict frame = (if length frame = 42 \<or> is_voice frame then NF_DROP else NF_ACCEPT)"

definition arrival_ok :: "skb \<Rightarrow> bool" where
  "arrival_ok skb \<longleftrightarrow> skb_ok skb \<and> (taken (mac_header skb) \<longrightarrow> frame_ok (mac_header skb))"

context kfifo_contract begin

lemma hook_step:
  assumes "voice_ready valid (voice st)" "fifo (voice st) = Some q" "arrival_ok skb"
  shows "\<exists>st' q'. Hook_Func api skb st = Inr (st', frame_verdict (mac_header skb))
    \<and> voice_ready valid (voice st') \<and> fifo (voice st') = Some q' \<and> capacity q' = capacity q
    \<and> contents q' = take (capacity q) (contents q @ voice_data (mac_header skb))
    \<and> rtp_count st' = rtp_count st + of_bool (taken (mac_header skb))"
proof (cases "taken (mac_header skb)")
  case True
  have ok: "skb_ok skb" "frame_ok (mac_header skb)" using assms(3) True by (auto simp: arrival_ok_def)
  obtain v q' where v: "get_rtp_prepare_packet_handler api (mac_header skb)
      (int (length (mac_header skb))) (voice st) = Inr (v, 1)"
    "voice_ready valid v" "fifo v = Some q'" "capacity q' = capacity q"
    "contents q' = take (capacity q) (contents q @ frame_samples (mac_header skb))"
    using handler_queues [OF assms(1,2) ok(2)] by blast
  then show ?thesis
    using True by (simp add: hook_cases [OF ok(1)] taken_def frame_verdict_def voice_data_def)
next
  case False
  have ok: "skb_ok skb" using assms(3) by (simp add: arrival_ok_def)
  have "valid q" using assms(1,2) by (simp add: voice_ready_def)
  then show ?thesis
    using False assms len [of q]
    by (auto simp: hook_cases [OF ok] taken_def frame_verdict_def voice_data_def)
qed

lemma hook_run_queues:
  assumes "voice_ready valid (voice st)" "fifo (voice st) = Some q" "\<forall>skb \<in> set skbs. arrival_ok skb"
  shows "\<exists>st' q'. hook_run api skbs st = Inr (st', map (\<lambda>s. frame_verdict (mac_header s)) skbs)
    \<and> voice_ready valid (voice st') \<and> fifo (voice st') = Some q' \<and> capacity q' = capacity q
    \<and> contents q' = take (capacity q) (contents q @ concat (map (\<lambda>s. voice_data (mac_header s)) skbs))
    \<and> rtp_count st' = rtp_count st + of_nat (length (filter (\<lambda>s. taken (mac_header s)) skbs))"
  using assms
proof (induction skbs arbitrary: st q)
  case Nil
  then show ?case using len [of q] by (auto simp: voice_ready_def)
next
  case (Cons skb skbs)
  have ok: "arrival_ok skb" "\<forall>s \<in> set skbs. arrival_ok s" using Cons.prems(3) by auto
  obtain st1 q1 where s1: "Hook_Func api skb st = Inr (st1, frame_verdict (mac_header skb))"
    "voice_ready valid (voice st1)" "fifo (voice st1) = Some q1" "capacity q1 = capacity q"
    "contents q1 = take (capacity q) (contents q @ voice_data (mac_header skb))"
    "rtp_count st1 = rtp_count st + of_bool (taken (mac_header skb))"
    using hook_step [OF Cons.prems(1,2) ok(1)] by blast
  obtain st2 q2 where s2: "hook_run api skbs st1 = Inr (st2, map (\<lambda>s. frame_verdict (mac_header s)) skbs)"
    "voice_ready valid (voice st2)" "fifo (voice st2) = Some q2" "capacity q2 = capacity q1"
    "contents q2 = take (capacity q1) (contents q1 @ concat (map (\<lambda>s. voice_data (mac_header s)) skbs))"
    "rtp_count st2 = rtp_count st1 + of_nat (length (filter (\<lambda>s. taken (mac_header s)) skbs))"
    using Cons.IH [OF s1(2,3) ok(2)] by blast
  have t: "take n (take n xs @ ys) = take n (xs @ ys)" for n and xs ys :: "byte list"
    by (cases "n \<le> length xs") auto
  have "contents q2 = take (capacity q)
      (contents q @ concat (map (\<lambda>s. voice_data (mac_header s)) (skb # skbs)))"
    unfolding s2(5) s1(4,5) t by simp
  moreover have "rtp_count st2 = rtp_count st + of_nat (length (filter (\<lambda>s. taken (mac_header s)) (skb # skbs)))"
    unfolding s2(6) s1(6) by (simp add: of_bool_def)
  ultimately show ?case using s1 s2 by simp
qed

end

section \<open>Packets before initialisation\<close>

text \<open>The state between the registration of the hook and the set-up of FIFO and codec.\<close>

definition not_ready :: "'q voice_state \<Rightarrow> bool" where
  "not_ready st \<longleftrightarrow> fifo st = None \<and> output_pcm_buf (codec st) = None"

lemma handler_no_codec:
  assumes "output_pcm_buf (codec st) = None" "55 \<le> length packet" "length packet \<le> 1514" "packet ! 43 = 0"
  shows "get_rtp_prepare_packet_handler api packet (int (length packet)) st = Inl NullPointer"
proof -
  define w :: u16 where "w = word_of_int (int (length packet) - 54)"
  have w': "of_nat (length packet) - 54 = w" by (simp add: w_def)
  have w: "unat w = length packet - 54" unfolding w_def using assms by (intro unat_payload_size) auto
  then have "sint w \<noteq> 0" "0 < nat (sint w)"
    using assms sint_u16_pos [of w] by simp_all
  then have "g711_ulaw_decoder w pl (codec st) = Inl NullPointer" for pl
    using assms(1) by (simp add: g711_ulaw_decoder_def) (simp add: decode_loop.simps)
  then show ?thesis
    using assms w read_type [of packet]
    by (simp add: get_rtp_prepare_packet_handler_def Let_def w' payload_types mem_read_def local_array_def)
qed

lemma handler_not_ready:
  assumes "not_ready st" "55 \<le> length packet" "length packet \<le> 1514" "packet ! 43 = 0 \<or> packet ! 43 = 96"
  shows "get_rtp_prepare_packet_handler api packet (int (length packet)) st = Inl NullPointer"
  using assms handler_no_codec [of st packet api] by (auto simp: handler_raw store_voice_def not_ready_def)

text \<open>The hook reads the frame from byte 26 on only.\<close>

lemma mem_read_tail:
  assumes "k \<le> off" "length h = k" "k \<le> length f"
  shows "mem_read off n (h @ drop k f) = mem_read off n f"
  using assms by (auto simp: mem_read_def)

lemma handler_tail:
  assumes "length h = 26" "26 \<le> length f"
  shows "get_rtp_prepare_packet_handler api (h @ drop 26 f) n st = get_rtp_prepare_packet_handler api f n st"
proof -
  have "mem_read 43 1 (h @ drop 26 f) = mem_read 43 1 f"
    "mem_read (14 + 20 + 8 + 12) m (h @ drop 26 f) = mem_read (14 + 20 + 8 + 12) m f" for m
    using assms by (intro mem_read_tail; simp)+
  then show ?thesis unfolding get_rtp_prepare_packet_handler_def by presburger
qed

section \<open>Properties of the hook\<close>


definition demo_frame :: "byte list" where
  "demo_frame = replicate 26 0 @ [192, 168, 130, 1] @ replicate 6 0 @ [0x27, 0x10]
     @ replicate 16 0 @ [255, 0]"

definition demo_hook :: "(byte list \<times> nat) hook_state" where
  "demo_hook = \<lparr>voice = demo_state, rtp_count = 0\<rparr>"

definition demo_skb :: "byte list \<Rightarrow> skb" where
  "demo_skb f = \<lparr>mac_len = 14, skb_len = of_nat (length f - 14), mac_header = f, network_offset = 14\<rparr>"

lemma demo_frame_simps:
  "length demo_frame = 56" "is_voice demo_frame" "demo_frame ! 43 = 0" "drop 54 demo_frame = [255, 0]"
  by (simp_all add: demo_frame_def is_voice_def voice_sources_def nth_append)

lemma demo_skb_ok: "skb_ok (demo_skb demo_frame)"
  by (simp add: skb_ok_def demo_skb_def demo_frame_simps)

lemma demo_arrival: "arrival_ok (demo_skb demo_frame)"
  using demo_skb_ok by (simp add: arrival_ok_def frame_ok_def demo_skb_def demo_frame_simps)


text \<open>
  A packet that is not voice never touches the playback state, whatever state it meets:
  it is accepted, or dropped silently when the frame has exactly 42 bytes (meant for empty
  UDP packets, but any protocol of that size is lost).
\<close>

lemma hook_other_traffic:
  assumes "skb_ok skb" "\<not> is_voice (mac_header skb)"
  shows "Hook_Func api skb st =
    Inr (st, if length (mac_header skb) = 42 then NF_DROP else NF_ACCEPT)"
  using assms(2) by (simp add: hook_cases [OF assms(1)])

lemma hook_other_traffic_witness:
  "Hook_Func list_kfifo (demo_skb (replicate 42 1)) demo_hook = Inr (demo_hook, NF_DROP)
   \<and> Hook_Func list_kfifo (demo_skb (replicate 43 1)) demo_hook = Inr (demo_hook, NF_ACCEPT)"
proof -
  have "\<not> is_voice (mac_header (demo_skb (replicate n 1)))" if "38 \<le> n" for n
  proof -
    have "hd (take 4 (drop 26 (replicate n 1))) = (1 :: byte)" using that by (simp add: hd_drop_conv_nth)
    moreover have "hd s \<noteq> 1" if "s \<in> set voice_sources" for s using that by (auto simp: voice_sources_def)
    ultimately show ?thesis unfolding is_voice_def demo_skb_def by auto
  qed
  moreover have ok: "skb_ok (demo_skb (replicate n 1))" if "38 \<le> n" "n < 100" for n
    using that by (simp add: skb_ok_def demo_skb_def)
  ultimately have "Hook_Func list_kfifo (demo_skb (replicate n 1)) demo_hook =
      Inr (demo_hook, if length (mac_header (demo_skb (replicate n 1))) = 42 then NF_DROP else NF_ACCEPT)"
    if "38 \<le> n" "n < 100" for n
    using that by (intro hook_other_traffic) auto
  from this [of 42] this [of 43] show ?thesis by (simp add: demo_skb_def)
qed

text \<open>
  Verdict and effect do not depend on the first 26 bytes of the frame, which hold the
  Ethernet type, the IP version and header length, the fragment offset and the protocol: a
  TCP segment or a fragment from a voice source is consumed like an RTP packet, and IP
  options shift the fields the hook looks at.
\<close>

lemma hook_ignores_protocol:
  assumes "network_offset skb = 14" "length h = 26" "26 \<le> length (mac_header skb)"
  shows "Hook_Func api (skb\<lparr>mac_header := h @ drop 26 (mac_header skb)\<rparr>) st = Hook_Func api skb st"
proof -
  let ?f = "mac_header skb"
  define skb' where "skb' = skb\<lparr>mac_header := h @ drop 26 ?f\<rparr>"
  have f: "mac_header skb' = h @ drop 26 ?f" "mac_len skb' = mac_len skb" "skb_len skb' = skb_len skb"
    "network_offset skb' = 14" using assms(1) by (simp_all add: skb'_def)
  have m: "mem_read (14 + 12) 4 (h @ drop 26 ?f) = mem_read (14 + 12) 4 ?f"
    "mem_read (14 + 22) 2 (h @ drop 26 ?f) = mem_read (14 + 22) 2 ?f"
    using assms by (intro mem_read_tail; simp)+
  show ?thesis
    unfolding skb'_def [symmetric]
    unfolding Hook_Func_def ip_saddr_def frame_len_def source_filter_def ETHERNET_HEADER_LEGTH_def
      f assms(1) m handler_tail [OF assms(2,3)] ..
qed

lemma hook_ignores_protocol_witness:
  "Hook_Func list_kfifo ((demo_skb demo_frame)\<lparr>mac_header := replicate 23 0 @ [6, 0, 0] @ drop 26 demo_frame\<rparr>) demo_hook
    = Hook_Func list_kfifo (demo_skb demo_frame) demo_hook"
  using hook_ignores_protocol [of "demo_skb demo_frame" "replicate 23 0 @ [6, 0, 0]" list_kfifo demo_hook]
  by (simp add: demo_skb_def demo_frame_simps)

text \<open>
  The module registers the hook before it allocates the FIFO and the codec buffer: a
  voice packet with samples that arrives in between makes the hook go through a null pointer.
\<close>

lemma hook_before_setup:
  assumes "skb_ok skb" "not_ready (voice st)" "is_voice (mac_header skb)"
    and "55 \<le> length (mac_header skb)" "length (mac_header skb) \<le> 1514"
    and "mac_header skb ! 43 = 0 \<or> mac_header skb ! 43 = 96"
  shows "Hook_Func api skb st = Inl NullPointer"
  using assms(3,4) handler_not_ready [OF assms(2,4,5,6), of api] by (simp add: hook_cases [OF assms(1)])

lemma hook_before_setup_witness:
  "Hook_Func list_kfifo (demo_skb demo_frame)
     \<lparr>voice = \<lparr>codec = \<lparr>output_pcm_buf = None\<rparr>, fifo = None\<rparr>, rtp_count = 0\<rparr> = Inl NullPointer"
  using hook_before_setup [of "demo_skb demo_frame"
      "\<lparr>voice = \<lparr>codec = \<lparr>output_pcm_buf = None\<rparr>, fifo = None\<rparr>, rtp_count = 0\<rparr>" list_kfifo]
    demo_skb_ok demo_frame_simps by (simp add: not_ready_def demo_skb_def)

end
