(* ===== verification/Eth_Tx.thy ===== *)
theory Eth_Tx
  imports Prelude
begin

text \<open>
  The transmit side of \<open>drv/linux/Ab_arm_ethernetdrv.c\<close>: looking up the two Ethernet devices
  by name and sending a prepared frame through one of them.
\<close>

section \<open>Socket buffers and devices of the kernel\<close>

text \<open>
  A buffer with its \<open>data\<close> and \<open>tail\<close> positions.  The kernel's operations on it are a record
  of functions; \<open>xmit\<close> is the device's \<open>ndo_start_xmit\<close>, its result truncated to \<open>u16\<close>.
\<close>

record txbuf =
  tx_mem :: "byte list"
  tx_data :: nat
  tx_tail :: nat

record net_api =
  netdev_alloc_skb :: "u16 \<Rightarrow> txbuf option"
  skb_push :: "txbuf \<Rightarrow> nat \<Rightarrow> txbuf"
  skb_put :: "txbuf \<Rightarrow> nat \<Rightarrow> txbuf"
  eth_type_trans :: "txbuf \<Rightarrow> txbuf"
  ndo_start_xmit :: "txbuf \<Rightarrow> u16"

text \<open>A device: its counters, and the buffers that were handed to its driver.\<close>

record netdev =
  rx_dropped :: u32
  tx_packets :: u32
  tx_bytes :: u32
  handed :: "txbuf list"

definition frame_of :: "txbuf \<Rightarrow> byte list" where
  "frame_of s = drop (tx_data s) (take (tx_tail s) (tx_mem s))"

locale skb_contract =
  fixes api :: net_api
  assumes alloc: "netdev_alloc_skb api w = Some s \<Longrightarrow>
      tx_tail s = tx_data s \<and> 14 \<le> tx_data s \<and> tx_data s + unat w \<le> length (tx_mem s)"
    and push: "n \<le> tx_data s \<Longrightarrow> skb_push api s n = s\<lparr>tx_data := tx_data s - n\<rparr>"
    and put: "tx_tail s + n \<le> length (tx_mem s) \<Longrightarrow> skb_put api s n = s\<lparr>tx_tail := tx_tail s + n\<rparr>"
    and type_trans: "tx_data s + 14 \<le> tx_tail s \<Longrightarrow> eth_type_trans api s = s\<lparr>tx_data := tx_data s + 14\<rparr>"

text \<open>Buffers with 64 bytes of headroom behave like that.\<close>

definition room_api :: "(txbuf \<Rightarrow> u16) \<Rightarrow> net_api" where
  "room_api xmit =
     \<lparr>netdev_alloc_skb = (\<lambda>n. Some \<lparr>tx_mem = replicate (64 + unat n) 0, tx_data = 64, tx_tail = 64\<rparr>),
      skb_push = (\<lambda>s n. s\<lparr>tx_data := tx_data s - n\<rparr>),
      skb_put = (\<lambda>s n. s\<lparr>tx_tail := tx_tail s + n\<rparr>),
      eth_type_trans = (\<lambda>s. s\<lparr>tx_data := tx_data s + 14\<rparr>),
      ndo_start_xmit = xmit\<rparr>"

interpretation room: skb_contract "room_api xmit" for xmit
  by unfold_locales (auto simp: room_api_def)

section \<open>Sending\<close>

definition ETH_P_IP_be :: "byte list" where "ETH_P_IP_be = [0x08, 0x00]"
definition NET_RX_DROP :: u16 where "NET_RX_DROP = 1"

text \<open>Copying the frame, pushing a header and handing the buffer over; shared by both devices.\<close>

definition fill_skb :: "net_api \<Rightarrow> byte list \<Rightarrow> u16 \<Rightarrow> txbuf \<Rightarrow> txbuf res" where
  "fill_skb api buf len skb =
     bindR (mem_read 0 (unat len) buf) (\<lambda>payload.
     bindR (mem_write (tx_data skb) payload (tx_mem skb)) (\<lambda>mem1.
     let skb1 = skb_push api (skb\<lparr>tx_mem := mem1\<rparr>) 14
     in bindR (mem_read 0 12 buf) (\<lambda>addresses.
        bindR (mem_write (tx_data skb1) addresses (tx_mem skb1)) (\<lambda>mem2.
        bindR (mem_write (tx_data skb1 + 12) ETH_P_IP_be mem2) (\<lambda>mem3.
        let skb2 = skb_put api (skb1\<lparr>tx_mem := mem3\<rparr>) (unat len)
        in Inr (eth_type_trans api skb2))))))"

text \<open>\<open>None\<close> is the null device pointer.\<close>

definition send_packet_buf_to_cpsw0 ::
  "net_api \<Rightarrow> netdev option \<Rightarrow> byte list \<Rightarrow> u16 \<Rightarrow> netdev option res" where
  "send_packet_buf_to_cpsw0 api cpsw0_dev buf len =
     (case cpsw0_dev of
        None \<Rightarrow> Inl NullPointer
      | Some dev \<Rightarrow>
          (case netdev_alloc_skb api len of
             None \<Rightarrow> Inr (Some (dev\<lparr>rx_dropped := rx_dropped dev + 1\<rparr>))
           | Some skb \<Rightarrow>
               bindR (fill_skb api buf len skb) (\<lambda>skb1.
               let ret = ndo_start_xmit api skb1;
                   dev1 = dev\<lparr>handed := handed dev @ [skb1]\<rparr>
               in if NET_RX_DROP = ret then Inr (Some dev1)
                  else Inr (Some (dev1\<lparr>tx_packets := tx_packets dev1 + 1,
                                       tx_bytes := tx_bytes dev1 + ucast len\<rparr>)))))"

definition send_packet_buf_to_cpsw1 ::
  "net_api \<Rightarrow> netdev option \<Rightarrow> byte list \<Rightarrow> u16 \<Rightarrow> netdev option res" where
  "send_packet_buf_to_cpsw1 api cpsw1_dev buf len =
     (case cpsw1_dev of
        None \<Rightarrow> Inl NullPointer
      | Some dev \<Rightarrow>
          (case netdev_alloc_skb api len of
             None \<Rightarrow> Inr (Some dev)
           | Some skb \<Rightarrow>
               bindR (fill_skb api buf len skb) (\<lambda>skb1.
               let ret = ndo_start_xmit api skb1;
                   dev1 = dev\<lparr>handed := handed dev @ [skb1]\<rparr>
               in if NET_RX_DROP = ret then Inr (Some dev1)
                  else Inr (Some (dev1\<lparr>tx_packets := tx_packets dev1 + 1,
                                       tx_bytes := tx_bytes dev1 + ucast len\<rparr>)))))"

context skb_contract begin

text \<open>What the driver gets is the caller's frame: the pushed header is pulled off again.\<close>

lemma fill_frame:
  assumes "netdev_alloc_skb api len = Some skb" "unat len \<le> length buf" "14 \<le> length buf"
    and "length buf < 2 ^ 31"
  shows "\<exists>skb'. fill_skb api buf len skb = Inr skb' \<and> frame_of skb' = take (unat len) buf"
proof -
  note a = alloc [OF assms(1)]
  define d where "d = tx_data skb"
  define n where "n = unat len"
  have d: "14 \<le> d" "tx_tail skb = d" "d + n \<le> length (tx_mem skb)" using a by (auto simp: d_def n_def)
  define mem1 where "mem1 = take d (tx_mem skb) @ take n buf @ drop (d + n) (tx_mem skb)"
  define mem2 where "mem2 = take (d - 14) mem1 @ take 12 buf @ drop (d - 2) mem1"
  define mem3 where "mem3 = take (d - 2) mem2 @ ETH_P_IP_be @ drop d mem2"
  have n: "n \<le> length buf" "12 \<le> length buf" using assms(2,3) by (simp_all add: n_def)
  have l1: "length mem1 = length (tx_mem skb)" using d n by (simp add: mem1_def)
  have l2: "length mem2 = length (tx_mem skb)" using d n l1 by (simp add: mem2_def)
  have l3: "length mem3 = length (tx_mem skb)" using d n l2 by (simp add: mem3_def ETH_P_IP_be_def)
  have r: "mem_read 0 n buf = Inr (take n buf)" "mem_read 0 12 buf = Inr (take 12 buf)"
    using n assms(4) by (simp_all add: mem_read_def)
  have w1: "mem_write d (take n buf) (tx_mem skb) = Inr mem1"
    using n d by (simp add: mem_write_def mem1_def)
  have w2: "mem_write (d - 14) (take 12 buf) mem1 = Inr mem2"
  proof -
    have "d - 14 + 12 = d - 2" using d by simp
    then show ?thesis using n d l1 by (simp add: mem_write_def mem2_def)
  qed
  have w3: "mem_write (d - 14 + 12) ETH_P_IP_be mem2 = Inr mem3"
  proof -
    have "d - 14 + 12 = d - 2" "d - 2 + 2 = d" using d by simp_all
    then show ?thesis using d l2 by (simp add: mem_write_def mem3_def ETH_P_IP_be_def)
  qed
  have p: "skb_push api (skb\<lparr>tx_mem := mem1\<rparr>) 14 = skb\<lparr>tx_mem := mem1, tx_data := d - 14\<rparr>"
    using push [of 14 "skb\<lparr>tx_mem := mem1\<rparr>"] d by (simp add: d_def)
  have t: "skb_put api (skb\<lparr>tx_data := d - 14, tx_mem := mem3\<rparr>) n
      = skb\<lparr>tx_mem := mem3, tx_data := d - 14, tx_tail := d + n\<rparr>"
    using put [of "skb\<lparr>tx_data := d - 14, tx_mem := mem3\<rparr>" n] d l3 by simp
  have e: "eth_type_trans api (skb\<lparr>tx_mem := mem3, tx_data := d - 14, tx_tail := d + n\<rparr>)
      = skb\<lparr>tx_mem := mem3, tx_data := d, tx_tail := d + n\<rparr>"
    using type_trans [of "skb\<lparr>tx_mem := mem3, tx_data := d - 14, tx_tail := d + n\<rparr>"] d by simp
  have "fill_skb api buf len skb = Inr (skb\<lparr>tx_mem := mem3, tx_data := d, tx_tail := d + n\<rparr>)"
    unfolding fill_skb_def n_def [symmetric] d_def [symmetric] r w1 bindR_Inr p Let_def
    by (simp add: r w2 w3 t e)
  moreover have "Suc (Suc (d - 2)) = d" using d by simp
  then have "drop d mem3 = drop d mem1"
    using d n l1 l2 by (simp add: mem3_def mem2_def ETH_P_IP_be_def)
  then have "frame_of (skb\<lparr>tx_mem := mem3, tx_data := d, tx_tail := d + n\<rparr>) = take n buf"
    using d n by (simp add: frame_of_def drop_take mem1_def)
  ultimately show ?thesis by (auto simp: n_def)
qed

end

section \<open>Looking devices up\<close>

definition IFNAMSIZ :: nat where "IFNAMSIZ = 16"

text \<open>
  The copy loop; \<open>i\<close> starts at 0 and is at most \<open>IFNAMSIZ\<close>.  \<open>ifname\<close> is the memory from the
  first character of the name on.
\<close>

function name_loop :: "byte list \<Rightarrow> nat \<Rightarrow> byte list \<Rightarrow> (nat \<times> byte list) res" where
  "name_loop ifname i b =
     bindR (mem_read i 1 ifname) (\<lambda>c.
       if hd c = 0x40 then Inr (i, b)
       else if IFNAMSIZ \<le> i then Inr (i, b)
       else bindR (mem_write i c b) (\<lambda>b'. name_loop ifname (Suc i) b'))"
  by pat_completeness auto
termination by (relation "measure (\<lambda>(ifname, i, b). IFNAMSIZ - i)") (auto simp: IFNAMSIZ_def)

declare name_loop.simps [simp del]

definition cstring :: "byte list \<Rightarrow> byte list" where
  "cstring b = takeWhile (\<lambda>c. c \<noteq> 0) b"

definition cpsw_get_device_by_name ::
  "(byte list \<Rightarrow> netdev option) \<Rightarrow> byte list \<Rightarrow> netdev option res" where
  "cpsw_get_device_by_name dev_get_by_name ifname =
     bindR (name_loop ifname 0 (replicate (IFNAMSIZ + 5) 0)) (\<lambda>(i, b).
     bindR (mem_write i [0] b) (\<lambda>b'. Inr (dev_get_by_name (cstring b'))))"

text \<open>The memory at the two string literals is what follows them in the image, too.\<close>

definition Init_Arm_CPSW_MAC_Ethernet ::
  "(byte list \<Rightarrow> netdev option) \<Rightarrow> byte list \<Rightarrow> byte list \<Rightarrow> (netdev option \<times> netdev option \<times> bool) res" where
  "Init_Arm_CPSW_MAC_Ethernet dev_get_by_name ifname0 ifname1 =
     bindR (cpsw_get_device_by_name dev_get_by_name ifname0) (\<lambda>cpsw0_dev.
     bindR (cpsw_get_device_by_name dev_get_by_name ifname1) (\<lambda>cpsw1_dev.
     Inr (cpsw0_dev, cpsw1_dev, True)))"

definition Init_Arm_PHY_Transiver :: bool where "Init_Arm_PHY_Transiver = True"

text \<open>What the loop does when it stays inside the memory of the name.\<close>

definition name_end :: "byte list \<Rightarrow> nat" where
  "name_end ifname = min IFNAMSIZ (length (takeWhile (\<lambda>c. c \<noteq> 0x40) ifname))"

lemma name_end_le: "name_end ifname \<le> 16" "name_end ifname \<le> length ifname"
  using length_takeWhile_le [of "\<lambda>c. c \<noteq> 0x40" ifname] by (auto simp: name_end_def IFNAMSIZ_def)

lemma before_name_end: "i < name_end ifname \<Longrightarrow> ifname ! i \<noteq> 0x40"
proof -
  assume "i < name_end ifname"
  then have i: "i < length (takeWhile (\<lambda>c. c \<noteq> 0x40) ifname)" by (simp add: name_end_def)
  then have "takeWhile (\<lambda>c. c \<noteq> 0x40) ifname ! i \<in> set (takeWhile (\<lambda>c. c \<noteq> 0x40) ifname)"
    by (rule nth_mem)
  then show ?thesis using i by (simp add: takeWhile_nth) (blast dest: set_takeWhileD)
qed

lemma at_name_end: "name_end ifname < 16 \<Longrightarrow> name_end ifname < length ifname \<Longrightarrow> ifname ! name_end ifname = 0x40"
proof -
  assume a: "name_end ifname < 16" "name_end ifname < length ifname"
  then have e: "name_end ifname = length (takeWhile (\<lambda>c. c \<noteq> 0x40) ifname)"
    by (simp add: name_end_def IFNAMSIZ_def min_def split: if_splits)
  then show ?thesis
    using nth_length_takeWhile [of "\<lambda>c. c \<noteq> 0x40" ifname] a(2) by metis
qed

lemma name_loop_ok:
  assumes "name_end ifname < length ifname" "i \<le> name_end ifname" "length b = 21"
    "take i b = take i ifname"
  shows "\<exists>b'. name_loop ifname i b = Inr (name_end ifname, b') \<and> length b' = 21
    \<and> take (name_end ifname) b' = take (name_end ifname) ifname"
  using assms
proof (induction "name_end ifname - i" arbitrary: i b)
  case 0
  then have i: "i = name_end ifname" by simp
  have r: "mem_read i 1 ifname = Inr [ifname ! i]"
    using 0(2) i name_end_le(1) [of ifname]
    by (simp add: mem_read_def take_Suc hd_drop_conv_nth)
  have "IFNAMSIZ \<le> i \<or> ifname ! i = 0x40"
    using at_name_end [of ifname] 0(2) i by (cases "i < 16") (auto simp: IFNAMSIZ_def)
  with 0 i r show ?case by (subst name_loop.simps) auto
next
  case (Suc k)
  then have i: "i < name_end ifname" by simp
  then have i16: "i < 16" "i < length ifname" using name_end_le [of ifname] by simp_all
  define b' where "b' = take i b @ [ifname ! i] @ drop (Suc i) b"
  have r: "mem_read i 1 ifname = Inr [ifname ! i]"
    using i16 by (simp add: mem_read_def take_Suc hd_drop_conv_nth)
  have w: "mem_write i [ifname ! i] b = Inr b'"
    using i16 Suc.prems(3) by (simp add: mem_write_def b'_def)
  have "take (Suc i) b' = take (Suc i) ifname"
    using Suc.prems(3,4) i16 by (simp add: b'_def take_Suc_conv_app_nth)
  then have "\<exists>b''. name_loop ifname (Suc i) b' = Inr (name_end ifname, b'') \<and> length b'' = 21
      \<and> take (name_end ifname) b'' = take (name_end ifname) ifname"
    using Suc.hyps Suc.prems i i16 by (intro Suc.hyps(1)) (auto simp: b'_def)
  moreover have "name_loop ifname i b = name_loop ifname (Suc i) b'"
    using r w i16 before_name_end [OF i] by (subst name_loop.simps) (simp add: IFNAMSIZ_def)
  ultimately show ?case by simp
qed

lemma name_loop_fault:
  assumes "name_end ifname = length ifname" "i \<le> length ifname" "length b = 21"
  shows "name_loop ifname i b = Inl OutOfBounds"
  using assms
proof (induction "length ifname - i" arbitrary: i b)
  case 0
  then have "mem_read i 1 ifname = Inl OutOfBounds" by (simp add: mem_read_def)
  then show ?case by (subst name_loop.simps) simp
next
  case (Suc k)
  then have i: "i < length ifname" "i < name_end ifname" by auto
  then have i16: "i < 16" using name_end_le [of ifname] by simp
  have r: "mem_read i 1 ifname = Inr [ifname ! i]"
    using i i16 by (simp add: mem_read_def take_Suc hd_drop_conv_nth)
  obtain b' where w: "mem_write i [ifname ! i] b = Inr b'" "length b' = 21"
    using i16 Suc.prems(3) by (simp add: mem_write_def)
  have "name_loop ifname (Suc i) b' = Inl OutOfBounds"
    using Suc.hyps Suc.prems i w by (intro Suc.hyps(1)) auto
  then show ?case
    using r w i16 before_name_end [OF i(2)] by (subst name_loop.simps) (simp add: IFNAMSIZ_def)
qed

lemma cpsw_lookup:
  "cpsw_get_device_by_name dev ifname =
     (if 0x40 \<in> set ifname \<or> 16 < length ifname
      then Inr (dev (cstring (take 16 (takeWhile (\<lambda>c. c \<noteq> 0x40) ifname))))
      else Inl OutOfBounds)"
proof (cases "name_end ifname < length ifname")
  case True
  let ?n = "name_end ifname"
  obtain b' where b': "name_loop ifname 0 (replicate 21 0) = Inr (?n, b')" "length b' = 21"
    "take ?n b' = take ?n ifname"
    using name_loop_ok [OF True, of 0 "replicate 21 0"] by auto
  have n: "?n \<le> 16" by (rule name_end_le)
  have w: "mem_write ?n [0] b' = Inr (take ?n ifname @ [0] @ drop (Suc ?n) b')"
    using b'(2,3) n by (simp add: mem_write_def)
  have t: "take ?n ifname = take 16 (takeWhile (\<lambda>c. c \<noteq> 0x40) ifname)"
    unfolding name_end_def IFNAMSIZ_def by (metis take_take takeWhile_eq_take)
  have c: "cstring (xs @ [0] @ ys) = cstring xs" for xs ys
    by (induction xs) (simp_all add: cstring_def)
  have "0x40 \<in> set ifname \<or> 16 < length ifname"
  proof (rule ccontr)
    assume "\<not> ?thesis"
    then have "takeWhile (\<lambda>c. c \<noteq> 0x40) ifname = ifname" "length ifname \<le> 16"
      by (auto simp: takeWhile_eq_all_conv)
    with True show False by (simp add: name_end_def IFNAMSIZ_def)
  qed
  then show ?thesis
    using b'(1) w t c by (simp add: cpsw_get_device_by_name_def IFNAMSIZ_def)
next
  case False
  then have e: "name_end ifname = length ifname" using name_end_le(2) [of ifname] by simp
  then have "length ifname \<le> 16" "takeWhile (\<lambda>c. c \<noteq> 0x40) ifname = ifname"
    using takeWhile_eq_take [of "\<lambda>c. c \<noteq> 0x40" ifname]
    by (auto simp: name_end_def IFNAMSIZ_def min_def split: if_splits)
  then have "\<not> (0x40 \<in> set ifname \<or> 16 < length ifname)" by (auto dest: set_takeWhileD)
  then show ?thesis
    using name_loop_fault [OF e, of 0 "replicate 21 0"]
    by (simp add: cpsw_get_device_by_name_def IFNAMSIZ_def)
qed

section \<open>Properties\<close>

text \<open>
  C32: the frame handed to the network driver is exactly the first \<open>len\<close> bytes of the caller's
  buffer; the counters go up for every result but \<open>NET_RX_DROP\<close>, also when the driver was
  busy and did not take the frame.
\<close>

theorem eth_tx_frame:
  assumes "skb_contract api" "netdev_alloc_skb api len = Some skb"
    and "unat len \<le> length buf" "14 \<le> length buf" "length buf < 2 ^ 31"
  shows "\<exists>skb'. frame_of skb' = take (unat len) buf
    \<and> send_packet_buf_to_cpsw0 api (Some dev) buf len =
        Inr (Some (if ndo_start_xmit api skb' = 1 then dev\<lparr>handed := handed dev @ [skb']\<rparr>
          else dev\<lparr>handed := handed dev @ [skb'], tx_packets := tx_packets dev + 1,
                   tx_bytes := tx_bytes dev + ucast len\<rparr>))
    \<and> send_packet_buf_to_cpsw1 api (Some dev) buf len = send_packet_buf_to_cpsw0 api (Some dev) buf len"
  using skb_contract.fill_frame [OF assms] assms(2)
  by (auto simp: send_packet_buf_to_cpsw0_def send_packet_buf_to_cpsw1_def NET_RX_DROP_def Let_def)

theorem eth_tx_frame_witness:
  "\<exists>skb'. frame_of skb' = replicate 60 7
    \<and> send_packet_buf_to_cpsw0 (room_api (\<lambda>s. 16)) (Some \<lparr>rx_dropped = 0, tx_packets = 4, tx_bytes = 5, handed = []\<rparr>)
        (replicate 60 7) 60
      = Inr (Some \<lparr>rx_dropped = 0, tx_packets = 5, tx_bytes = 65, handed = [skb']\<rparr>)"
proof -
  have a: "netdev_alloc_skb (room_api (\<lambda>s. 16)) 60 =
      Some \<lparr>tx_mem = replicate 124 0, tx_data = 64, tx_tail = 64\<rparr>" by (simp add: room_api_def)
  have x: "ndo_start_xmit (room_api (\<lambda>s. 16)) s = 16" for s by (simp add: room_api_def)
  show ?thesis
    using eth_tx_frame [OF room.skb_contract_axioms a, of "replicate 60 7"
        "\<lparr>rx_dropped = 0, tx_packets = 4, tx_bytes = 5, handed = []\<rparr>"]
    by (auto simp: x)
qed

text \<open>
  The copy of the device name stops at an at-sign or after 16 characters but not at the
  end of the string: it succeeds exactly when the memory behind the name has an at-sign or
  goes on for more than 16 bytes.  For a string literal with nothing behind it, such as
  \<open>"eth0"\<close>, it reads out of bounds.
\<close>

lemma device_name_lookup:
  "cpsw_get_device_by_name dev ifname =
     (if 0x40 \<in> set ifname \<or> 16 < length ifname
      then Inr (dev (cstring (take 16 (takeWhile (\<lambda>c. c \<noteq> 0x40) ifname))))
      else Inl OutOfBounds)"
  by (rule cpsw_lookup)

end
