(* ===== verification/Edma.thy ===== *)
theory Edma
  imports Prelude
begin

text \<open>
  The EDMA controller driver as the program uses it (\<open>edma.h\<close> of the kernel, not part of the
  repository): a record of functions on a controller state, the contract its documentation
  states for them, and an instance that meets the contract.
\<close>

section \<open>Parameter sets and calls\<close>

text \<open>One PaRAM entry of the controller: \<open>struct edmacc_param\<close>, its packed words split.\<close>

record edmacc_param =
  opt :: u32
  src :: u32
  dst :: u32
  acnt :: u16
  bcnt :: u16
  ccnt :: u16
  src_bidx :: u16
  src_cidx :: u16
  dst_bidx :: u16
  dst_cidx :: u16
  link_bcntrld :: u32

datatype sync_dimension = ASYNC | ABSYNC
datatype address_mode = INCR | FIFO_mode
datatype fifo_width = W8BIT | W16BIT | W32BIT
datatype ch_status = DMA_COMPLETE | DMA_CC_ERROR | Other_status u16

record 'e edma_api =
  edma_alloc_channel :: "int \<Rightarrow> u32 \<Rightarrow> 'e \<Rightarrow> 'e \<times> int"
  edma_alloc_slot :: "u32 \<Rightarrow> int \<Rightarrow> 'e \<Rightarrow> 'e \<times> int"
  edma_read_slot :: "int \<Rightarrow> 'e \<Rightarrow> edmacc_param"
  edma_write_slot :: "int \<Rightarrow> edmacc_param \<Rightarrow> 'e \<Rightarrow> 'e"
  edma_set_src :: "int \<Rightarrow> u32 \<Rightarrow> address_mode \<Rightarrow> fifo_width \<Rightarrow> 'e \<Rightarrow> 'e"
  edma_set_dest :: "int \<Rightarrow> u32 \<Rightarrow> address_mode \<Rightarrow> fifo_width \<Rightarrow> 'e \<Rightarrow> 'e"
  edma_set_src_index :: "int \<Rightarrow> u16 \<Rightarrow> u16 \<Rightarrow> 'e \<Rightarrow> 'e"
  edma_set_dest_index :: "int \<Rightarrow> u16 \<Rightarrow> u16 \<Rightarrow> 'e \<Rightarrow> 'e"
  edma_set_transfer_params :: "int \<Rightarrow> u16 \<Rightarrow> u16 \<Rightarrow> u16 \<Rightarrow> u16 \<Rightarrow> sync_dimension \<Rightarrow> 'e \<Rightarrow> 'e"
  edma_link :: "int \<Rightarrow> int \<Rightarrow> 'e \<Rightarrow> 'e"
  edma_start :: "int \<Rightarrow> 'e \<Rightarrow> 'e \<times> int"
  edma_stop :: "int \<Rightarrow> 'e \<Rightarrow> 'e"
  edma_free_channel :: "int \<Rightarrow> 'e \<Rightarrow> 'e"
  edma_free_slot :: "int \<Rightarrow> 'e \<Rightarrow> 'e"
  EDMA_CTLR :: "int \<Rightarrow> u32"
  EDMA_CHAN_SLOT :: "int \<Rightarrow> u32"
  EDMA_TCC :: "u32 \<Rightarrow> u32"
  TCINTEN :: u32
  EDMA_SLOT_ANY :: int
  EDMA_CHANNEL_ANY :: int

section \<open>The documented behaviour\<close>

text \<open>
  \<open>param e s\<close> is the PaRAM entry \<open>s\<close>, \<open>used e\<close> the channels and slots handed out.  The bits
  of \<open>opt\<close> a call owns are given by masks: source mode and width, destination mode and
  width, and the synchronisation bit.
\<close>

definition src_mode_mask :: u32 where "src_mode_mask = 0x701"
definition dst_mode_mask :: u32 where "dst_mode_mask = 0x702"
definition sync_bit :: u32 where "sync_bit = 4"

locale edma_contract =
  fixes api :: "'e edma_api"
    and param :: "'e \<Rightarrow> int \<Rightarrow> edmacc_param"
    and used :: "'e \<Rightarrow> int set"
    and slot_ok :: "int \<Rightarrow> bool"
  assumes read_slot: "slot_ok s \<Longrightarrow> edma_read_slot api s e = param e s"
    and write_slot: "slot_ok s \<Longrightarrow>
      param (edma_write_slot api s p e) t = (if t = s then p else param e t)"
    and set_src: "slot_ok s \<Longrightarrow> param (edma_set_src api s a INCR W8BIT e) t =
      (if t = s then (param e s)\<lparr>src := a, opt := opt (param e s) AND NOT src_mode_mask\<rparr> else param e t)"
    and set_dest: "slot_ok s \<Longrightarrow> param (edma_set_dest api s a INCR W8BIT e) t =
      (if t = s then (param e s)\<lparr>dst := a, opt := opt (param e s) AND NOT dst_mode_mask\<rparr> else param e t)"
    and set_src_index: "slot_ok s \<Longrightarrow> param (edma_set_src_index api s b c e) t =
      (if t = s then (param e s)\<lparr>src_bidx := b, src_cidx := c\<rparr> else param e t)"
    and set_dest_index: "slot_ok s \<Longrightarrow> param (edma_set_dest_index api s b c e) t =
      (if t = s then (param e s)\<lparr>dst_bidx := b, dst_cidx := c\<rparr> else param e t)"
    and set_transfer_params: "slot_ok s \<Longrightarrow>
      param (edma_set_transfer_params api s an bn cn rl mode e) t =
      (if t = s then (param e s)\<lparr>acnt := an, bcnt := bn, ccnt := cn,
          link_bcntrld := (link_bcntrld (param e s) AND 0xFFFF) OR push_bit 16 (ucast rl),
          opt := (case mode of ASYNC \<Rightarrow> opt (param e s) AND NOT sync_bit
                  | ABSYNC \<Rightarrow> opt (param e s) OR sync_bit)\<rparr>
       else param e t)"
    and used_params [simp]: "slot_ok s \<Longrightarrow> used (edma_write_slot api s p e) = used e"
      "used (edma_set_src api s x INCR W8BIT e) = used e" "used (edma_set_dest api s x INCR W8BIT e) = used e"
      "used (edma_set_src_index api s b c e) = used e" "used (edma_set_dest_index api s b c e) = used e"
      "used (edma_set_transfer_params api s an bn cn rl mode e) = used e"
      "used (edma_link api s t e) = used e" "used (fst (edma_start api s e)) = used e"
      "used (edma_stop api s e) = used e"
    and start_other: "t \<noteq> s \<Longrightarrow> param (fst (edma_start api s e)) t = param e t"
    and alloc_channel: "edma_alloc_channel api ch n e = (e', r) \<Longrightarrow>
      (r < 0 \<and> used e' = used e \<or> 0 \<le> r \<and> slot_ok r \<and> r \<notin> used e \<and> used e' = insert r (used e))
      \<and> param e' = param e"
    and alloc_slot: "edma_alloc_slot api k sl e = (e', r) \<Longrightarrow>
      (r < 0 \<and> used e' = used e \<or> 0 \<le> r \<and> slot_ok r \<and> r \<notin> used e \<and> used e' = insert r (used e))
      \<and> (\<forall>t. t \<noteq> r \<longrightarrow> param e' t = param e t)"
    and free_channel: "used (edma_free_channel api s e) = used e - {s}"
    and free_slot: "used (edma_free_slot api s e) = used e - {s}"

section \<open>A controller that meets the contract\<close>

text \<open>PaRAM entries as a function, and the list of entries in use, out of 256.\<close>

type_synonym edma_mem = "(int \<Rightarrow> edmacc_param) \<times> int list"

definition blank_param :: edmacc_param where
  "blank_param = \<lparr>opt = 0, src = 0, dst = 0, acnt = 0, bcnt = 0, ccnt = 0, src_bidx = 0,
     src_cidx = 0, dst_bidx = 0, dst_cidx = 0, link_bcntrld = 0xFFFF\<rparr>"

definition upd :: "int \<Rightarrow> (edmacc_param \<Rightarrow> edmacc_param) \<Rightarrow> edma_mem \<Rightarrow> edma_mem" where
  "upd s f e = ((fst e)(s := f (fst e s)), snd e)"

text \<open>The first unused entry from \<open>c\<close> on, if there is one.\<close>

fun first_free :: "nat \<Rightarrow> int \<Rightarrow> int list \<Rightarrow> int" where
  "first_free 0 c us = - 1"
| "first_free (Suc n) c us = (if c \<in> set us then first_free n (c + 1) us else c)"

definition mem_alloc :: "nat \<Rightarrow> int \<Rightarrow> edma_mem \<Rightarrow> edma_mem \<times> int" where
  "mem_alloc n c e =
     (let r = first_free n c (snd e)
      in if 0 \<le> r then ((fst e, r # snd e), r) else (e, r))"

definition edma_mem :: "edma_mem edma_api" where
  "edma_mem =
     \<lparr>edma_alloc_channel = (\<lambda>c n. if 0 \<le> c then mem_alloc 1 c else mem_alloc 64 0),
      edma_alloc_slot = (\<lambda>k c. mem_alloc 128 64),
      edma_read_slot = (\<lambda>s e. fst e s),
      edma_write_slot = (\<lambda>s p. upd s (\<lambda>_. p)),
      edma_set_src = (\<lambda>s a m w. upd s (\<lambda>p. p\<lparr>src := a, opt := opt p AND NOT src_mode_mask\<rparr>)),
      edma_set_dest = (\<lambda>s a m w. upd s (\<lambda>p. p\<lparr>dst := a, opt := opt p AND NOT dst_mode_mask\<rparr>)),
      edma_set_src_index = (\<lambda>s b c. upd s (\<lambda>p. p\<lparr>src_bidx := b, src_cidx := c\<rparr>)),
      edma_set_dest_index = (\<lambda>s b c. upd s (\<lambda>p. p\<lparr>dst_bidx := b, dst_cidx := c\<rparr>)),
      edma_set_transfer_params = (\<lambda>s a b c r mode. upd s (\<lambda>p. p\<lparr>acnt := a, bcnt := b, ccnt := c,
        link_bcntrld := (link_bcntrld p AND 0xFFFF) OR push_bit 16 (ucast r),
        opt := (case mode of ASYNC \<Rightarrow> opt p AND NOT sync_bit | ABSYNC \<Rightarrow> opt p OR sync_bit)\<rparr>)),
      edma_link = (\<lambda>s t. id),
      edma_start = (\<lambda>s e. (e, 0)),
      edma_stop = (\<lambda>s. id),
      edma_free_channel = (\<lambda>s e. (fst e, removeAll s (snd e))),
      edma_free_slot = (\<lambda>s e. (fst e, removeAll s (snd e))),
      EDMA_CTLR = (\<lambda>c. 0),
      EDMA_CHAN_SLOT = (\<lambda>c. word_of_int c AND 0xFFFF),
      EDMA_TCC = (\<lambda>c. push_bit 12 (c AND 0x3F)),
      TCINTEN = 0x100000,
      EDMA_SLOT_ANY = - 1,
      EDMA_CHANNEL_ANY = - 1\<rparr>"

lemma first_free_cases: "0 \<le> c \<Longrightarrow> first_free n c us = - 1 \<or> 0 \<le> first_free n c us \<and> first_free n c us \<notin> set us"
  by (induction n c us rule: first_free.induct) auto

lemma mem_alloc_cases:
  assumes "mem_alloc n c e = (e', r)" "0 \<le> c"
  shows "(r < 0 \<and> set (snd e') = set (snd e) \<or>
      0 \<le> r \<and> r \<notin> set (snd e) \<and> set (snd e') = insert r (set (snd e))) \<and> fst e' = fst e"
  using assms first_free_cases [of c n "snd e"]
  by (auto simp: mem_alloc_def Let_def split: if_splits)

interpretation edma_list: edma_contract edma_mem fst "\<lambda>e. set (snd e)" "\<lambda>s. 0 \<le> s"
proof unfold_locales
  fix c n k e e' r
  show "edma_alloc_channel edma_mem c n e = (e', r) \<Longrightarrow>
      (r < 0 \<and> set (snd e') = set (snd e) \<or>
       0 \<le> r \<and> 0 \<le> r \<and> r \<notin> set (snd e) \<and> set (snd e') = insert r (set (snd e))) \<and> fst e' = fst e"
    using mem_alloc_cases [of 1 c e e' r] mem_alloc_cases [of 64 0 e e' r]
    by (auto simp: edma_mem_def split: if_splits)
  show "edma_alloc_slot edma_mem k c e = (e', r) \<Longrightarrow>
      (r < 0 \<and> set (snd e') = set (snd e) \<or>
       0 \<le> r \<and> 0 \<le> r \<and> r \<notin> set (snd e) \<and> set (snd e') = insert r (set (snd e))) \<and>
      (\<forall>t. t \<noteq> r \<longrightarrow> fst e' t = fst e t)"
    using mem_alloc_cases [of 128 64 e e' r] by (auto simp: edma_mem_def)
qed (auto simp: edma_mem_def upd_def)

section \<open>What a transfer reads\<close>

text \<open>
  The source addresses of an AB-synchronised transfer: \<open>ccnt\<close> frames of \<open>bcnt\<close> arrays of
  \<open>acnt\<close> bytes, at the distances the indexes give.
\<close>

definition source_addresses :: "edmacc_param \<Rightarrow> nat set" where
  "source_addresses p =
     {unat (src p) + k * unat (src_cidx p) + j * unat (src_bidx p) + i | i j k.
        i < unat (acnt p) \<and> j < unat (bcnt p) \<and> k < unat (ccnt p)}"

text \<open>Packed arrays and frames cover a contiguous block.\<close>

lemma packed_block:
  assumes "0 < a" "0 < b"
  shows "{s + k * (a * b) + j * a + i | i j k. i < a \<and> j < b \<and> k < c} = {s ..< s + a * b * (c :: nat)}"
proof (intro equalityI subsetI)
  fix x assume "x \<in> {s + k * (a * b) + j * a + i | i j k. i < a \<and> j < b \<and> k < c}"
  then obtain i j k where x: "x = s + k * (a * b) + j * a + i" "i < a" "j < b" "k < c" by blast
  have "j * a + i < Suc j * a" using x by simp
  also have "\<dots> \<le> b * a" using x by (intro mult_le_mono1) simp
  finally have "k * (a * b) + j * a + i < Suc k * (a * b)" by (simp add: mult.commute)
  also have "\<dots> \<le> c * (a * b)" using x by (intro mult_le_mono1) simp
  finally show "x \<in> {s ..< s + a * b * c}" using x(1) by (simp add: ac_simps)
next
  fix x assume x: "x \<in> {s ..< s + a * b * c}"
  define d where "d = x - s"
  have d: "d < c * (a * b)" using x by (auto simp: d_def ac_simps)
  have "d = d div (a * b) * (a * b) + d mod (a * b)"
    "d mod (a * b) = d mod (a * b) div a * a + d mod (a * b) mod a"
    by (rule div_mult_mod_eq [symmetric])+
  then have "d = d div (a * b) * (a * b) + d mod (a * b) div a * a + d mod (a * b) mod a"
    by linarith
  moreover have "d mod (a * b) mod a < a" using assms by simp
  moreover have "d mod (a * b) div a < b"
    using assms by (metis mod_less_divisor less_mult_imp_div_less mult.commute nat_0_less_mult_iff)
  moreover have "d div (a * b) < c" using d by (rule less_mult_imp_div_less)
  moreover have "x = s + d" using x by (simp add: d_def)
  ultimately show "x \<in> {s + k * (a * b) + j * a + i | i j k. i < a \<and> j < b \<and> k < c}"
    by (intro CollectI exI [of _ "d mod (a * b) mod a"] exI [of _ "d mod (a * b) div a"]
        exI [of _ "d div (a * b)"]) linarith
qed

end
