(* ===== verification/Slic.thy ===== *)
theory Slic
  imports Prelude
begin

text \<open>
  The set-up of the audio path: \<open>drv/linux/Ab_arm_slicdrv.c\<close>.  The functions of the sound
  drivers it calls are outside the repository and their results are ignored; what the program
  does is the sequence of the calls, recorded in a log.
\<close>

section \<open>Calls into the sound drivers\<close>

datatype dai = Cpu_dai | Codec_dai
datatype trigger = SNDRV_PCM_TRIGGER_START | SNDRV_PCM_TRIGGER_STOP
datatype stream_event = SND_SOC_DAPM_STREAM_START | SND_SOC_DAPM_STREAM_STOP

text \<open>Substream and hardware parameters: the program only ever passes null pointers.\<close>

datatype ptr = Null_ptr

datatype snd_call =
    davinci_mcasp_startup ptr dai
  | davinci_mcasp_set_dai_fmt dai u32
  | davinci_mcasp_hw_params ptr ptr dai
  | aic3x_set_dai_fmt dai u32
  | aic3x_set_dai_sysclk dai u32 u32 u32
  | aic3x_hw_params
  | aic3x_mute dai bool
  | snd_soc_dapm_stream_event string stream_event
  | snd_soc_dai_digital_mute dai bool
  | davinci_mcasp_trigger ptr trigger dai

section \<open>The two set-up functions\<close>

definition Init_Arm_McASP_interface :: "snd_call list \<Rightarrow> snd_call list \<times> bool" where
  "Init_Arm_McASP_interface calls =
     (let rsubstream = Null_ptr; params = Null_ptr;
          c1 = calls @ [davinci_mcasp_startup rsubstream Cpu_dai];
          c2 = c1 @ [davinci_mcasp_set_dai_fmt Cpu_dai 0x1305];
          c3 = c2 @ [davinci_mcasp_hw_params rsubstream params Cpu_dai]
      in (c3, True))"

definition Init_Arm_AIC3106_low_level_codec_i2c :: "snd_call list \<Rightarrow> snd_call list \<times> bool" where
  "Init_Arm_AIC3106_low_level_codec_i2c calls =
     (let c1 = calls @ [aic3x_set_dai_fmt Codec_dai 0x1305];
          c2 = c1 @ [aic3x_set_dai_sysclk Codec_dai 0x0 0x16e3600 0x1];
          c3 = c2 @ [aic3x_hw_params];
          c4 = c3 @ [aic3x_mute Codec_dai False]
      in (c4, True))"

text \<open>
  Both ends of the audio link must be told the same format before they run: the last format
  word given to each end.
\<close>

fun cpu_format :: "snd_call list \<Rightarrow> u32 option" where
  "cpu_format [] = None"
| "cpu_format (c # cs) =
     (case cpu_format cs of
        Some f \<Rightarrow> Some f
      | None \<Rightarrow> (case c of davinci_mcasp_set_dai_fmt d f \<Rightarrow> Some f | _ \<Rightarrow> None))"

fun codec_format :: "snd_call list \<Rightarrow> u32 option" where
  "codec_format [] = None"
| "codec_format (c # cs) =
     (case codec_format cs of
        Some f \<Rightarrow> Some f
      | None \<Rightarrow> (case c of aic3x_set_dai_fmt d f \<Rightarrow> Some f | _ \<Rightarrow> None))"

lemma cpu_format_append:
  "cpu_format (xs @ ys) = (case cpu_format ys of Some f \<Rightarrow> Some f | None \<Rightarrow> cpu_format xs)"
  by (induction xs) (auto split: option.splits)

lemma codec_format_append:
  "codec_format (xs @ ys) = (case codec_format ys of Some f \<Rightarrow> Some f | None \<Rightarrow> codec_format xs)"
  by (induction xs) (auto split: option.splits)

lemmas format_appends = cpu_format_append codec_format_append

end
