(* ===== verification/Dma_Player.thy ===== *)
theory Dma_Player
  imports Voice_Fifo Edma Slic
begin

text \<open>
  The player: \<open>drv/linux/Ab_arm_dmadrv.c\<close>.  A timer takes voice data out of the FIFO and moves
  a counter on; every completed DMA transfer queues the next period of the playback buffer, at
  the offset the counter gives.
\<close>

section \<open>State\<close>

text \<open>
  \<open>dmab_slic\<close> points to a descriptor with the device address of the playback buffer: there is none, it
  has been freed, it is live together with the buffer and its memory, or it is live and the pages
  of the buffer have been freed.  The last five fields are the static variables of \<open>get_data_array\<close>.
\<close>

datatype dma_buffer = No_buffer | Freed_buffer | Buffer (addr: u32) (area: "byte list") | Freed_pages (addr: u32)

record 'e player =
  edma :: 'e
  dma_channel :: int
  dma_slot :: int
  array_current_smeschenie_dma :: int
  dmab_slic :: dma_buffer
  timer1_read :: "u32 option"         \<comment> \<open>milliseconds to expiry; \<open>None\<close>: not pending\<close>
  snd_log :: "snd_call list"
  start_flag :: u32
  mcasp_count_voice_iter_dma :: u32
  mcasp_count_voice_iter_cpu :: u32
  mcasp_count_voice_iter_g711_ulaw :: u32
  period_count_voice_iter_dma :: u32

definition PERIOD_SIZE :: u32 where "PERIOD_SIZE = 4000"
definition i_size_dma_block_data :: nat where "i_size_dma_block_data = 64000"

text \<open>Reading \<open>dmab_slic->addr\<close>: the descriptor has to be live, the pages are not touched.\<close>

fun descriptor :: "dma_buffer \<Rightarrow> u32 res" where
  "descriptor (Buffer a m) = Inr a"
| "descriptor (Freed_pages a) = Inr a"
| "descriptor b = Inl NullPointer"

section \<open>The timer\<close>

text \<open>The counters at the head of \<open>get_data_array\<close>.\<close>

definition advance_counters :: "'e player \<Rightarrow> 'e player" where
  "advance_counters p =
     (let p1 = p\<lparr>mcasp_count_voice_iter_dma := mcasp_count_voice_iter_dma p + 1,
                 mcasp_count_voice_iter_cpu := mcasp_count_voice_iter_cpu p + 1,
                 mcasp_count_voice_iter_g711_ulaw := mcasp_count_voice_iter_g711_ulaw p + 1\<rparr>;
          p2 = (if start_flag p1 = 0 then
                  p1\<lparr>mcasp_count_voice_iter_dma := 0, mcasp_count_voice_iter_cpu := 0,
                     period_count_voice_iter_dma := 0, start_flag := start_flag p1 + 1\<rparr>
                else p1);
          p3 = (if mcasp_count_voice_iter_dma p2 = 16 then
                  p2\<lparr>mcasp_count_voice_iter_dma := 0,
                     period_count_voice_iter_dma := 64000 + period_count_voice_iter_dma p2\<rparr>
                else p2);
          p4 = (if mcasp_count_voice_iter_cpu p3 = 4 then p3\<lparr>mcasp_count_voice_iter_cpu := 0\<rparr>
                else p3)
      in p4\<lparr>array_current_smeschenie_dma := sint (mcasp_count_voice_iter_dma p4 * PERIOD_SIZE)\<rparr>)"

text \<open>
  \<open>get_data_array\<close> reads \<open>dmab_slic\<close>, advances the counters and fetches up to 4000 bytes from
  the FIFO into a local array.  The statements that copied the array on are commented out, and
  the function has no \<open>return\<close>.
\<close>

definition get_data_array :: "'q kfifo_api \<Rightarrow> 'q option \<Rightarrow> 'e player \<Rightarrow> ('q option \<times> 'e player) res" where
  "get_data_array kapi test p =
     bindR (descriptor (dmab_slic p)) (\<lambda>dma_src.
     let p1 = advance_counters p
     in (case test of
           None \<Rightarrow> Inl NullPointer
         | Some q \<Rightarrow>
             bindR (voice_buf_get_data_in_rtp_stream1 kapi q (replicate 4000 0) 4000)
               (\<lambda>(q', in_buf_rtp_dir1, get_from_fifo_bytes). Inr (Some q', p1))))"

definition timer1_routine :: "'q kfifo_api \<Rightarrow> 'q option \<Rightarrow> 'e player \<Rightarrow> ('q option \<times> 'e player) res" where
  "timer1_routine kapi test p =
     bindR (get_data_array kapi test p) (\<lambda>(test', p'). Inr (test', p'\<lparr>timer1_read := Some 40\<rparr>))"

section \<open>The transfers\<close>

definition enqueue_dma :: "'e edma_api \<Rightarrow> 'e player \<Rightarrow> 'e player res" where
  "enqueue_dma api p =
     bindR (descriptor (dmab_slic p)) (\<lambda>dma_src.
     let dma_offset = word_of_int (array_current_smeschenie_dma p) :: u32;
         dma_pos = dma_src + dma_offset;
         fifo_level = 0x20 :: u32;
         data_type = 0x2 :: u32;
         count = PERIOD_SIZE div data_type;
         count = (if fifo_level \<noteq> 0 then count div fifo_level else count);
         src = dma_pos;
         dst = 0x46400000;
         src_bidx = ucast data_type;
         dst_bidx = 0;
         src_cidx = ucast (data_type * fifo_level);
         dst_cidx = 0;
         acnt = 0x2;
         s = dma_slot p;
         e1 = edma_set_src api s src INCR W8BIT (edma p);
         e2 = edma_set_dest api s dst INCR W8BIT e1;
         e3 = edma_set_src_index api s src_bidx src_cidx e2;
         e4 = edma_set_dest_index api s dst_bidx dst_cidx e3;
         e5 = (if fifo_level = 0 then edma_set_transfer_params api s acnt (ucast count) 1 0 ASYNC e4
               else edma_set_transfer_params api s acnt (ucast fifo_level) (ucast count)
                      (ucast fifo_level) ABSYNC e4)
     in Inr (p\<lparr>edma := e5\<rparr>))"

definition callback1 :: "'e edma_api \<Rightarrow> ch_status \<Rightarrow> 'e player \<Rightarrow> 'e player res" where
  "callback1 api ch_status p =
     (if ch_status \<noteq> DMA_COMPLETE then Inr p else enqueue_dma api p)"

text \<open>Interrupt, completion code and link of a parameter set.\<close>

definition set_opt_link :: "'e edma_api \<Rightarrow> int \<Rightarrow> int \<Rightarrow> edmacc_param \<Rightarrow> edmacc_param" where
  "set_opt_link api channel slot par =
     par\<lparr>opt := opt par OR TCINTEN api OR EDMA_TCC api (EDMA_CHAN_SLOT api channel),
         link_bcntrld := push_bit 5 (EDMA_CHAN_SLOT api slot)\<rparr>"

definition dma_request :: "'e edma_api \<Rightarrow> 'e player \<Rightarrow> 'e player" where
  "dma_request api p =
     (let (e1, channel) = edma_alloc_channel api 0xa 0x2 (edma p);
          (e2, slot) = edma_alloc_slot api (EDMA_CTLR api channel) (EDMA_SLOT_ANY api) e1;
          edma_par = set_opt_link api channel slot (edma_read_slot api slot e2);
          e3 = edma_write_slot api slot edma_par e2
      in p\<lparr>edma := e3, dma_channel := channel, dma_slot := slot\<rparr>)"

text \<open>
  In \<open>dma_prepare\<close> the fields of the uninitialised \<open>edma_par\<close> are changed before
  \<open>edma_read_slot\<close> overwrites all of it: what is written to the channel is what was read.
\<close>

definition dma_prepare :: "'e edma_api \<Rightarrow> 'e player \<Rightarrow> 'e player res" where
  "dma_prepare api p =
     bindR (enqueue_dma api p) (\<lambda>p1.
     let edma_par = edma_read_slot api (dma_slot p1) (edma p1);
         p2 = p1\<lparr>edma := edma_write_slot api (dma_channel p1) edma_par (edma p1)\<rparr>
     in enqueue_dma api p2)"

definition dma_trigger :: "'e edma_api \<Rightarrow> 'e player \<Rightarrow> 'e player" where
  "dma_trigger api p = (let (e1, ret) = edma_start api (dma_channel p) (edma p) in p\<lparr>edma := e1\<rparr>)"

section \<open>Set-up and removal\<close>

text \<open>
  What the kernel hands to \<open>Init_Arm_EDMA_interface\<close>: whether there is a PCM device, whether
  the descriptor and the pages could be allocated, and where.  The return type is \<open>bool\<close>, so
  \<open>-ENOMEM\<close> is returned as true.
\<close>

record dma_env =
  has_pcm :: bool
  descriptor_ok :: bool
  pages :: "(u32 \<times> byte list) option"

definition log_call :: "snd_call \<Rightarrow> 'e player \<Rightarrow> 'e player" where
  "log_call c p = p\<lparr>snd_log := snd_log p @ [c]\<rparr>"

definition Init_Arm_EDMA_interface :: "'e edma_api \<Rightarrow> dma_env \<Rightarrow> 'e player \<Rightarrow> ('e player \<times> bool) res" where
  "Init_Arm_EDMA_interface api env p =
     (let p1 = dma_request api p
      in if \<not> descriptor_ok env then Inr (p1\<lparr>dmab_slic := No_buffer\<rparr>, True)
         else if \<not> has_pcm env then Inl NullPointer
         else case pages env of
           None \<Rightarrow> Inr (p1\<lparr>dmab_slic := Freed_buffer\<rparr>, True)
         | Some (dma_addr, dma_area) \<Rightarrow>
             bindR (dma_prepare api (p1\<lparr>dmab_slic := Buffer dma_addr dma_area\<rparr>)) (\<lambda>p2.
             let p3 = log_call (snd_soc_dapm_stream_event ''Playback'' SND_SOC_DAPM_STREAM_START) p2;
                 p4 = log_call (snd_soc_dai_digital_mute Codec_dai False) p3;
                 p5 = dma_trigger api p4;
                 p6 = log_call (davinci_mcasp_trigger Null_ptr SNDRV_PCM_TRIGGER_START Cpu_dai) p5
             in Inr (p6\<lparr>timer1_read := Some 1250\<rparr>, True)))"

definition Clear_Arm_EDMA_interface :: "'e edma_api \<Rightarrow> dma_env \<Rightarrow> 'e player \<Rightarrow> ('e player \<times> bool) res" where
  "Clear_Arm_EDMA_interface api env p =
     (let p1 = p\<lparr>timer1_read := None\<rparr>;
          p2 = log_call (davinci_mcasp_trigger Null_ptr SNDRV_PCM_TRIGGER_STOP Cpu_dai) p1
      in if \<not> has_pcm env then Inl NullPointer
         else let p3 = log_call (snd_soc_dapm_stream_event ''Playback'' SND_SOC_DAPM_STREAM_STOP) p2
           in case dmab_slic p3 of
                Buffer dma_addr dma_area \<Rightarrow>
                  let p4 = p3\<lparr>dmab_slic := Freed_pages dma_addr\<rparr>;
                      p5 = p4\<lparr>edma := edma_free_channel api (dma_channel p4) (edma p4)\<rparr>;
                      p6 = p5\<lparr>edma := edma_free_slot api (dma_slot p5) (edma p5)\<rparr>
                  in Inr (p6, True)
              | _ \<Rightarrow> Inl NullPointer)"

section \<open>Counters and offsets\<close>

text \<open>The counters stay below their limits and the offset is the start of a period.\<close>

definition counters_ok :: "'e player \<Rightarrow> bool" where
  "counters_ok p \<longleftrightarrow> mcasp_count_voice_iter_dma p < 16 \<and> mcasp_count_voice_iter_cpu p < 4
     \<and> (start_flag p = 0 \<or> start_flag p = 1)
     \<and> array_current_smeschenie_dma p = 4000 * uint (mcasp_count_voice_iter_dma p)"

lemma small_words:
  "(w :: u32) < 16 \<Longrightarrow> w + 1 = 16 \<or> w + 1 < 16" "(w :: u32) < 4 \<Longrightarrow> w + 1 = 4 \<or> w + 1 < 4"
proof -
  have s: "uint (w + 1) = uint w + 1" if "uint w < 100" for w :: u32
    using that by (simp add: uint_word_ariths)
  show "(w :: u32) < 16 \<Longrightarrow> w + 1 = 16 \<or> w + 1 < 16"
    using s [of w] by (auto simp: word_less_def word_uint_eq_iff)
  show "(w :: u32) < 4 \<Longrightarrow> w + 1 = 4 \<or> w + 1 < 4"
    using s [of w] by (auto simp: word_less_def word_uint_eq_iff)
qed

lemma sint_offset:
  assumes "(w :: u32) < 16"
  shows "sint (w * PERIOD_SIZE) = 4000 * uint w"
proof -
  have w: "uint w < 16" using assms by (simp add: word_less_def)
  then have u: "uint (w * PERIOD_SIZE) = 4000 * uint w"
    by (simp add: PERIOD_SIZE_def uint_word_ariths)
  have "sint (w * PERIOD_SIZE) = signed_take_bit 31 (uint (w * PERIOD_SIZE))"
    by (simp add: sint_uint)
  also have "\<dots> = uint (w * PERIOD_SIZE)"
  proof (rule signed_take_bit_int_eq_self)
    show "- (2 ^ 31) \<le> uint (w * PERIOD_SIZE)" by (rule order_trans [of _ 0]) simp_all
    show "uint (w * PERIOD_SIZE) < 2 ^ 31" using u w by simp
  qed
  finally show ?thesis using u by simp
qed

lemma advance_counters_ok:
  assumes "counters_ok p"
  shows "counters_ok (advance_counters p)"
proof -
  have c: "mcasp_count_voice_iter_dma p < 16" "mcasp_count_voice_iter_cpu p < 4"
    "start_flag p = 0 \<or> start_flag p = 1" using assms by (auto simp: counters_ok_def)
  show ?thesis
    using small_words [of "mcasp_count_voice_iter_dma p"] small_words [of "mcasp_count_voice_iter_cpu p"] c
    by (auto simp: advance_counters_def Let_def counters_ok_def sint_offset sint_offset [of 0, simplified])
qed

lemma advance_counters_frame [simp]:
  "edma (advance_counters p) = edma p" "dma_channel (advance_counters p) = dma_channel p"
  "dma_slot (advance_counters p) = dma_slot p" "dmab_slic (advance_counters p) = dmab_slic p"
  "snd_log (advance_counters p) = snd_log p" "timer1_read (advance_counters p) = timer1_read p"
  by (simp_all add: advance_counters_def Let_def)

text \<open>The period in play, counted from the first tick.\<close>

definition tick_state :: "nat \<Rightarrow> 'e player \<Rightarrow> bool" where
  "tick_state n p \<longleftrightarrow>
     (if n = 0 then start_flag p = 0
      else start_flag p = 1 \<and> uint (mcasp_count_voice_iter_dma p) = int ((n - 1) mod 16))"

lemma advance_tick:
  assumes "tick_state n p" "counters_ok p"
  shows "tick_state (Suc n) (advance_counters p)"
proof (cases "n = 0")
  case True
  then show ?thesis using assms by (simp add: tick_state_def advance_counters_def Let_def)
next
  case False
  let ?w = "mcasp_count_voice_iter_dma p"
  have s: "start_flag p = 1" and w: "uint ?w = int ((n - 1) mod 16)"
    using assms False by (auto simp: tick_state_def)
  have u: "uint (?w + 1) = uint ?w + 1" using w by (simp add: uint_word_ariths)
  have "uint (mcasp_count_voice_iter_dma (advance_counters p)) = (if uint ?w = 15 then 0 else uint ?w + 1)"
    using s u by (auto simp: advance_counters_def Let_def word_uint_eq_iff)
  moreover have "start_flag (advance_counters p) = 1"
    using s by (simp add: advance_counters_def Let_def)
  moreover have "(if int ((n - 1) mod 16) = 15 then 0 else int ((n - 1) mod 16) + 1) = int (n mod 16)"
  proof -
    obtain m where "n = Suc m" using False by (cases n) auto
    then show ?thesis using mod_Suc [of m 16] by auto
  qed
  ultimately show ?thesis using w by (auto simp: tick_state_def split: if_splits)
qed

section \<open>What a transfer is set up to do\<close>

text \<open>The PaRAM entry \<open>enqueue_dma\<close> leaves behind, for the source position \<open>pos\<close>.\<close>

definition period_entry :: "u32 \<Rightarrow> edmacc_param \<Rightarrow> edmacc_param" where
  "period_entry pos par =
     par\<lparr>src := pos, dst := 0x46400000, src_bidx := 2, src_cidx := 64, dst_bidx := 0, dst_cidx := 0,
        acnt := 2, bcnt := 32, ccnt := 62,
        link_bcntrld := (link_bcntrld par AND 0xFFFF) OR 0x200000,
        opt := ((opt par AND NOT src_mode_mask) AND NOT dst_mode_mask) OR sync_bit\<rparr>"

lemma period_entry_reads:
  "source_addresses (period_entry pos par) = {unat pos ..< unat pos + 3968}"
  using packed_block [of 2 32 "unat pos" 62] by (simp add: source_addresses_def period_entry_def)

definition buffer_ok :: "dma_buffer \<Rightarrow> bool" where
  "buffer_ok b = (case b of
     Buffer a m \<Rightarrow> unat a + i_size_dma_block_data \<le> 2 ^ 32 \<and> length m = i_size_dma_block_data
   | _ \<Rightarrow> False)"

lemma dma_position:
  assumes "buffer_ok (Buffer a m)" "counters_ok p"
  shows "unat (a + word_of_int (array_current_smeschenie_dma p)) = unat a + 4000 * unat (mcasp_count_voice_iter_dma p)"
    "unat a + 4000 * unat (mcasp_count_voice_iter_dma p) + 4000 \<le> unat a + 64000"
proof -
  let ?k = "mcasp_count_voice_iter_dma p"
  have k: "unat ?k < 16" using assms(2) by (simp add: counters_ok_def word_less_nat_alt)
  have o: "array_current_smeschenie_dma p = int (4000 * unat ?k)" using assms(2) by (simp add: counters_ok_def)
  have "unat (word_of_int (array_current_smeschenie_dma p) :: u32) = 4000 * unat ?k"
    unfolding o using k by (simp only: of_int_of_nat_eq) (simp add: unat_word_ariths)
  then show "unat (a + word_of_int (array_current_smeschenie_dma p)) = unat a + 4000 * unat ?k"
    using assms(1) k by (simp add: unat_word_ariths buffer_ok_def i_size_dma_block_data_def)
  show "unat a + 4000 * unat ?k + 4000 \<le> unat a + 64000" using k by simp
qed

context edma_contract begin

lemma enqueue_param:
  assumes "descriptor (dmab_slic p) = Inr a" "slot_ok (dma_slot p)"
  shows "\<exists>e'. enqueue_dma api p = Inr (p\<lparr>edma := e'\<rparr>)
    \<and> param e' = (param (edma p))(dma_slot p :=
        period_entry (a + word_of_int (array_current_smeschenie_dma p)) (param (edma p) (dma_slot p)))
    \<and> used e' = used (edma p)"
proof -
  note laws = set_src set_dest set_src_index set_dest_index set_transfer_params
  let ?s = "dma_slot p"
  define e' where "e' = edma_set_transfer_params api ?s 2 32 62 32 ABSYNC
    (edma_set_dest_index api ?s 0 0 (edma_set_src_index api ?s 2 64
    (edma_set_dest api ?s 0x46400000 INCR W8BIT (edma_set_src api ?s
      (a + word_of_int (array_current_smeschenie_dma p)) INCR W8BIT (edma p)))))"
  have "enqueue_dma api p = Inr (p\<lparr>edma := e'\<rparr>)"
    using assms(1) by (simp add: enqueue_dma_def Let_def PERIOD_SIZE_def e'_def)
  moreover have "param e' = (param (edma p))(?s :=
      period_entry (a + word_of_int (array_current_smeschenie_dma p)) (param (edma p) ?s))"
    unfolding e'_def period_entry_def using assms(2) by (intro ext) (simp add: laws)
  moreover have "used e' = used (edma p)" by (simp add: e'_def)
  ultimately show ?thesis by blast
qed

lemma callback_param:
  assumes "descriptor (dmab_slic p) = Inr a" "slot_ok (dma_slot p)"
  shows "\<exists>e'. callback1 api DMA_COMPLETE p = Inr (p\<lparr>edma := e'\<rparr>)
    \<and> param e' = (param (edma p))(dma_slot p :=
        period_entry (a + word_of_int (array_current_smeschenie_dma p)) (param (edma p) (dma_slot p)))
    \<and> used e' = used (edma p)"
  using enqueue_param [OF assms] by (simp add: callback1_def)

text \<open>Channel and slot after a successful request.\<close>

lemma dma_request_ok:
  assumes "0 \<le> dma_channel (dma_request api p)" "0 \<le> dma_slot (dma_request api p)"
  defines "p' \<equiv> dma_request api p"
  shows "slot_ok (dma_channel p')" "slot_ok (dma_slot p')" "dma_channel p' \<noteq> dma_slot p'"
    "dma_channel p' \<notin> used (edma p)" "dma_slot p' \<notin> used (edma p)"
    "used (edma p') = {dma_channel p', dma_slot p'} \<union> used (edma p)"
    "\<exists>par. param (edma p') (dma_slot p') = set_opt_link api (dma_channel p') (dma_slot p') par"
    "p' = p\<lparr>edma := edma p', dma_channel := dma_channel p', dma_slot := dma_slot p'\<rparr>"
proof -
  obtain e1 ch where c: "edma_alloc_channel api 0xa 0x2 (edma p) = (e1, ch)" by fastforce
  obtain e2 sl where s: "edma_alloc_slot api (EDMA_CTLR api ch) (EDMA_SLOT_ANY api) e1 = (e2, sl)"
    by fastforce
  have p': "p' = p\<lparr>edma := edma_write_slot api sl (set_opt_link api ch sl (edma_read_slot api sl e2)) e2,
      dma_channel := ch, dma_slot := sl\<rparr>"
    by (simp add: p'_def dma_request_def c s)
  have pos: "0 \<le> ch" "0 \<le> sl" using assms(1,2) unfolding p'_def [symmetric] unfolding p' by simp_all
  then have a: "slot_ok ch" "ch \<notin> used (edma p)" "used e1 = insert ch (used (edma p))"
    "slot_ok sl" "sl \<notin> used e1" "used e2 = insert sl (used e1)"
    using alloc_channel [OF c] alloc_slot [OF s] by auto
  have f: "dma_channel p' = ch" "dma_slot p' = sl"
    "edma p' = edma_write_slot api sl (set_opt_link api ch sl (edma_read_slot api sl e2)) e2"
    by (simp_all add: p')
  show "slot_ok (dma_channel p')" "slot_ok (dma_slot p')" "dma_channel p' \<noteq> dma_slot p'"
    "dma_channel p' \<notin> used (edma p)" "dma_slot p' \<notin> used (edma p)"
    unfolding f using a by auto
  show "used (edma p') = {dma_channel p', dma_slot p'} \<union> used (edma p)"
    unfolding f using a by auto
  show "\<exists>par. param (edma p') (dma_slot p') = set_opt_link api (dma_channel p') (dma_slot p') par"
    unfolding f using a(4) by (intro exI) (simp add: write_slot)
  show "p' = p\<lparr>edma := edma p', dma_channel := dma_channel p', dma_slot := dma_slot p'\<rparr>"
    unfolding f by (rule p')
qed

text \<open>Channel and slot describe the same period, and the slot reloads itself.\<close>

lemma dma_prepare_ok:
  assumes "dmab_slic p = Buffer a m" "slot_ok (dma_slot p)" "slot_ok (dma_channel p)"
    "dma_channel p \<noteq> dma_slot p"
  defines "pos \<equiv> a + word_of_int (array_current_smeschenie_dma p)"
  shows "\<exists>e'. dma_prepare api p = Inr (p\<lparr>edma := e'\<rparr>) \<and> used e' = used (edma p)
    \<and> param e' (dma_channel p) = period_entry pos (param (edma p) (dma_slot p))
    \<and> param e' (dma_slot p) = period_entry pos (period_entry pos (param (edma p) (dma_slot p)))"
proof -
  obtain e1 where e1: "enqueue_dma api p = Inr (p\<lparr>edma := e1\<rparr>)" "used e1 = used (edma p)"
    "param e1 = (param (edma p))(dma_slot p := period_entry pos (param (edma p) (dma_slot p)))"
    using enqueue_param [OF _ assms(2), of a] assms(1) unfolding pos_def by auto
  define p2 where "p2 = p\<lparr>edma := edma_write_slot api (dma_channel p) (edma_read_slot api (dma_slot p) e1) e1\<rparr>"
  have d: "dmab_slic p2 = Buffer a m" "slot_ok (dma_slot p2)" using assms by (simp_all add: p2_def)
  obtain e2 where e2: "enqueue_dma api p2 = Inr (p2\<lparr>edma := e2\<rparr>)" "used e2 = used (edma p2)"
    "param e2 = (param (edma p2))(dma_slot p := period_entry pos (param (edma p2) (dma_slot p)))"
    using enqueue_param [OF _ d(2), of a] d(1) unfolding pos_def by (auto simp: p2_def)
  have "dma_prepare api p = Inr (p\<lparr>edma := e2\<rparr>)"
    using e1(1) e2(1) by (simp add: dma_prepare_def p2_def Let_def)
  moreover have "used e2 = used (edma p)"
    using e1(2) e2(2) assms(3) by (simp add: p2_def)
  moreover have "param (edma p2) (dma_channel p) = period_entry pos (param (edma p) (dma_slot p))"
    "param (edma p2) (dma_slot p) = period_entry pos (param (edma p) (dma_slot p))"
    using e1(3) assms(2-4) by (simp_all add: p2_def write_slot read_slot)
  then have "param e2 (dma_channel p) = period_entry pos (param (edma p) (dma_slot p))"
    "param e2 (dma_slot p) = period_entry pos (period_entry pos (param (edma p) (dma_slot p)))"
    using e2(3) assms(4) by simp_all
  ultimately show ?thesis by (intro exI [of _ e2]) simp
qed

end

lemma period_entry_twice:
  "period_entry pos (period_entry pos par) = period_entry pos par"
proof -
  have "((l AND 0xFFFF) OR 0x200000) AND 0xFFFF OR 0x200000 = (l AND 0xFFFF) OR (0x200000 :: u32)" for l
    by (rule bit_word_eqI) (auto simp: bit_simps)
  moreover have "((((r AND NOT src_mode_mask) AND NOT dst_mode_mask) OR sync_bit) AND NOT src_mode_mask)
      AND NOT dst_mode_mask OR sync_bit = ((r AND NOT src_mode_mask) AND NOT dst_mode_mask) OR sync_bit" for r
    by (rule bit_word_eqI) (auto simp: bit_simps)
  ultimately show ?thesis by (simp add: period_entry_def)
qed

section \<open>Ticks\<close>

fun ticks :: "'q kfifo_api \<Rightarrow> nat \<Rightarrow> 'q option \<Rightarrow> 'e player \<Rightarrow> ('q option \<times> 'e player) res" where
  "ticks kapi 0 test p = Inr (test, p)"
| "ticks kapi (Suc n) test p =
     bindR (ticks kapi n test p) (\<lambda>(test', p'). timer1_routine kapi test' p')"

context kfifo_contract begin

lemma timer_ok:
  assumes "dmab_slic p = Buffer a m" "valid q"
  shows "\<exists>q'. timer1_routine api (Some q) p = Inr (Some q', (advance_counters p)\<lparr>timer1_read := Some 40\<rparr>)
    \<and> valid q' \<and> capacity q' = capacity q \<and> contents q' = drop 4000 (contents q)"
  using voice_get [OF assms(2), of 4000 "replicate 4000 0"] assms(1)
  by (auto simp: timer1_routine_def get_data_array_def Let_def)

lemma ticks_ok:
  assumes "dmab_slic p = Buffer a m" "valid q" "counters_ok p" "tick_state 0 p"
  shows "\<exists>q' p'. ticks api n (Some q) p = Inr (Some q', p') \<and> dmab_slic p' = dmab_slic p
    \<and> counters_ok p' \<and> tick_state n p' \<and> valid q' \<and> contents q' = drop (4000 * n) (contents q)"
proof (induction n)
  case (Suc n)
  then obtain q1 p1 where 1: "ticks api n (Some q) p = Inr (Some q1, p1)" "dmab_slic p1 = dmab_slic p"
    "counters_ok p1" "tick_state n p1" "valid q1" "contents q1 = drop (4000 * n) (contents q)" by blast
  obtain q2 where 2: "timer1_routine api (Some q1) p1 =
      Inr (Some q2, (advance_counters p1)\<lparr>timer1_read := Some 40\<rparr>)"
    "valid q2" "contents q2 = drop 4000 (contents q1)"
    using timer_ok [of p1 a m q1] 1(2,5) assms(1) by auto
  have "counters_ok (advance_counters p1)" "tick_state (Suc n) (advance_counters p1)"
    using 1(3,4) by (simp_all add: advance_counters_ok advance_tick)
  then show ?case
    using 1 2 by (simp add: counters_ok_def tick_state_def add.commute)
qed (use assms in simp)

end

section \<open>Properties of the player\<close>

text \<open>
  Every completed transfer queues the current period: the reload entry is set to read 3968
  bytes from the start of the period, which lie inside the playback buffer, and to write to
  the McASP data port; no other entry and nothing else of the player changes.  The last 32
  bytes of the 4000-byte period are never sent, because 2000 samples are not a multiple of
  the FIFO level of 32.
\<close>

lemma dma_period_in_bounds:
  assumes "edma_contract api param used slot_ok"
    and "dmab_slic p = Buffer a m" "buffer_ok (dmab_slic p)" "counters_ok p" "slot_ok (dma_slot p)"
  shows "\<exists>e'. callback1 api DMA_COMPLETE p = Inr (p\<lparr>edma := e'\<rparr>)
    \<and> (\<forall>t. t \<noteq> dma_slot p \<longrightarrow> param e' t = param (edma p) t)
    \<and> dst (param e' (dma_slot p)) = 0x46400000
    \<and> source_addresses (param e' (dma_slot p)) =
        (let s = unat a + 4000 * unat (mcasp_count_voice_iter_dma p) in {s ..< s + 3968})
    \<and> source_addresses (param e' (dma_slot p)) \<subseteq> {unat a ..< unat a + length m}"
proof -
  let ?s = "unat a + 4000 * unat (mcasp_count_voice_iter_dma p)"
  have b: "buffer_ok (Buffer a m)" "length m = 64000"
    using assms(2,3) by (simp_all add: buffer_ok_def i_size_dma_block_data_def)
  note pos = dma_position [OF b(1) assms(4)]
  obtain e' where e': "callback1 api DMA_COMPLETE p = Inr (p\<lparr>edma := e'\<rparr>)"
    "param e' = (param (edma p))(dma_slot p :=
        period_entry (a + word_of_int (array_current_smeschenie_dma p)) (param (edma p) (dma_slot p)))"
    using edma_contract.callback_param [OF assms(1) _ assms(5), of a] assms(2) by auto
  then have "source_addresses (param e' (dma_slot p)) = {?s ..< ?s + 3968}"
    by (simp add: period_entry_reads pos(1))
  moreover have "dst (param e' (dma_slot p)) = 0x46400000" using e'(2) by (simp add: period_entry_def)
  ultimately show ?thesis using e' pos(2) b(2) by (intro exI [of _ e']) (auto simp: Let_def)
qed

definition demo_player :: "edma_mem player" where
  "demo_player = \<lparr>edma = (\<lambda>s. blank_param, []), dma_channel = 10, dma_slot = 64,
     array_current_smeschenie_dma = 8000, dmab_slic = Buffer 0x80000000 (replicate 64000 0),
     timer1_read = Some 40, snd_log = [], start_flag = 1, mcasp_count_voice_iter_dma = 2,
     mcasp_count_voice_iter_cpu = 2, mcasp_count_voice_iter_g711_ulaw = 3,
     period_count_voice_iter_dma = 0\<rparr>"

lemma demo_player_ok:
  "dmab_slic demo_player = Buffer 0x80000000 (replicate 64000 0)"
  "buffer_ok (dmab_slic demo_player)" "counters_ok demo_player" "0 \<le> dma_slot demo_player"
  by (simp_all add: demo_player_def buffer_ok_def i_size_dma_block_data_def counters_ok_def)

lemma dma_period_in_bounds_witness:
  "\<exists>e'. callback1 edma_mem DMA_COMPLETE demo_player = Inr (demo_player\<lparr>edma := e'\<rparr>)
    \<and> source_addresses (fst e' 64) = {0x80000000 + 8000 ..< 0x80000000 + 8000 + 3968}"
proof -
  have d: "dma_slot demo_player = 64" "mcasp_count_voice_iter_dma demo_player = 2"
    by (simp_all add: demo_player_def)
  show ?thesis
    using dma_period_in_bounds [OF edma_list.edma_contract_axioms demo_player_ok]
    unfolding d by (auto simp: Let_def)
qed

text \<open>
  The timer drains the FIFO on schedule: after \<open>n\<close> ticks from the initial counters, 4000 n
  bytes have been taken from its front, and the transfer offset is period \<open>n - 1\<close> modulo 16.
  The playback buffer is unchanged: the bytes taken are discarded, they never reach the DMA.
\<close>

lemma player_schedule:
  assumes "kfifo_contract kapi contents capacity valid"
    and "dmab_slic p = Buffer a m" "valid q" "counters_ok p" "start_flag p = 0"
  shows "\<exists>q' p'. ticks kapi n (Some q) p = Inr (Some q', p')
    \<and> contents q' = drop (4000 * n) (contents q) \<and> dmab_slic p' = dmab_slic p
    \<and> (0 < n \<longrightarrow> array_current_smeschenie_dma p' = 4000 * int ((n - 1) mod 16))"
proof -
  obtain q' p' where r: "ticks kapi n (Some q) p = Inr (Some q', p')" "dmab_slic p' = dmab_slic p"
    "counters_ok p'" "tick_state n p'" "contents q' = drop (4000 * n) (contents q)"
    using kfifo_contract.ticks_ok [OF assms(1-4), of n] assms(5) by (auto simp: tick_state_def)
  then have "0 < n \<longrightarrow> array_current_smeschenie_dma p' = 4000 * int ((n - 1) mod 16)"
    by (auto simp: counters_ok_def tick_state_def)
  with r show ?thesis by blast
qed

lemma player_schedule_witness:
  "\<exists>q' p'. ticks list_kfifo 18 (Some ([1, 2, 3], 8192)) (demo_player\<lparr>start_flag := 0\<rparr>) = Inr (Some q', p')
    \<and> fst q' = [] \<and> array_current_smeschenie_dma p' = 4000"
proof -
  have d: "dmab_slic (demo_player\<lparr>start_flag := 0\<rparr>) = Buffer 0x80000000 (replicate 64000 0)"
    "counters_ok (demo_player\<lparr>start_flag := 0\<rparr>)" "start_flag (demo_player\<lparr>start_flag := 0\<rparr>) = 0"
    by (simp_all add: demo_player_def counters_ok_def)
  have v: "list_kfifo_valid ([1, 2, 3], 8192)" by (simp add: list_kfifo_valid_def)
  show ?thesis
    using player_schedule [OF list_fifo.kfifo_contract_axioms d(1) v d(2,3), of 18] by auto
qed

text \<open>
  Request and preparation of the channel: when the controller has a channel and a slot,
  both are new and distinct, both entries describe the first period, and they link to the
  slot, so that the slot reloads itself after every period.
\<close>

lemma dma_setup:
  assumes "edma_contract api param used slot_ok" and p1_def: "p1 = dma_request api p"
    and "0 \<le> dma_channel p1" "0 \<le> dma_slot p1"
  shows "\<exists>e par. dma_prepare api (p1\<lparr>dmab_slic := Buffer a m\<rparr>) = Inr (p1\<lparr>dmab_slic := Buffer a m, edma := e\<rparr>)
    \<and> dma_channel p1 \<noteq> dma_slot p1 \<and> used e - used (edma p) = {dma_channel p1, dma_slot p1}
    \<and> param e (dma_channel p1) = period_entry (a + word_of_int (array_current_smeschenie_dma p))
        (set_opt_link api (dma_channel p1) (dma_slot p1) par)
    \<and> param e (dma_slot p1) = param e (dma_channel p1)"
proof -
  note r = edma_contract.dma_request_ok [OF assms(1) assms(3,4) [unfolded p1_def], folded p1_def]
  obtain par where par: "param (edma p1) (dma_slot p1) = set_opt_link api (dma_channel p1) (dma_slot p1) par"
    using r(7) by blast
  let ?p = "p1\<lparr>dmab_slic := Buffer a m\<rparr>"
  have o: "array_current_smeschenie_dma p1 = array_current_smeschenie_dma p"
    using r(8) by (metis player.select_convs(4) player.surjective player.update_convs(1,2,3))
  have d: "dmab_slic ?p = Buffer a m" "slot_ok (dma_slot ?p)" "slot_ok (dma_channel ?p)"
    "dma_channel ?p \<noteq> dma_slot ?p" using r(1-3) by simp_all
  obtain e where e: "dma_prepare api ?p = Inr (?p\<lparr>edma := e\<rparr>)" "used e = used (edma ?p)"
    "param e (dma_channel ?p) = period_entry (a + word_of_int (array_current_smeschenie_dma ?p))
       (param (edma ?p) (dma_slot ?p))"
    "param e (dma_slot ?p) = period_entry (a + word_of_int (array_current_smeschenie_dma ?p))
       (period_entry (a + word_of_int (array_current_smeschenie_dma ?p)) (param (edma ?p) (dma_slot ?p)))"
    using edma_contract.dma_prepare_ok [OF assms(1) d] by blast
  show ?thesis
    using e r(3-6) par o by (intro exI [of _ e] exI [of _ par]) (auto simp: period_entry_twice)
qed

lemma first_free_hit: "0 < n \<Longrightarrow> c \<notin> set us \<Longrightarrow> first_free n c us = c"
  by (cases n) auto

lemma demo_request:
  "dma_channel (dma_request edma_mem demo_player) = 10" "dma_slot (dma_request edma_mem demo_player) = 64"
  by (simp_all add: dma_request_def edma_mem_def demo_player_def mem_alloc_def first_free_hit Let_def)

lemma dma_setup_witness:
  "\<exists>e. dma_prepare edma_mem ((dma_request edma_mem demo_player)\<lparr>dmab_slic := Buffer 0x80000000 []\<rparr>)
      = Inr ((dma_request edma_mem demo_player)\<lparr>dmab_slic := Buffer 0x80000000 [], edma := e\<rparr>)
    \<and> src (fst e 10) = 0x80000000 + 8000 \<and> fst e 64 = fst e 10"
proof -
  note d = demo_request
  have o: "array_current_smeschenie_dma demo_player = 8000" by (simp add: demo_player_def)
  obtain e par where e: "dma_prepare edma_mem ((dma_request edma_mem demo_player)\<lparr>dmab_slic := Buffer 0x80000000 []\<rparr>)
      = Inr ((dma_request edma_mem demo_player)\<lparr>dmab_slic := Buffer 0x80000000 [], edma := e\<rparr>)"
    "fst e 10 = period_entry (0x80000000 + word_of_int 8000) (set_opt_link edma_mem 10 64 par)"
    "fst e 64 = fst e 10"
    using dma_setup [OF edma_list.edma_contract_axioms refl, of demo_player "0x80000000" "[]"]
    unfolding d o by auto
  show ?thesis by (intro exI [of _ e] conjI e(1,3)) (simp add: e(2) period_entry_def)
qed

text \<open>
  C34: set-up and removal keep the controller's books when the set-up works: afterwards exactly
  the channels and slots in use before are in use again.  When the memory is refused, the
  function returns true all the same (\<open>-ENOMEM\<close> as a \<open>bool\<close>), the channel and the slot stay
  taken, the timer is not armed, and removal then goes through a dead pointer.
\<close>

theorem dma_resources:
  assumes "edma_contract api param used slot_ok" "has_pcm env"
    and "0 \<le> dma_channel (dma_request api p)" "0 \<le> dma_slot (dma_request api p)"
  shows "if descriptor_ok env \<and> pages env \<noteq> None
     then \<exists>p' p''. Init_Arm_EDMA_interface api env p = Inr (p', True) \<and> timer1_read p' = Some 1250
       \<and> Clear_Arm_EDMA_interface api env p' = Inr (p'', True) \<and> timer1_read p'' = None
       \<and> used (edma p'') = used (edma p)
     else \<exists>p'. Init_Arm_EDMA_interface api env p = Inr (p', True) \<and> timer1_read p' = timer1_read p
       \<and> used (edma p') = {dma_channel p', dma_slot p'} \<union> used (edma p)
       \<and> Clear_Arm_EDMA_interface api env p' = Inl NullPointer"
proof -
  define p1 where "p1 = dma_request api p"
  note r = edma_contract.dma_request_ok [OF assms(1,3,4), folded p1_def]
  have t: "timer1_read p1 = timer1_read p"
    by (simp add: p1_def dma_request_def split_beta Let_def)
  show ?thesis
  proof (cases "descriptor_ok env \<and> pages env \<noteq> None")
    case False
    have c: "Clear_Arm_EDMA_interface api env p' = Inl NullPointer"
      if "dmab_slic p' = No_buffer \<or> dmab_slic p' = Freed_buffer" for p' :: "'a player"
      using that assms(2) by (auto simp: Clear_Arm_EDMA_interface_def Let_def log_call_def)
    define b where "b = (if descriptor_ok env then Freed_buffer else No_buffer)"
    have "Init_Arm_EDMA_interface api env p = Inr (p1\<lparr>dmab_slic := b\<rparr>, True)"
      using False assms(2) by (cases "pages env") (auto simp: Init_Arm_EDMA_interface_def Let_def b_def simp flip: p1_def)
    moreover have "Clear_Arm_EDMA_interface api env (p1\<lparr>dmab_slic := b\<rparr>) = Inl NullPointer"
      by (rule c) (simp add: b_def)
    ultimately show ?thesis unfolding if_not_P [OF False]
      using r(6) t by (intro exI [of _ "p1\<lparr>dmab_slic := b\<rparr>"]) simp
  next
    case True
    then obtain a m where am: "pages env = Some (a, m)" "descriptor_ok env" by auto
    let ?p = "p1\<lparr>dmab_slic := Buffer a m\<rparr>"
    have d: "dmab_slic ?p = Buffer a m" "slot_ok (dma_slot ?p)" "slot_ok (dma_channel ?p)"
      "dma_channel ?p \<noteq> dma_slot ?p" using r(1-3) by simp_all
    obtain e where e: "dma_prepare api ?p = Inr (?p\<lparr>edma := e\<rparr>)" "used e = used (edma ?p)"
      using edma_contract.dma_prepare_ok [OF assms(1) d] by blast
    have u: "used (fst (edma_start api (dma_channel p1) e)) - {dma_channel p1} - {dma_slot p1} = used (edma p)"
      using e(2) r(4-6) by (auto simp: edma_contract.used_params(8) [OF assms(1)])
    show ?thesis
      using True assms(2) am e(1) u
      by (simp add: Init_Arm_EDMA_interface_def Clear_Arm_EDMA_interface_def Let_def log_call_def
          dma_trigger_def split_beta edma_contract.free_channel [OF assms(1)]
          edma_contract.free_slot [OF assms(1)] flip: p1_def)
  qed
qed

theorem dma_resources_witness:
  "\<exists>p'. Init_Arm_EDMA_interface edma_mem \<lparr>has_pcm = True, descriptor_ok = False, pages = None\<rparr> demo_player
      = Inr (p', True)
    \<and> Clear_Arm_EDMA_interface edma_mem \<lparr>has_pcm = True, descriptor_ok = False, pages = None\<rparr> p'
      = Inl NullPointer"
proof -
  note d = demo_request
  show ?thesis
    using dma_resources [OF edma_list.edma_contract_axioms,
        of "\<lparr>has_pcm = True, descriptor_ok = False, pages = None\<rparr>" demo_player]
    unfolding d by auto
qed

end
