(* ===== verification/Driver_Module.thy ===== *)
theory Driver_Module
  imports Net_Hook Eth_Tx Dma_Player
begin

text \<open>
  The kernel module as a whole: loading and unloading (\<open>Ab_arm_init_module\<close>,
  \<open>Ab_arm_cleanup_module\<close> of \<open>drv/linux/Ab_arm_maindrv.c\<close>) and, in between, the events the
  kernel delivers in any order: packets to the hooks, expiry of the timer, DMA interrupts.
\<close>

section \<open>State and environment\<close>

record ('q, 'e) driver =
  ip_hook :: bool             \<comment> \<open>\<open>bundle\<close> is registered\<close>
  arp_hook :: bool            \<comment> \<open>\<open>arp_bundle\<close> is registered\<close>
  hook :: "'q hook_state"
  play :: "'e player"
  cpsw0_dev :: "netdev option"
  cpsw1_dev :: "netdev option"

text \<open>What the kernel provides to the module.\<close>

record ('q, 'e) kernel =
  kfifo :: "'q kfifo_api"
  edma3 :: "'e edma_api"
  dma :: dma_env
  kmalloc :: "nat \<Rightarrow> byte list option"
  netdevs :: "byte list \<Rightarrow> netdev option"
  ifname0 :: "byte list"
  ifname1 :: "byte list"

section \<open>Loading and unloading\<close>

definition Init_Net_Filter_HooK_IP :: "('q, 'e) driver \<Rightarrow> ('q, 'e) driver \<times> int" where
  "Init_Net_Filter_HooK_IP d = (d\<lparr>ip_hook := True\<rparr>, 1)"

definition Init_Net_Filter_Hook_ARP :: "('q, 'e) driver \<Rightarrow> ('q, 'e) driver \<times> int" where
  "Init_Net_Filter_Hook_ARP d = (d\<lparr>arp_hook := True\<rparr>, 1)"

definition set_fifo :: "'q option \<Rightarrow> ('q, 'e) driver \<Rightarrow> ('q, 'e) driver" where
  "set_fifo f d = d\<lparr>hook := (hook d)\<lparr>voice := (voice (hook d))\<lparr>fifo := f\<rparr>\<rparr>\<rparr>"

definition set_codec :: "codec_state \<Rightarrow> ('q, 'e) driver \<Rightarrow> ('q, 'e) driver" where
  "set_codec c d = d\<lparr>hook := (hook d)\<lparr>voice := (voice (hook d))\<lparr>codec := c\<rparr>\<rparr>\<rparr>"

definition set_log :: "snd_call list \<Rightarrow> ('q, 'e) driver \<Rightarrow> ('q, 'e) driver" where
  "set_log l d = d\<lparr>play := (play d)\<lparr>snd_log := l\<rparr>\<rparr>"

definition Ab_arm_init_module :: "('q, 'e) kernel \<Rightarrow> ('q, 'e) driver \<Rightarrow> (('q, 'e) driver \<times> int) res" where
  "Ab_arm_init_module k d =
     (let (d1, r1) = Init_Net_Filter_HooK_IP d;
          (d2, r2) = Init_Net_Filter_Hook_ARP d1
      in bindR (Init_Arm_CPSW_MAC_Ethernet (netdevs k) (ifname0 k) (ifname1 k)) (\<lambda>(dev0, dev1, r3).
         let d3 = d2\<lparr>cpsw0_dev := dev0, cpsw1_dev := dev1\<rparr>;
             d4 = set_fifo (Init_FIFO_voice_rtp_buf (kfifo k)) d3;
             d5 = set_log (fst (Init_Arm_AIC3106_low_level_codec_i2c (snd_log (play d4)))) d4;
             d6 = set_log (fst (Init_Arm_McASP_interface (snd_log (play d5)))) d5;
             d7 = set_codec (Init_audio_codecs (kmalloc k) (codec (voice (hook d6)))) d6
         in bindR (Init_Arm_EDMA_interface (edma3 k) (dma k) (play d7)) (\<lambda>(p, r4).
            Inr (d7\<lparr>play := p\<rparr>, 0))))"

definition Ab_arm_cleanup_module :: "('q, 'e) kernel \<Rightarrow> ('q, 'e) driver \<Rightarrow> ('q, 'e) driver res" where
  "Ab_arm_cleanup_module k d =
     (let d1 = d\<lparr>ip_hook := False\<rparr>;
          d2 = d1\<lparr>arp_hook := False\<rparr>
      in bindR (Clear_Arm_EDMA_interface (edma3 k) (dma k) (play d2)) (\<lambda>(p, r).
         let d3 = d2\<lparr>play := p\<rparr>;
             d4 = set_fifo (Clear_FIFO_voice_rtp_buf (fifo (voice (hook d3)))) d3;
             d5 = set_codec (Clear_audio_codec (codec (voice (hook d4)))) d4
         in Inr d5))"

section \<open>Events\<close>

datatype event = Ip_packet skb | Arp_frame skb | Timer_expiry | Dma_irq ch_status

definition driver_event :: "('q, 'e) kernel \<Rightarrow> event \<Rightarrow> ('q, 'e) driver \<Rightarrow> ('q, 'e) driver res" where
  "driver_event k ev d =
     (case ev of
        Ip_packet skb \<Rightarrow>
          if ip_hook d then bindR (Hook_Func (kfifo k) skb (hook d)) (\<lambda>(h, v). Inr (d\<lparr>hook := h\<rparr>))
          else Inr d
      | Arp_frame skb \<Rightarrow>
          if arp_hook d then bindR (Hook_Func_ARP skb (hook d)) (\<lambda>(h, v). Inr (d\<lparr>hook := h\<rparr>))
          else Inr d
      | Timer_expiry \<Rightarrow>
          if timer1_read (play d) = None then Inr d
          else bindR (timer1_routine (kfifo k) (fifo (voice (hook d))) (play d)) (\<lambda>(f, p).
               Inr ((set_fifo f d)\<lparr>play := p\<rparr>))
      | Dma_irq st \<Rightarrow> bindR (callback1 (edma3 k) st (play d)) (\<lambda>p. Inr (d\<lparr>play := p\<rparr>)))"

definition event_ok :: "event \<Rightarrow> bool" where
  "event_ok ev = (case ev of Ip_packet skb \<Rightarrow> arrival_ok skb | _ \<Rightarrow> True)"

text \<open>The states a sequence of events leads to, and one step of it.\<close>

inductive driver_step :: "('q, 'e) kernel \<Rightarrow> ('q, 'e) driver \<Rightarrow> event \<Rightarrow> ('q, 'e) driver \<Rightarrow> bool"
  for k where
  step: "event_ok ev \<Longrightarrow> driver_event k ev d = Inr d' \<Longrightarrow> driver_step k d ev d'"

inductive reachable :: "('q, 'e) kernel \<Rightarrow> ('q, 'e) driver \<Rightarrow> ('q, 'e) driver \<Rightarrow> bool"
  for k d0 where
  start: "reachable k d0 d0"
| next_event: "reachable k d0 d \<Longrightarrow> driver_step k d ev d' \<Longrightarrow> reachable k d0 d'"

inductive_simps driver_step_iff: "driver_step k d ev d'"
inductive_cases reachableE: "reachable k d0 d"

section \<open>The invariant of the running module\<close>

text \<open>
  The reload entry reads inside the playback buffer and writes to the McASP port; the FIFO and
  the codec buffer are there; the counters are in range.
\<close>

definition entry_ok :: "dma_buffer \<Rightarrow> edmacc_param \<Rightarrow> bool" where
  "entry_ok b par \<longleftrightarrow> (case b of
     Buffer a m \<Rightarrow> source_addresses par \<subseteq> {unat a ..< unat a + length m} \<and> dst par = 0x46400000
   | _ \<Rightarrow> False)"

definition running ::
  "('q \<Rightarrow> bool) \<Rightarrow> ('e \<Rightarrow> int \<Rightarrow> edmacc_param) \<Rightarrow> (int \<Rightarrow> bool) \<Rightarrow> ('q, 'e) driver \<Rightarrow> bool" where
  "running valid param slot_ok d \<longleftrightarrow>
     voice_ready valid (voice (hook d)) \<and> counters_ok (play d) \<and> buffer_ok (dmab_slic (play d))
     \<and> slot_ok (dma_slot (play d)) \<and> slot_ok (dma_channel (play d))
     \<and> entry_ok (dmab_slic (play d)) (param (edma (play d)) (dma_slot (play d)))"

lemma buffer_cases:
  assumes "buffer_ok b"
  obtains a m where "b = Buffer a m"
  using assms by (cases b) (auto simp: buffer_ok_def)

lemma period_entry_ok:
  assumes "buffer_ok (Buffer a m)" "counters_ok p"
  shows "entry_ok (Buffer a m) (period_entry (a + word_of_int (array_current_smeschenie_dma p)) par)"
  using dma_position [OF assms] assms(1)
  by (auto simp: entry_ok_def period_entry_reads buffer_ok_def i_size_dma_block_data_def)
    (simp add: period_entry_def)

locale driver_contract =
  fifo_c: kfifo_contract "kfifo k" contents capacity valid +
  dma_c: edma_contract "edma3 k" param used slot_ok
  for k :: "('q, 'e) kernel" and contents :: "'q \<Rightarrow> byte list" and capacity valid
    and param :: "'e \<Rightarrow> int \<Rightarrow> edmacc_param" and used slot_ok
begin

lemma packet_keeps:
  assumes "running valid param slot_ok d" "arrival_ok skb"
  shows "\<exists>d'. driver_event k (Ip_packet skb) d = Inr d' \<and> running valid param slot_ok d' \<and> play d' = play d"
proof -
  have r: "voice_ready valid (voice (hook d))" using assms(1) by (simp add: running_def)
  then obtain q where "fifo (voice (hook d)) = Some q" by (auto simp: voice_ready_def)
  then obtain h where "Hook_Func (kfifo k) skb (hook d) = Inr (h, frame_verdict (mac_header skb))"
    "voice_ready valid (voice h)"
    using fifo_c.hook_step [OF r _ assms(2)] by blast
  then show ?thesis using assms(1) by (simp add: driver_event_def running_def)
qed

lemma timer_keeps:
  assumes "running valid param slot_ok d"
  shows "\<exists>d'. driver_event k Timer_expiry d = Inr d' \<and> running valid param slot_ok d'"
proof -
  obtain q where q: "fifo (voice (hook d)) = Some q" "valid q"
    using assms by (auto simp: running_def voice_ready_def)
  obtain a m where b: "dmab_slic (play d) = Buffer a m"
    using assms buffer_cases by (auto simp: running_def)
  obtain q' where t: "timer1_routine (kfifo k) (Some q) (play d) =
      Inr (Some q', (advance_counters (play d))\<lparr>timer1_read := Some 40\<rparr>)" "valid q'"
    using fifo_c.timer_ok [OF b q(2)] by blast
  have "counters_ok ((advance_counters (play d))\<lparr>timer1_read := Some 40\<rparr>)"
    using advance_counters_ok [of "play d"] assms by (simp add: running_def counters_ok_def)
  then show ?thesis
    using assms q t by (auto simp: driver_event_def running_def set_fifo_def voice_ready_def)
qed

lemma irq_keeps:
  assumes "running valid param slot_ok d"
  shows "\<exists>d'. driver_event k (Dma_irq st) d = Inr d' \<and> running valid param slot_ok d'"
proof (cases "st = DMA_COMPLETE")
  case False
  then show ?thesis using assms by (simp add: driver_event_def callback1_def)
next
  case True
  obtain a m where b: "dmab_slic (play d) = Buffer a m"
    using assms buffer_cases by (auto simp: running_def)
  have r: "slot_ok (dma_slot (play d))" "buffer_ok (Buffer a m)" "counters_ok (play d)"
    using assms b by (simp_all add: running_def)
  obtain e where e: "callback1 (edma3 k) DMA_COMPLETE (play d) = Inr ((play d)\<lparr>edma := e\<rparr>)"
    "param e = (param (edma (play d)))(dma_slot (play d) :=
      period_entry (a + word_of_int (array_current_smeschenie_dma (play d)))
        (param (edma (play d)) (dma_slot (play d))))"
    using dma_c.callback_param [OF _ r(1), of a] b by auto
  have "counters_ok ((play d)\<lparr>edma := e\<rparr>)" using r(3) by (simp add: counters_ok_def)
  then show ?thesis
    using assms e True period_entry_ok [OF r(2,3)] b
    by (simp add: driver_event_def running_def)
qed

lemma event_keeps:
  assumes "running valid param slot_ok d" "event_ok ev"
  shows "\<exists>d'. driver_event k ev d = Inr d' \<and> running valid param slot_ok d'"
proof (cases ev)
  case (Ip_packet skb)
  then show ?thesis using packet_keeps [OF assms(1)] assms(2) by (auto simp: event_ok_def)
next
  case (Arp_frame skb)
  then show ?thesis using assms(1) by (simp add: driver_event_def Hook_Func_ARP_def)
qed (use timer_keeps [OF assms(1)] irq_keeps [OF assms(1)] in blast)+

lemma reachable_running:
  assumes "reachable k d0 d" "running valid param slot_ok d0"
  shows "running valid param slot_ok d"
  using assms
proof (induction rule: reachable.induct)
  case (next_event d ev d')
  then show ?case using event_keeps [of d ev] by (auto simp: driver_step_iff)
qed

lemma reachable_used:
  assumes "reachable k d0 d" "running valid param slot_ok d0"
  shows "used (edma (play d)) = used (edma (play d0)) \<and> dma_channel (play d) = dma_channel (play d0)
    \<and> dma_slot (play d) = dma_slot (play d0)"
  using assms
proof (induction rule: reachable.induct)
  case (next_event d ev d')
  have r: "running valid param slot_ok d" using reachable_running next_event by blast
  then obtain a m where b: "dmab_slic (play d) = Buffer a m" and s: "slot_ok (dma_slot (play d))"
    using buffer_cases by (auto simp: running_def)
  have e: "driver_event k ev d = Inr d'" using next_event.hyps by (simp add: driver_step_iff)
  have "used (edma (play d')) = used (edma (play d)) \<and> dma_channel (play d') = dma_channel (play d)
    \<and> dma_slot (play d') = dma_slot (play d)"
  proof (cases ev)
    case (Dma_irq st)
    obtain e' where c: "callback1 (edma3 k) DMA_COMPLETE (play d) = Inr ((play d)\<lparr>edma := e'\<rparr>)"
      "used e' = used (edma (play d))"
      using dma_c.callback_param [OF _ s, of a] b by auto
    show ?thesis
    proof (cases "st = DMA_COMPLETE")
      case True
      have "Inr d' = (Inr (d\<lparr>play := (play d)\<lparr>edma := e'\<rparr>\<rparr>) :: ('q, 'e) driver res)"
        unfolding e [symmetric] Dma_irq True by (simp add: driver_event_def c(1))
      then have "d' = d\<lparr>play := (play d)\<lparr>edma := e'\<rparr>\<rparr>" by simp
      then show ?thesis using c(2) by simp
    next
      case False
      then show ?thesis using e Dma_irq by (auto simp: driver_event_def callback1_def)
    qed
  next
    case (Ip_packet skb)
    then show ?thesis using e by (auto simp: driver_event_def bindR_eq_Inr split: if_splits)
  next
    case (Arp_frame skb)
    then show ?thesis using e by (auto simp: driver_event_def Hook_Func_ARP_def split: if_splits)
  next
    case Timer_expiry
    obtain q where q: "fifo (voice (hook d)) = Some q" "valid q"
      using r by (auto simp: running_def voice_ready_def)
    obtain q' where "timer1_routine (kfifo k) (Some q) (play d) =
        Inr (Some q', (advance_counters (play d))\<lparr>timer1_read := Some 40\<rparr>)"
      using fifo_c.timer_ok [OF b q(2)] by blast
    then show ?thesis using e q(1) Timer_expiry by (auto simp: driver_event_def set_fifo_def split: if_splits)
  qed
  with next_event show ?case by simp
qed simp

end

section \<open>Loading under good conditions\<close>

definition names_ok :: "('q, 'e) kernel \<Rightarrow> bool" where
  "names_ok k \<longleftrightarrow> (\<forall>n \<in> {ifname0 k, ifname1 k}. 0x40 \<in> set n \<or> 16 < length n)"

definition initial :: "('q, 'e) driver \<Rightarrow> bool" where
  "initial d \<longleftrightarrow> counters_ok (play d) \<and> start_flag (play d) = 0 \<and> snd_log (play d) = []
     \<and> array_current_smeschenie_dma (play d) = 0 \<and> not_ready (voice (hook d))"

definition loadable :: "('q, 'e) kernel \<Rightarrow> ('q, 'e) driver \<Rightarrow> bool" where
  "loadable k d \<longleftrightarrow> names_ok k \<and> initial d
     \<and> (\<exists>q. kfifo_alloc (kfifo k) 8192 = Some q)
     \<and> (\<exists>b. kmalloc k 4380 = Some b \<and> length b = 4380)
     \<and> has_pcm (dma k) \<and> descriptor_ok (dma k)
     \<and> (\<exists>a m. pages (dma k) = Some (a, m) \<and> buffer_ok (Buffer a m))
     \<and> 0 \<le> dma_channel (dma_request (edma3 k) (play d)) \<and> 0 \<le> dma_slot (dma_request (edma3 k) (play d))"

text \<open>The calls into the sound drivers up to the start of the DMA, and behind it.\<close>

definition audio_setup :: "snd_call list" where
  "audio_setup =
     [aic3x_set_dai_fmt Codec_dai 0x1305, aic3x_set_dai_sysclk Codec_dai 0x0 0x16e3600 0x1,
      aic3x_hw_params, aic3x_mute Codec_dai False,
      davinci_mcasp_startup Null_ptr Cpu_dai, davinci_mcasp_set_dai_fmt Cpu_dai 0x1305,
      davinci_mcasp_hw_params Null_ptr Null_ptr Cpu_dai,
      snd_soc_dapm_stream_event ''Playback'' SND_SOC_DAPM_STREAM_START,
      snd_soc_dai_digital_mute Codec_dai False,
      davinci_mcasp_trigger Null_ptr SNDRV_PCM_TRIGGER_START Cpu_dai]"

text \<open>The state when \<open>Init_Arm_EDMA_interface\<close> is called.\<close>

lemma init_reduce:
  assumes "names_ok k"
  shows "\<exists>dev0 dev1. Ab_arm_init_module k d =
    (let d7 = d\<lparr>ip_hook := True, arp_hook := True, cpsw0_dev := dev0, cpsw1_dev := dev1,
        hook := (hook d)\<lparr>voice := \<lparr>codec = Init_audio_codecs (kmalloc k) (codec (voice (hook d))),
                                   fifo = kfifo_alloc (kfifo k) 8192\<rparr>\<rparr>,
        play := (play d)\<lparr>snd_log := snd_log (play d) @ take 7 audio_setup\<rparr>\<rparr>
     in bindR (Init_Arm_EDMA_interface (edma3 k) (dma k) (play d7)) (\<lambda>(p, r). Inr (d7\<lparr>play := p\<rparr>, 0)))"
proof -
  obtain dev0 dev1 where n: "Init_Arm_CPSW_MAC_Ethernet (netdevs k) (ifname0 k) (ifname1 k) = Inr (dev0, dev1, True)"
    using assms by (auto simp: Init_Arm_CPSW_MAC_Ethernet_def cpsw_lookup names_ok_def)
  have v: "v\<lparr>fifo := f, codec := c\<rparr> = \<lparr>codec = c, fifo = f\<rparr>" for v :: "'a voice_state" and f c
    by (cases v) simp
  show ?thesis
    by (rule exI [of _ dev0], rule exI [of _ dev1])
      (simp add: n v Ab_arm_init_module_def Init_Net_Filter_HooK_IP_def
        Init_Net_Filter_Hook_ARP_def set_fifo_def set_log_def set_codec_def Init_FIFO_voice_rtp_buf_def
        FIFO_SIZE_def Init_Arm_AIC3106_low_level_codec_i2c_def Init_Arm_McASP_interface_def Let_def
        audio_setup_def)
qed

context driver_contract begin

lemma edma_init_ok:
  assumes env: "has_pcm (dma k)" "descriptor_ok (dma k)" "pages (dma k) = Some (a, m)"
    and b: "buffer_ok (Buffer a m)"
    and p: "counters_ok p" "start_flag p = 0" "array_current_smeschenie_dma p = 0"
    and pos: "0 \<le> dma_channel (dma_request (edma3 k) p)" "0 \<le> dma_slot (dma_request (edma3 k) p)"
  shows "\<exists>p' par. Init_Arm_EDMA_interface (edma3 k) (dma k) p = Inr (p', True)
    \<and> counters_ok p' \<and> start_flag p' = 0 \<and> array_current_smeschenie_dma p' = 0
    \<and> dmab_slic p' = Buffer a m \<and> slot_ok (dma_slot p') \<and> slot_ok (dma_channel p')
    \<and> param (edma p') (dma_slot p') = period_entry a par
    \<and> timer1_read p' = Some 1250 \<and> snd_log p' = snd_log p @ drop 7 audio_setup
    \<and> used (edma p') = {dma_channel p', dma_slot p'} \<union> used (edma p)
    \<and> {dma_channel p', dma_slot p'} \<inter> used (edma p) = {}"
proof -
  define p1 where "p1 = dma_request (edma3 k) p"
  note r = dma_c.dma_request_ok [of p, folded p1_def, OF pos [folded p1_def]]
  have p1: "counters_ok p1" "snd_log p1 = snd_log p" "array_current_smeschenie_dma p1 = 0" "start_flag p1 = 0"
    using p by (simp_all add: p1_def dma_request_def Let_def split_beta counters_ok_def)
  let ?p = "p1\<lparr>dmab_slic := Buffer a m\<rparr>"
  have d: "dmab_slic ?p = Buffer a m" "slot_ok (dma_slot ?p)" "slot_ok (dma_channel ?p)"
    "dma_channel ?p \<noteq> dma_slot ?p" using r(1-3) by simp_all
  obtain e par where e: "dma_prepare (edma3 k) ?p = Inr (?p\<lparr>edma := e\<rparr>)" "used e = used (edma ?p)"
    "param e (dma_slot ?p) = period_entry a par"
    using dma_c.dma_prepare_ok [OF d] p1(3) by auto
  define e2 where "e2 = fst (edma_start (edma3 k) (dma_channel p1) e)"
  define p2 where "p2 = ?p\<lparr>edma := e2, snd_log := snd_log p @ drop 7 audio_setup, timer1_read := Some 1250\<rparr>"
  have i: "Init_Arm_EDMA_interface (edma3 k) (dma k) p = Inr (p2, True)"
    using env e(1) p1(2)
    by (simp add: Init_Arm_EDMA_interface_def log_call_def dma_trigger_def split_beta Let_def
        p2_def e2_def audio_setup_def flip: p1_def)
  have u: "used e2 = {dma_channel p1, dma_slot p1} \<union> used (edma p)"
    using e(2) r(6) by (simp add: e2_def dma_c.used_params)
  have q: "param e2 (dma_slot p1) = period_entry a par"
    using dma_c.start_other [of "dma_slot p1" "dma_channel p1" e] r(3) e(3) by (simp add: e2_def)
  have "counters_ok p2" using p1(1) by (simp add: p2_def counters_ok_def)
  with i show ?thesis
    using u q r(1,2,4,5) p1 by (intro exI [of _ p2] exI [of _ par]) (simp add: p2_def)
qed

lemma init_running:
  assumes "loadable k d"
  shows "\<exists>d'. Ab_arm_init_module k d = Inr (d', 0) \<and> running valid param slot_ok d'
    \<and> ip_hook d' \<and> arp_hook d' \<and> timer1_read (play d') = Some 1250 \<and> snd_log (play d') = audio_setup
    \<and> used (edma (play d')) = {dma_channel (play d'), dma_slot (play d')} \<union> used (edma (play d))
    \<and> {dma_channel (play d'), dma_slot (play d')} \<inter> used (edma (play d)) = {}
    \<and> start_flag (play d') = 0 \<and> array_current_smeschenie_dma (play d') = 0 \<and> rtp_count (hook d') = rtp_count (hook d)
    \<and> (\<exists>q. fifo (voice (hook d')) = Some q \<and> contents q = [] \<and> capacity q = 8192)
    \<and> (\<exists>a m par. dmab_slic (play d') = Buffer a m \<and> param (edma (play d')) (dma_slot (play d')) = period_entry a par)"
proof -
  obtain q b a m where l: "kfifo_alloc (kfifo k) 8192 = Some q" "kmalloc k 4380 = Some b" "length b = 4380"
    "has_pcm (dma k)" "descriptor_ok (dma k)" "pages (dma k) = Some (a, m)" "buffer_ok (Buffer a m)"
    "names_ok k" "counters_ok (play d)" "snd_log (play d) = []" "array_current_smeschenie_dma (play d) = 0"
    "0 \<le> dma_channel (dma_request (edma3 k) (play d))" "0 \<le> dma_slot (dma_request (edma3 k) (play d))"
    "start_flag (play d) = 0"
    using assms by (auto simp: loadable_def initial_def)
  define p0 where "p0 = (play d)\<lparr>snd_log := take 7 audio_setup\<rparr>"
  have p0: "counters_ok p0" "start_flag p0 = 0" "array_current_smeschenie_dma p0 = 0"
    "0 \<le> dma_channel (dma_request (edma3 k) p0)" "0 \<le> dma_slot (dma_request (edma3 k) p0)"
    using l(9,11-14) by (simp_all add: p0_def dma_request_def Let_def split_beta counters_ok_def)
  obtain p2 par where i: "Init_Arm_EDMA_interface (edma3 k) (dma k) p0 = Inr (p2, True)"
    and p2: "counters_ok p2" "start_flag p2 = 0" "array_current_smeschenie_dma p2 = 0" "dmab_slic p2 = Buffer a m"
      "slot_ok (dma_slot p2)" "slot_ok (dma_channel p2)" "param (edma p2) (dma_slot p2) = period_entry a par"
      "timer1_read p2 = Some 1250" "snd_log p2 = snd_log p0 @ drop 7 audio_setup"
      "used (edma p2) = {dma_channel p2, dma_slot p2} \<union> used (edma p0)"
      "{dma_channel p2, dma_slot p2} \<inter> used (edma p0) = {}"
    using edma_init_ok [OF l(4-7) p0] by blast
  have en: "entry_ok (Buffer a m) (period_entry a par)"
    using period_entry_ok [OF l(7) p0(1)] p0(3) by simp
  have s: "snd_log p2 = audio_setup" "edma p0 = edma (play d)"
    using p2(9) by (simp_all add: p0_def)
  obtain dev0 dev1 where "Ab_arm_init_module k d = Inr (d\<lparr>ip_hook := True, arp_hook := True,
      cpsw0_dev := dev0, cpsw1_dev := dev1,
      hook := (hook d)\<lparr>voice := \<lparr>codec = (codec (voice (hook d)))\<lparr>output_pcm_buf := Some b\<rparr>, fifo = Some q\<rparr>\<rparr>,
      play := p2\<rparr>, 0)"
    using init_reduce [OF l(8), of d] i l(1,2,10)
    by (auto simp: Let_def Init_audio_codecs_def p0_def)
  then show ?thesis
    using p2 en s l(3,7) fifo_c.alloc [OF l(1)] by (simp add: running_def voice_ready_def) blast
qed

lemma cleanup_ok:
  assumes "running valid param slot_ok d" "has_pcm (dma k)"
  shows "\<exists>d'. Ab_arm_cleanup_module k d = Inr d' \<and> \<not> ip_hook d' \<and> \<not> arp_hook d'
    \<and> not_ready (voice (hook d')) \<and> timer1_read (play d') = None \<and> (\<exists>a. dmab_slic (play d') = Freed_pages a)
    \<and> used (edma (play d')) = used (edma (play d)) - {dma_channel (play d), dma_slot (play d)}"
proof -
  obtain a m where b: "dmab_slic (play d) = Buffer a m" using assms(1) buffer_cases by (auto simp: running_def)
  then show ?thesis
    using assms(2)
    by (auto simp: Ab_arm_cleanup_module_def Clear_Arm_EDMA_interface_def Let_def log_call_def
        set_fifo_def set_codec_def Clear_FIFO_voice_rtp_buf_def Clear_audio_codec_def not_ready_def
        dma_c.free_channel dma_c.free_slot)
qed

end

section \<open>A kernel to run the module on\<close>

definition demo_kernel :: "(byte list \<times> nat, edma_mem) kernel" where
  "demo_kernel = \<lparr>kfifo = list_kfifo, edma3 = edma_mem,
     dma = \<lparr>has_pcm = True, descriptor_ok = True, pages = Some (0x80000000, replicate 64000 0)\<rparr>,
     kmalloc = (\<lambda>n. Some (replicate n 0)), netdevs = (\<lambda>n. None),
     ifname0 = [0x65, 0x74, 0x68, 0x30, 0] @ replicate 12 0,
     ifname1 = [0x65, 0x74, 0x68, 0x31, 0] @ replicate 12 0\<rparr>"

definition demo_driver :: "(byte list \<times> nat, edma_mem) driver" where
  "demo_driver = \<lparr>ip_hook = False, arp_hook = False,
     hook = \<lparr>voice = \<lparr>codec = \<lparr>output_pcm_buf = None\<rparr>, fifo = None\<rparr>, rtp_count = 0\<rparr>,
     play = \<lparr>edma = (\<lambda>s. blank_param, []), dma_channel = 0, dma_slot = 0,
       array_current_smeschenie_dma = 0, dmab_slic = No_buffer, timer1_read = None, snd_log = [],
       start_flag = 0, mcasp_count_voice_iter_dma = 0, mcasp_count_voice_iter_cpu = 0,
       mcasp_count_voice_iter_g711_ulaw = 0, period_count_voice_iter_dma = 0\<rparr>,
     cpsw0_dev = None, cpsw1_dev = None\<rparr>"

interpretation demo: driver_contract demo_kernel fst snd list_kfifo_valid fst "\<lambda>e. set (snd e)" "\<lambda>s. 0 \<le> s"
  unfolding driver_contract_def
  using list_fifo.kfifo_contract_axioms edma_list.edma_contract_axioms by (simp add: demo_kernel_def)

lemma demo_loadable: "loadable demo_kernel demo_driver"
proof -
  have "dma_channel (dma_request edma_mem (play demo_driver)) = 10"
    "dma_slot (dma_request edma_mem (play demo_driver)) = 64"
    by (simp_all add: dma_request_def edma_mem_def demo_driver_def mem_alloc_def first_free_hit Let_def)
  then show ?thesis
    by (simp add: loadable_def names_ok_def initial_def not_ready_def)
      (simp add: demo_kernel_def demo_driver_def counters_ok_def list_kfifo_def buffer_ok_def
        i_size_dma_block_data_def)
qed

section \<open>Properties of the module\<close>



text \<open>
  C17: loading and unloading balance: after loading, the hooks are registered, the timer is
  armed for 1250 ms and one channel and one slot are taken; unloading after any events removes
  the hooks before it frees the FIFO and the codec buffer they use, stops the timer and gives
  back exactly the channel and the slot.
\<close>

theorem load_unload_balance:
  assumes "driver_contract k contents capacity valid param used slot_ok" "loadable k d"
    and "Ab_arm_init_module k d = Inr (d0, r)" "reachable k d0 d1"
  shows "ip_hook d0 \<and> arp_hook d0 \<and> timer1_read (play d0) = Some 1250
    \<and> (\<exists>d2. Ab_arm_cleanup_module k d1 = Inr d2 \<and> \<not> ip_hook d2 \<and> \<not> arp_hook d2
        \<and> not_ready (voice (hook d2)) \<and> timer1_read (play d2) = None
        \<and> used (edma (play d2)) = used (edma (play d)))"
proof -
  have i: "running valid param slot_ok d0" "ip_hook d0" "arp_hook d0" "timer1_read (play d0) = Some 1250"
    "used (edma (play d0)) = {dma_channel (play d0), dma_slot (play d0)} \<union> used (edma (play d))"
    "{dma_channel (play d0), dma_slot (play d0)} \<inter> used (edma (play d)) = {}"
    using driver_contract.init_running [OF assms(1,2)] assms(3) by auto
  have h: "has_pcm (dma k)" using assms(2) by (simp add: loadable_def)
  note r = driver_contract.reachable_running [OF assms(1,4) i(1)]
  note u = driver_contract.reachable_used [OF assms(1,4) i(1)]
  have "used (edma (play d1)) - {dma_channel (play d1), dma_slot (play d1)} = used (edma (play d))"
    using u i(5,6) by auto
  then show ?thesis
    using driver_contract.cleanup_ok [OF assms(1) r h] i(2-4) by auto
qed

theorem load_unload_balance_witness:
  "\<exists>d0 d2. Ab_arm_init_module demo_kernel demo_driver = Inr (d0, 0) \<and> ip_hook d0
    \<and> Ab_arm_cleanup_module demo_kernel d0 = Inr d2 \<and> set (snd (edma (play d2))) = {}"
proof -
  obtain d0 where d0: "Ab_arm_init_module demo_kernel demo_driver = Inr (d0, 0)"
    using demo.init_running [OF demo_loadable] by blast
  have "snd (edma (play demo_driver)) = []" by (simp add: demo_driver_def)
  then show ?thesis
    using load_unload_balance [OF demo.driver_contract_axioms demo_loadable d0 start] d0 by auto
qed

text \<open>
  Loading drives the audio hardware in a fixed order: the codec chip, then the McASP, both
  with the same format word, and the stream is started only after that and after the DMA
  channel.
\<close>

lemma load_audio_sequence:
  assumes "driver_contract k contents capacity valid param used slot_ok" "loadable k d"
  shows "\<exists>d0. Ab_arm_init_module k d = Inr (d0, 0)
    \<and> cpu_format (snd_log (play d0)) = Some 0x1305
    \<and> codec_format (snd_log (play d0)) = cpu_format (snd_log (play d0))
    \<and> last (snd_log (play d0)) = davinci_mcasp_trigger Null_ptr SNDRV_PCM_TRIGGER_START Cpu_dai
    \<and> snd_log (play d0) = fst (Init_Arm_McASP_interface (fst (Init_Arm_AIC3106_low_level_codec_i2c [])))
        @ drop 7 (snd_log (play d0))"
  using driver_contract.init_running [OF assms]
  by (auto simp: audio_setup_def Init_Arm_McASP_interface_def Init_Arm_AIC3106_low_level_codec_i2c_def)

lemma load_audio_sequence_witness:
  "\<exists>d0. Ab_arm_init_module demo_kernel demo_driver = Inr (d0, 0)
    \<and> codec_format (snd_log (play d0)) = Some 0x1305"
  using load_audio_sequence [OF demo.driver_contract_axioms demo_loadable] by auto

text \<open>
  C35: loading ignores the failure of its parts: with no FIFO (\<open>kfifo_alloc\<close> failed) and no
  playback memory it still returns 0 with the hooks registered, and the first raw voice packet
  goes through a null pointer.
\<close>

theorem load_ignores_failures:
  assumes "names_ok k" "kfifo_alloc (kfifo k) 8192 = None" "\<not> descriptor_ok (dma k)"
    and "skb_ok skb" "is_voice (mac_header skb)" "mac_header skb ! 43 = 96"
    and "55 \<le> length (mac_header skb)" "length (mac_header skb) \<le> 1514"
  shows "\<exists>d0. Ab_arm_init_module k d = Inr (d0, 0) \<and> ip_hook d0 \<and> timer1_read (play d0) = timer1_read (play d)
    \<and> driver_event k (Ip_packet skb) d0 = Inl NullPointer"
proof -
  obtain d0 where d0: "Ab_arm_init_module k d = Inr (d0, 0)" "ip_hook d0" "fifo (voice (hook d0)) = None"
    "timer1_read (play d0) = timer1_read (play d)"
    using init_reduce [OF assms(1), of d] assms(2,3)
    by (auto simp: Let_def Init_Arm_EDMA_interface_def dma_request_def split_beta)
  have "get_rtp_prepare_packet_handler (kfifo k) (mac_header skb) (int (length (mac_header skb)))
      (voice (hook d0)) = Inl NullPointer"
    using assms(6-8) d0(3) by (simp add: handler_raw store_voice_def)
  then have "driver_event k (Ip_packet skb) d0 = Inl NullPointer"
    using assms(5,7) d0(2) by (simp add: driver_event_def hook_cases [OF assms(4)])
  with d0 show ?thesis by blast
qed

theorem load_ignores_failures_witness:
  "\<exists>d0. Ab_arm_init_module (demo_kernel\<lparr>kfifo := list_kfifo\<lparr>kfifo_alloc := (\<lambda>n. None)\<rparr>,
        dma := \<lparr>has_pcm = True, descriptor_ok = False, pages = None\<rparr>\<rparr>) demo_driver = Inr (d0, 0) \<and> ip_hook d0"
proof -
  let ?k = "demo_kernel\<lparr>kfifo := list_kfifo\<lparr>kfifo_alloc := (\<lambda>n. None)\<rparr>,
      dma := \<lparr>has_pcm = True, descriptor_ok = False, pages = None\<rparr>\<rparr>"
  let ?s = "demo_skb (demo_frame[43 := 96])"
  have f: "length (demo_frame[43 := 96]) = 56" "is_voice (demo_frame[43 := 96])" "demo_frame[43 := 96] ! 43 = 96"
    by (simp_all add: demo_frame_simps) (simp add: demo_frame_def is_voice_def voice_sources_def list_update_append)
  have k: "names_ok ?k" "kfifo_alloc (kfifo ?k) 8192 = None" "\<not> descriptor_ok (dma ?k)"
    by (simp_all add: names_ok_def) (simp_all add: demo_kernel_def)
  have s: "skb_ok ?s" "is_voice (mac_header ?s)" "mac_header ?s ! 43 = 96"
    "55 \<le> length (mac_header ?s)" "length (mac_header ?s) \<le> 1514"
    using f by (simp_all add: skb_ok_def demo_skb_def)
  show ?thesis using load_ignores_failures [OF k s, of demo_driver] by blast
qed

end
