(* ===== verification/Simulation.thy ===== *)
theory Simulation
  imports Prelude
begin

text \<open>
  Refinement of an abstract machine: a step function of the code that may be undefined, an abstract
  step that is total, and a relation the two keep under the events the abstract state allows.
\<close>

text \<open>A sequence of events, up to the first that is undefined.\<close>

fun run_all :: "('ev \<Rightarrow> 'c \<Rightarrow> 'c res) \<Rightarrow> 'ev list \<Rightarrow> 'c \<Rightarrow> 'c res" where
  "run_all step [] c = Inr c"
| "run_all step (ev # evs) c = bindR (step ev c) (run_all step evs)"

lemma run_all_append: "run_all step (es @ fs) c = bindR (run_all step es c) (run_all step fs)"
  by (induction es arbitrary: c) (auto simp: bindR_def split: sum.splits)

text \<open>Every event is allowed in the abstract state it meets.\<close>

fun allowed :: "('a \<Rightarrow> 'ev \<Rightarrow> bool) \<Rightarrow> ('ev \<Rightarrow> 'a \<Rightarrow> 'a) \<Rightarrow> 'ev list \<Rightarrow> 'a \<Rightarrow> bool" where
  "allowed ok spec [] a \<longleftrightarrow> True"
| "allowed ok spec (ev # evs) a \<longleftrightarrow> ok a ev \<and> allowed ok spec evs (spec ev a)"

lemma allowed_always: "\<forall>ev \<in> set evs. P ev \<Longrightarrow> allowed (\<lambda>_. P) spec evs a"
  by (induction evs arbitrary: a) simp_all

locale simulation =
  fixes step :: "'ev \<Rightarrow> 'c \<Rightarrow> 'c res"
    and spec :: "'ev \<Rightarrow> 'a \<Rightarrow> 'a"
    and ok :: "'a \<Rightarrow> 'ev \<Rightarrow> bool"
    and rel :: "'c \<Rightarrow> 'a \<Rightarrow> bool"
  assumes sim: "rel c a \<Longrightarrow> ok a ev \<Longrightarrow> \<exists>c'. step ev c = Inr c' \<and> rel c' (spec ev a)"
begin

lemma runs:
  "rel c a \<Longrightarrow> allowed ok spec evs a \<Longrightarrow> \<exists>c'. run_all step evs c = Inr c' \<and> rel c' (fold spec evs a)"
proof (induction evs arbitrary: c a)
  case (Cons ev evs)
  then obtain c1 where "step ev c = Inr c1" "rel c1 (spec ev a)" using sim [of c a ev] by auto
  then show ?case using Cons by simp
qed simp

end

end
