(* ===== verification/Driver_Spec.thy ===== *)
theory Driver_Spec
  imports Driver_Module Simulation
begin

text \<open>
  What the loaded module promises, without its data structures: the voice bytes that wait, how many
  voice packets came, and which period of the playback buffer the DMA controller reads next.  The
  module refines this machine under every sequence of packets, timer expiries and DMA interrupts.
\<close>

section \<open>The abstract machine\<close>

record voice_spec =
  queue :: "byte list"
  packets :: nat
  ticked :: nat
  loaded :: nat

definition spec_start :: voice_spec where
  "spec_start = \<lparr>queue = [], packets = 0, ticked = 0, loaded = 0\<rparr>"

definition current_period :: "nat \<Rightarrow> nat" where
  "current_period n = (n - 1) mod 16"

fun spec_event :: "event \<Rightarrow> voice_spec \<Rightarrow> voice_spec" where
  "spec_event (Ip_packet skb) v =
     v\<lparr>queue := take 8192 (queue v @ voice_data (mac_header skb)),
       packets := packets v + (if taken (mac_header skb) then 1 else 0)\<rparr>"
| "spec_event (Arp_frame skb) v = v"
| "spec_event Timer_expiry v = v\<lparr>queue := drop 4000 (queue v), ticked := Suc (ticked v)\<rparr>"
| "spec_event (Dma_irq st) v = (if st = DMA_COMPLETE then v\<lparr>loaded := current_period (ticked v)\<rparr> else v)"

section \<open>The relation\<close>

definition period_block :: "dma_buffer \<Rightarrow> nat \<Rightarrow> nat set" where
  "period_block b n =
     (case b of Buffer a m \<Rightarrow> {unat a + 4000 * n ..< unat a + 4000 * n + 3968} | _ \<Rightarrow> {})"

definition queue_holds :: "('q \<Rightarrow> byte list) \<Rightarrow> ('q \<Rightarrow> nat) \<Rightarrow> 'q option \<Rightarrow> byte list \<Rightarrow> bool" where
  "queue_holds contents capacity f xs \<longleftrightarrow> (\<exists>q. f = Some q \<and> contents q = xs \<and> capacity q = 8192)"

definition driver_rel ::
  "('q \<Rightarrow> byte list) \<Rightarrow> ('q \<Rightarrow> nat) \<Rightarrow> ('q \<Rightarrow> bool) \<Rightarrow> ('e \<Rightarrow> int \<Rightarrow> edmacc_param) \<Rightarrow> (int \<Rightarrow> bool)
     \<Rightarrow> ('q, 'e) driver \<Rightarrow> voice_spec \<Rightarrow> bool" where
  "driver_rel contents capacity valid param slot_ok d v \<longleftrightarrow>
     running valid param slot_ok d \<and> ip_hook d \<and> arp_hook d \<and> timer1_read (play d) \<noteq> None
     \<and> queue_holds contents capacity (fifo (voice (hook d))) (queue v)
     \<and> rtp_count (hook d) = of_nat (packets v)
     \<and> tick_state (ticked v) (play d)
     \<and> array_current_smeschenie_dma (play d) = 4000 * int (current_period (ticked v))
     \<and> source_addresses (param (edma (play d)) (dma_slot (play d))) = period_block (dmab_slic (play d)) (loaded v)"

lemma tick_offset:
  assumes "tick_state (Suc n) p" "counters_ok p"
  shows "array_current_smeschenie_dma p = 4000 * int (current_period (Suc n))"
  using assms by (simp add: tick_state_def counters_ok_def current_period_def)

context driver_contract begin

lemma packet_refines:
  assumes rel: "driver_rel contents capacity valid param slot_ok d v" and ok: "arrival_ok skb"
  shows "\<exists>d'. driver_event k (Ip_packet skb) d = Inr d'
    \<and> driver_rel contents capacity valid param slot_ok d' (spec_event (Ip_packet skb) v)"
proof -
  obtain q where q: "fifo (voice (hook d)) = Some q" "contents q = queue v" "capacity q = 8192"
    using rel by (auto simp: driver_rel_def queue_holds_def)
  have r: "voice_ready valid (voice (hook d))" using rel by (simp add: driver_rel_def running_def)
  obtain h q' where h: "Hook_Func (kfifo k) skb (hook d) = Inr (h, frame_verdict (mac_header skb))"
    "voice_ready valid (voice h)" "fifo (voice h) = Some q'" "capacity q' = capacity q"
    "contents q' = take (capacity q) (contents q @ voice_data (mac_header skb))"
    "rtp_count h = rtp_count (hook d) + of_bool (taken (mac_header skb))"
    using fifo_c.hook_step [OF r q(1) ok] by blast
  then show ?thesis
    using rel q by (simp add: driver_rel_def driver_event_def running_def queue_holds_def of_bool_def)
qed

lemma timer_refines:
  assumes rel: "driver_rel contents capacity valid param slot_ok d v"
  shows "\<exists>d'. driver_event k Timer_expiry d = Inr d'
    \<and> driver_rel contents capacity valid param slot_ok d' (spec_event Timer_expiry v)"
proof -
  obtain q where q: "fifo (voice (hook d)) = Some q" "contents q = queue v" "capacity q = 8192" "valid q"
    using rel by (auto simp: driver_rel_def queue_holds_def running_def voice_ready_def)
  obtain a m where b: "dmab_slic (play d) = Buffer a m"
    using rel buffer_cases by (auto simp: driver_rel_def running_def)
  obtain q' where t: "timer1_routine (kfifo k) (Some q) (play d) =
      Inr (Some q', (advance_counters (play d))\<lparr>timer1_read := Some 40\<rparr>)"
    "valid q'" "capacity q' = capacity q" "contents q' = drop 4000 (contents q)"
    using fifo_c.timer_ok [OF b q(4)] by blast
  have c: "counters_ok (play d)" "tick_state (ticked v) (play d)"
    using rel by (simp_all add: driver_rel_def running_def)
  note n = advance_counters_ok [OF c(1)] advance_tick [OF c(2,1)]
  note o = tick_offset [OF n(2,1)]
  show ?thesis
    using rel q t b n o
    by (auto simp: driver_rel_def driver_event_def running_def set_fifo_def voice_ready_def queue_holds_def
        counters_ok_def tick_state_def)
qed

lemma irq_refines:
  assumes rel: "driver_rel contents capacity valid param slot_ok d v"
  shows "\<exists>d'. driver_event k (Dma_irq st) d = Inr d'
    \<and> driver_rel contents capacity valid param slot_ok d' (spec_event (Dma_irq st) v)"
proof (cases "st = DMA_COMPLETE")
  case False
  then show ?thesis using rel by (simp add: driver_event_def callback1_def)
next
  case True
  obtain a m where b: "dmab_slic (play d) = Buffer a m"
    using rel buffer_cases by (auto simp: driver_rel_def running_def)
  have r: "slot_ok (dma_slot (play d))" "buffer_ok (Buffer a m)" "counters_ok (play d)"
    "array_current_smeschenie_dma (play d) = 4000 * int (current_period (ticked v))"
    using rel b by (simp_all add: driver_rel_def running_def)
  obtain e where e: "callback1 (edma3 k) DMA_COMPLETE (play d) = Inr ((play d)\<lparr>edma := e\<rparr>)"
    "param e = (param (edma (play d)))(dma_slot (play d) :=
      period_entry (a + word_of_int (array_current_smeschenie_dma (play d)))
        (param (edma (play d)) (dma_slot (play d))))"
    using dma_c.callback_param [OF _ r(1), of a] b by auto
  have "uint (mcasp_count_voice_iter_dma (play d)) = int (current_period (ticked v))"
    using r(3,4) by (simp add: counters_ok_def)
  then have "unat (mcasp_count_voice_iter_dma (play d)) = current_period (ticked v)"
    by (simp only: unat_eq_nat_uint nat_int)
  then have "source_addresses (param e (dma_slot (play d))) = period_block (Buffer a m) (current_period (ticked v))"
    using dma_position(1) [OF r(2,3)] by (simp add: e(2) period_entry_reads period_block_def)
  moreover have "entry_ok (Buffer a m) (param e (dma_slot (play d)))"
    using period_entry_ok [OF r(2,3)] by (simp add: e(2))
  ultimately show ?thesis
    using rel e(1) b True
    by (auto simp: driver_rel_def driver_event_def running_def counters_ok_def tick_state_def queue_holds_def)
qed

lemma event_refines:
  assumes "driver_rel contents capacity valid param slot_ok d v" "event_ok ev"
  shows "\<exists>d'. driver_event k ev d = Inr d' \<and> driver_rel contents capacity valid param slot_ok d' (spec_event ev v)"
proof (cases ev)
  case (Ip_packet skb)
  then show ?thesis using packet_refines [OF assms(1)] assms(2) by (simp add: event_ok_def)
next
  case (Arp_frame skb)
  then show ?thesis using assms(1) by (simp add: driver_event_def Hook_Func_ARP_def)
qed (use timer_refines [OF assms(1)] irq_refines [OF assms(1)] in simp_all)

end

sublocale driver_contract \<subseteq> machine: simulation "driver_event k" spec_event "\<lambda>_. event_ok"
  "driver_rel contents capacity valid param slot_ok"
  by unfold_locales (rule event_refines)

section \<open>Loading reaches the start of the machine\<close>

context driver_contract begin

lemmas module_runs = machine.runs

lemma load_refines:
  assumes "loadable k d" "rtp_count (hook d) = 0" "Ab_arm_init_module k d = Inr (d0, r)"
  shows "driver_rel contents capacity valid param slot_ok d0 spec_start"
proof -
  obtain d' where i: "Ab_arm_init_module k d = Inr (d', 0)" "running valid param slot_ok d'"
    "ip_hook d'" "arp_hook d'" "timer1_read (play d') = Some 1250" "start_flag (play d') = 0"
    "array_current_smeschenie_dma (play d') = 0" "rtp_count (hook d') = rtp_count (hook d)"
    and q: "\<exists>q. fifo (voice (hook d')) = Some q \<and> contents q = [] \<and> capacity q = 8192"
    and e: "\<exists>a m par. dmab_slic (play d') = Buffer a m \<and> param (edma (play d')) (dma_slot (play d')) = period_entry a par"
    using init_running [OF assms(1)] by blast
  have "d0 = d'" using i(1) assms(3) by simp
  then show ?thesis
    using i(2-8) q e assms(2)
    by (auto simp: driver_rel_def spec_start_def queue_holds_def tick_state_def current_period_def
        period_block_def period_entry_reads)
qed

end



end
