(* ===== verification/Preemption.thy ===== *)
theory Preemption
  imports Simulation
begin

text \<open>
  Code that other events interrupt: a list of steps, and for each step the events that are delivered
  just before it.  \<open>phased\<close> follows an invariant that changes from step to step; \<open>interrupted\<close> tells when
  a run with interrupts is a run of whole events.
\<close>

section \<open>Steps with events between them\<close>

fun in_sequence :: "('s \<Rightarrow> 's res) list \<Rightarrow> 's \<Rightarrow> 's res" where
  "in_sequence [] s = Inr s"
| "in_sequence (f # fs) s = bindR (f s) (in_sequence fs)"

fun interleaved :: "('ev \<Rightarrow> 's \<Rightarrow> 's res) \<Rightarrow> ('s \<Rightarrow> 's res) list \<Rightarrow> 'ev list list \<Rightarrow> 's \<Rightarrow> 's res" where
  "interleaved step [] ess s = Inr s"
| "interleaved step (f # fs) [] s = bindR (f s) (interleaved step fs [])"
| "interleaved step (f # fs) (es # ess) s =
     bindR (run_all step es s) (\<lambda>s. bindR (f s) (interleaved step fs ess))"

text \<open>The equations as equations of functions.\<close>

lemmas in_sequence_Cons = in_sequence.simps(2) [abs_def]
lemmas interleaved_Cons = interleaved.simps(3) [abs_def]
lemmas run_all_Cons = run_all.simps(2) [abs_def]

lemma in_sequence_single [simp]: "in_sequence [f] = f"
  by (intro ext) (simp add: bindR_def split: sum.splits)

lemma in_sequence_append: "in_sequence (fs @ gs) s = bindR (in_sequence fs s) (in_sequence gs)"
  by (induction fs arbitrary: s) (auto simp: bindR_def split: sum.splits)

lemma interleaved_quiet: "interleaved step fs [] s = in_sequence fs s"
proof (induction fs arbitrary: s)
  case (Cons f fs)
  then have "interleaved step fs [] = in_sequence fs" by (intro ext)
  then show ?case by simp
qed simp

lemma interleaved_append:
  "length ess = length fs \<Longrightarrow>
    interleaved step (fs @ gs) (ess @ ess') s = bindR (interleaved step fs ess s) (interleaved step gs ess')"
proof (induction fs ess arbitrary: s rule: list_induct2')
  case (4 f fs es ess)
  then have "interleaved step (fs @ gs) (ess @ ess') = (\<lambda>s. bindR (interleaved step fs ess s) (interleaved step gs ess'))"
    by (intro ext) simp
  then show ?case by (simp add: bindR_assoc)
qed auto

section \<open>An invariant for each phase\<close>

text \<open>
  \<open>phase i\<close> holds before step \<open>i\<close>, whatever events come there: those that \<open>may i\<close> come are either harmless,
  and keep the phase, or end in undefined behaviour.
\<close>

locale phased =
  fixes step :: "'ev \<Rightarrow> 's \<Rightarrow> 's res"
    and code :: "('s \<Rightarrow> 's res) list"
    and phase :: "nat \<Rightarrow> 's \<Rightarrow> bool"
    and may harmful :: "nat \<Rightarrow> 'ev \<Rightarrow> bool"
  assumes harmless: "i < length code \<Longrightarrow> phase i s \<Longrightarrow> may i ev \<Longrightarrow> \<not> harmful i ev \<Longrightarrow> \<exists>s'. step ev s = Inr s' \<and> phase i s'"
    and faults: "i < length code \<Longrightarrow> phase i s \<Longrightarrow> may i ev \<Longrightarrow> harmful i ev \<Longrightarrow> \<exists>e. step ev s = Inl e"
    and advances: "i < length code \<Longrightarrow> phase i s \<Longrightarrow> \<exists>s'. (code ! i) s = Inr s' \<and> phase (Suc i) s'"
begin

lemma events:
  assumes i: "i < length code" and "phase i s" "\<forall>ev \<in> set es. may i ev"
  shows "if \<exists>ev \<in> set es. harmful i ev then \<exists>e. run_all step es s = Inl e
    else \<exists>s'. run_all step es s = Inr s' \<and> phase i s'"
  using assms(2-)
proof (induction es arbitrary: s)
  case (Cons ev es)
  show ?case
  proof (cases "harmful i ev")
    case True
    then obtain e where "step ev s = Inl e" using faults [OF i Cons.prems(1)] Cons.prems(2) by auto
    then show ?thesis using True by auto
  next
    case False
    then obtain s' where "step ev s = Inr s'" "phase i s'"
      using harmless [OF i Cons.prems(1)] Cons.prems(2) by auto
    then show ?thesis using Cons.IH [of s'] Cons.prems(2) False by auto
  qed
qed simp

lemma from_phase:
  assumes "phase i s" "i + length ess \<le> length code"
    and "\<forall>j < length ess. \<forall>ev \<in> set (ess ! j). may (i + j) ev"
  shows "if \<exists>j < length ess. \<exists>ev \<in> set (ess ! j). harmful (i + j) ev
    then \<exists>e. interleaved step (take (length ess) (drop i code)) ess s = Inl e
    else \<exists>s'. interleaved step (take (length ess) (drop i code)) ess s = Inr s' \<and> phase (i + length ess) s'"
  using assms
proof (induction ess arbitrary: i s)
  case (Cons es ess)
  have i: "i < length code"
    "take (length (es # ess)) (drop i code) = code ! i # take (length ess) (drop (Suc i) code)"
    using Cons.prems(2) by (simp_all flip: Cons_nth_drop_Suc)
  have m: "\<forall>ev \<in> set es. may i ev"
    using Cons.prems(3) by (metis Nat.add_0_right length_Cons nth_Cons_0 zero_less_Suc)
  have ms: "\<forall>j < length ess. \<forall>ev \<in> set (ess ! j). may (Suc i + j) ev" using Cons.prems(3) by auto
  have h: "(\<exists>j < length (es # ess). \<exists>ev \<in> set ((es # ess) ! j). harmful (i + j) ev) \<longleftrightarrow>
      (\<exists>ev \<in> set es. harmful i ev) \<or> (\<exists>j < length ess. \<exists>ev \<in> set (ess ! j). harmful (Suc i + j) ev)"
    by (simp add: Ex_less_Suc2)
  show ?case
  proof (cases "\<exists>ev \<in> set es. harmful i ev")
    case True
    then obtain e where "run_all step es s = Inl e" using events [OF i(1) Cons.prems(1) m] by auto
    then show ?thesis using True unfolding h i(2) by auto
  next
    case False
    then obtain s1 where s1: "run_all step es s = Inr s1" "phase i s1" using events [OF i(1) Cons.prems(1) m] by auto
    obtain s2 where s2: "(code ! i) s1 = Inr s2" "phase (Suc i) s2" using advances [OF i(1) s1(2)] by blast
    show ?thesis
      using Cons.IH [OF s2(2) _ ms] s1(1) s2(1) Cons.prems(2) False unfolding h i(2) by (simp cong: if_cong)
  qed
qed simp

lemma whole:
  assumes "phase 0 s" "length ess = length code" "\<forall>i < length ess. \<forall>ev \<in> set (ess ! i). may i ev"
  shows "if \<exists>i < length ess. \<exists>ev \<in> set (ess ! i). harmful i ev then \<exists>e. interleaved step code ess s = Inl e
    else \<exists>s'. interleaved step code ess s = Inr s' \<and> phase (length code) s'"
proof -
  have "take (length ess) (drop 0 code) = code" using assms(2) by simp
  then show ?thesis using from_phase [of 0 s ess] assms unfolding add_0 by (metis order_refl)
qed

lemma prefix:
  assumes "phase 0 s" "n \<le> length ess" "length ess = length code"
    and "\<forall>i < length ess. \<forall>ev \<in> set (ess ! i). may i ev \<and> \<not> harmful i ev"
  shows "\<exists>s'. interleaved step (take n code) (take n ess) s = Inr s' \<and> phase n s'"
proof -
  have l: "length (take n ess) = n" using assms(2) by simp
  have no: "\<not> (\<exists>j < n. \<exists>ev \<in> set (take n ess ! j). harmful j ev)" using assms(2,4) by auto
  have "\<forall>j < n. \<forall>ev \<in> set (take n ess ! j). may (0 + j) ev" "0 + n \<le> length code" using assms(2-4) by auto
  note r = from_phase [of 0 s "take n ess", unfolded l, OF assms(1) this(2,1)]
  show ?thesis using r unfolding drop_0 add_0 if_not_P [OF no] .
qed

end

section \<open>Interrupts of code that shares one access with them\<close>

text \<open>
  Steps that are \<open>silent\<close> commute with the interrupt.  Code in which all but one step are silent is atomic:
  interrupts before this step might as well have come before the code, and those after it, after.
\<close>

locale interrupted =
  fixes irq :: "'ev \<Rightarrow> 's \<Rightarrow> 's res"
    and live :: "'s \<Rightarrow> bool"
    and silent :: "('s \<Rightarrow> 's res) \<Rightarrow> bool"
  assumes returns: "live s \<Longrightarrow> \<exists>s'. irq ev s = Inr s' \<and> live s'"
    and keeps: "live s \<Longrightarrow> silent f \<Longrightarrow> f s = Inr s' \<Longrightarrow> live s'"
    and commutes: "live s \<Longrightarrow> silent f \<Longrightarrow> bindR (irq ev s) f = bindR (f s) (irq ev)"
begin

lemma runs: "live s \<Longrightarrow> \<exists>s'. run_all irq es s = Inr s' \<and> live s'"
proof (induction es arbitrary: s)
  case (Cons ev es)
  then obtain s' where "irq ev s = Inr s'" "live s'" using returns by blast
  then show ?case using Cons.IH by simp
qed simp

lemma sequence_keeps: "live s \<Longrightarrow> \<forall>f \<in> set fs. silent f \<Longrightarrow> in_sequence fs s = Inr s' \<Longrightarrow> live s'"
proof (induction fs arbitrary: s)
  case (Cons f fs)
  then obtain s1 where "f s = Inr s1" "in_sequence fs s1 = Inr s'" by (auto simp: bindR_eq_Inr)
  then show ?case using Cons keeps by auto
qed simp

lemma irq_sequence:
  "live s \<Longrightarrow> \<forall>f \<in> set fs. silent f \<Longrightarrow> bindR (irq ev s) (in_sequence fs) = bindR (in_sequence fs s) (irq ev)"
proof (induction fs arbitrary: s)
  case (Cons f fs)
  have c: "bindR (irq ev s) f = bindR (f s) (irq ev)" using commutes Cons.prems by simp
  have "bindR (irq ev s) (in_sequence (f # fs)) = bindR (bindR (irq ev s) f) (in_sequence fs)"
    by (simp add: bindR_assoc in_sequence_Cons)
  also have "\<dots> = bindR (f s) (\<lambda>s. bindR (irq ev s) (in_sequence fs))" by (simp add: c bindR_assoc)
  also have "\<dots> = bindR (f s) (\<lambda>s. bindR (in_sequence fs s) (irq ev))"
  proof (cases "f s")
    case (Inr s1)
    then have "live s1" using keeps [of s f] Cons.prems by simp
    then show ?thesis using Cons Inr by simp
  qed simp
  also have "\<dots> = bindR (in_sequence (f # fs) s) (irq ev)" by (simp add: bindR_assoc)
  finally show ?case .
qed (simp add: bindR_def split: sum.splits)

lemma irqs_sequence:
  "live s \<Longrightarrow> \<forall>f \<in> set fs. silent f \<Longrightarrow>
    bindR (run_all irq es s) (in_sequence fs) = bindR (in_sequence fs s) (run_all irq es)"
proof (induction es arbitrary: s)
  case (Cons ev es)
  obtain s1 where s1: "irq ev s = Inr s1" "live s1" using returns Cons.prems by blast
  have c: "in_sequence fs s1 = bindR (in_sequence fs s) (irq ev)"
    using irq_sequence [of s fs ev] Cons.prems s1(1) by simp
  have "bindR (run_all irq (ev # es) s) (in_sequence fs) = bindR (in_sequence fs s1) (run_all irq es)"
    using Cons s1 by simp
  also have "\<dots> = bindR (in_sequence fs s) (run_all irq (ev # es))" by (simp add: c bindR_assoc run_all_Cons)
  finally show ?case .
qed (simp add: bindR_def split: sum.splits)

text \<open>Interrupts of silent code may be moved behind it.\<close>

lemma moved_back:
  "live s \<Longrightarrow> \<forall>f \<in> set fs. silent f \<Longrightarrow> length ess = length fs \<Longrightarrow>
    interleaved irq fs ess s = bindR (in_sequence fs s) (run_all irq (concat ess))"
proof (induction fs ess arbitrary: s rule: list_induct2')
  case (4 f fs es ess)
  obtain s1 where s1: "run_all irq es s = Inr s1" "live s1" using runs 4 by blast
  have "interleaved irq (f # fs) (es # ess) s = bindR (f s1) (interleaved irq fs ess)" by (simp add: s1)
  also have "\<dots> = bindR (f s1) (\<lambda>s. bindR (in_sequence fs s) (run_all irq (concat ess)))"
  proof (cases "f s1")
    case (Inr s2)
    then have "live s2" using keeps [OF s1(2), of f] 4 by simp
    then show ?thesis using 4 Inr by simp
  qed simp
  also have "\<dots> = bindR (bindR (run_all irq es s) (in_sequence (f # fs))) (run_all irq (concat ess))"
    by (simp add: s1 bindR_assoc)
  also have "\<dots> = bindR (bindR (in_sequence (f # fs) s) (run_all irq es)) (run_all irq (concat ess))"
    using irqs_sequence [of s "f # fs" es] 4 by simp
  also have "\<dots> = bindR (in_sequence (f # fs) s) (run_all irq (concat (es # ess)))"
    by (simp only: bindR_assoc concat.simps run_all_append [abs_def])
  finally show ?case .
qed auto

lemma one_access:
  assumes "live s" "\<forall>f \<in> set (pre @ post). silent f" "\<And>s s'. live s \<Longrightarrow> w s = Inr s' \<Longrightarrow> live s'"
    and "length ess = length pre" "length ess' = length post"
  shows "interleaved irq (pre @ w # post) (ess @ es # ess') s =
    bindR (run_all irq (concat ess @ es) s) (\<lambda>s. bindR (in_sequence (pre @ w # post) s) (run_all irq (concat ess')))"
proof -
  have "bindR (interleaved irq pre ess s) (run_all irq es) = bindR (in_sequence pre s) (run_all irq (concat ess @ es))"
    using moved_back [of s pre ess] assms by (simp add: bindR_assoc run_all_append [abs_def])
  also have "\<dots> = bindR (run_all irq (concat ess @ es) s) (in_sequence pre)"
    using irqs_sequence [of s pre] assms by simp
  finally have front: "bindR (interleaved irq pre ess s) (run_all irq es) = bindR (run_all irq (concat ess @ es) s) (in_sequence pre)" .
  have post: "interleaved irq post ess' s1 = bindR (in_sequence post s1) (run_all irq (concat ess'))" if "live s1" for s1
    using moved_back [OF that] assms by simp
  obtain s0 where s0: "run_all irq (concat ess @ es) s = Inr s0" "live s0" using runs assms(1) by blast
  have "interleaved irq (pre @ w # post) (ess @ es # ess') s =
      bindR (bindR (interleaved irq pre ess s) (run_all irq es)) (\<lambda>s. bindR (w s) (interleaved irq post ess'))"
    by (simp add: interleaved_append assms(4) bindR_assoc interleaved_Cons)
  also have "\<dots> = bindR (in_sequence pre s0) (\<lambda>s. bindR (w s) (interleaved irq post ess'))"
    by (simp add: front s0)
  also have "\<dots> = bindR (in_sequence pre s0) (\<lambda>s. bindR (w s) (\<lambda>s. bindR (in_sequence post s) (run_all irq (concat ess'))))"
  proof (cases "in_sequence pre s0")
    case (Inr s1)
    then have "live s1" using sequence_keeps [OF s0(2), of pre] assms(2) by simp
    then show ?thesis using assms(3) post by (cases "w s1") (simp_all add: Inr)
  qed simp
  also have "\<dots> = bindR (in_sequence (pre @ w # post) s0) (run_all irq (concat ess'))"
    by (simp add: in_sequence_append bindR_assoc)
  finally show ?thesis by (simp add: s0)
qed

end

end
