(* ===== verification/Timer_Preemption.thy ===== *)
theory Timer_Preemption
  imports Driver_Spec Preemption
begin

text \<open>
  The timer routine, statement by statement, with DMA interrupts between the statements.  On the one
  processor of the board an interrupt handler runs from start to end inside the code it interrupts;
  timer and network hook are both softirqs and do not interrupt each other.
\<close>

section \<open>The statements of the timer routine\<close>

definition on_play :: "('e player \<Rightarrow> 'e player) \<Rightarrow> ('q, 'e) driver \<Rightarrow> ('q, 'e) driver res" where
  "on_play f d = Inr (d\<lparr>play := f (play d)\<rparr>)"

definition count_dma :: "'e player \<Rightarrow> 'e player" where
  "count_dma p = p\<lparr>mcasp_count_voice_iter_dma := mcasp_count_voice_iter_dma p + 1\<rparr>"

definition count_cpu :: "'e player \<Rightarrow> 'e player" where
  "count_cpu p = p\<lparr>mcasp_count_voice_iter_cpu := mcasp_count_voice_iter_cpu p + 1\<rparr>"

definition count_g711_ulaw :: "'e player \<Rightarrow> 'e player" where
  "count_g711_ulaw p = p\<lparr>mcasp_count_voice_iter_g711_ulaw := mcasp_count_voice_iter_g711_ulaw p + 1\<rparr>"

definition first_start :: "'e player \<Rightarrow> 'e player" where
  "first_start p =
     (if start_flag p = 0 then
        p\<lparr>mcasp_count_voice_iter_dma := 0, mcasp_count_voice_iter_cpu := 0,
          period_count_voice_iter_dma := 0, start_flag := start_flag p + 1\<rparr>
      else p)"

definition wrap_dma :: "'e player \<Rightarrow> 'e player" where
  "wrap_dma p =
     (if mcasp_count_voice_iter_dma p = 16 then
        p\<lparr>mcasp_count_voice_iter_dma := 0, period_count_voice_iter_dma := 64000 + period_count_voice_iter_dma p\<rparr>
      else p)"

definition wrap_cpu :: "'e player \<Rightarrow> 'e player" where
  "wrap_cpu p = (if mcasp_count_voice_iter_cpu p = 4 then p\<lparr>mcasp_count_voice_iter_cpu := 0\<rparr> else p)"

definition set_offset :: "'e player \<Rightarrow> 'e player" where
  "set_offset p = p\<lparr>array_current_smeschenie_dma := sint (mcasp_count_voice_iter_dma p * PERIOD_SIZE)\<rparr>"

definition read_descriptor :: "('q, 'e) driver \<Rightarrow> ('q, 'e) driver res" where
  "read_descriptor d = bindR (descriptor (dmab_slic (play d))) (\<lambda>dma_src. Inr d)"

definition fetch_voice :: "'q kfifo_api \<Rightarrow> ('q, 'e) driver \<Rightarrow> ('q, 'e) driver res" where
  "fetch_voice kapi d =
     (case fifo (voice (hook d)) of
        None \<Rightarrow> Inl NullPointer
      | Some q \<Rightarrow> bindR (voice_buf_get_data_in_rtp_stream1 kapi q (replicate 4000 0) 4000)
          (\<lambda>(q', in_buf_rtp_dir1, get_from_fifo_bytes). Inr (set_fifo (Some q') d)))"

definition mod_timer :: "'e player \<Rightarrow> 'e player" where
  "mod_timer p = p\<lparr>timer1_read := Some 40\<rparr>"

text \<open>Before and after the one statement that writes what the interrupt handler reads.\<close>

definition before_offset :: "(('q, 'e) driver \<Rightarrow> ('q, 'e) driver res) list" where
  "before_offset = read_descriptor #
     map on_play [count_dma, count_cpu, count_g711_ulaw, first_start, wrap_dma, wrap_cpu]"

definition after_offset :: "'q kfifo_api \<Rightarrow> (('q, 'e) driver \<Rightarrow> ('q, 'e) driver res) list" where
  "after_offset kapi = [fetch_voice kapi, on_play mod_timer]"

definition timer_steps :: "'q kfifo_api \<Rightarrow> (('q, 'e) driver \<Rightarrow> ('q, 'e) driver res) list" where
  "timer_steps kapi = before_offset @ on_play set_offset # after_offset kapi"

text \<open>Without interrupts the statements are \<open>timer1_routine\<close>.\<close>

lemma counters_in_steps:
  "advance_counters p =
    set_offset (wrap_cpu (wrap_dma (first_start (count_g711_ulaw (count_cpu (count_dma p))))))"
  by (simp add: advance_counters_def Let_def set_offset_def wrap_cpu_def wrap_dma_def first_start_def
      count_g711_ulaw_def count_cpu_def count_dma_def)

lemma timer_steps_are_routine:
  "in_sequence (timer_steps (kfifo k)) d =
    bindR (timer1_routine (kfifo k) (fifo (voice (hook d))) (play d)) (\<lambda>(f, p). Inr ((set_fifo f d)\<lparr>play := p\<rparr>))"
proof -
  have "in_sequence (timer_steps (kfifo k)) d =
      bindR (descriptor (dmab_slic (play d))) (\<lambda>a. bindR (fetch_voice (kfifo k) (d\<lparr>play := advance_counters (play d)\<rparr>)) (on_play mod_timer))"
    by (simp add: timer_steps_def before_offset_def after_offset_def on_play_def read_descriptor_def
        counters_in_steps bindR_assoc)
  also have "\<dots> = bindR (timer1_routine (kfifo k) (fifo (voice (hook d))) (play d)) (\<lambda>(f, p). Inr ((set_fifo f d)\<lparr>play := p\<rparr>))"
    by (auto simp: timer1_routine_def get_data_array_def fetch_voice_def bindR_assoc on_play_def mod_timer_def
        set_fifo_def Let_def split_beta split: option.splits)
  finally show ?thesis .
qed

section \<open>What the interrupt shares with the code\<close>

text \<open>
  A step is silent when it keeps the descriptor, the slot and the offset, which the handler reads, and
  does not depend on the state of the controller, which it writes.
\<close>

definition with_edma :: "'e \<Rightarrow> ('q, 'e) driver \<Rightarrow> ('q, 'e) driver" where
  "with_edma e d = d\<lparr>play := (play d)\<lparr>edma := e\<rparr>\<rparr>"

definition irq_view :: "('q, 'e) driver \<Rightarrow> dma_buffer \<times> int \<times> int \<times> 'e" where
  "irq_view d = (dmab_slic (play d), dma_slot (play d), array_current_smeschenie_dma (play d), edma (play d))"

definition silent :: "(('q, 'e) driver \<Rightarrow> ('q, 'e) driver res) \<Rightarrow> bool" where
  "silent f \<longleftrightarrow> (\<forall>d e. f (with_edma e d) = bindR (f d) (\<lambda>d'. Inr (with_edma e d')))
     \<and> (\<forall>d d'. f d = Inr d' \<longrightarrow> irq_view d' = irq_view d)"

definition irq_live :: "('q, 'e) driver \<Rightarrow> bool" where
  "irq_live d \<longleftrightarrow> (\<exists>a. descriptor (dmab_slic (play d)) = Inr a)"

lemma new_edma: "edma (p\<lparr>edma := e\<rparr>) = e"
  by simp

lemma irq_effect:
  fixes d :: "('q, 'e) driver"
  assumes "irq_live d"
  shows "\<exists>e. \<forall>d' :: ('q, 'e) driver. irq_view d' = irq_view d \<longrightarrow> driver_event k (Dma_irq st) d' = Inr (with_edma e d')"
proof (cases "st = DMA_COMPLETE")
  case True
  obtain a where a: "descriptor (dmab_slic (play d)) = Inr a" using assms by (auto simp: irq_live_def)
  obtain e where e: "enqueue_dma (edma3 k) (play d) = Inr ((play d)\<lparr>edma := e\<rparr>)"
    unfolding enqueue_dma_def a bindR_Inr Let_def by blast
  have same: "enqueue_dma (edma3 k) p = bindR (enqueue_dma (edma3 k) q) (\<lambda>q'. Inr (p\<lparr>edma := edma q'\<rparr>))"
    if "dmab_slic p = dmab_slic q" "dma_slot p = dma_slot q"
      "array_current_smeschenie_dma p = array_current_smeschenie_dma q" "edma p = edma q" for p q ::  "'e player"
    by (simp only: enqueue_dma_def Let_def that bindR_assoc bindR_Inr new_edma)
  show ?thesis
  proof (intro exI allI impI)
    fix d' :: "('q, 'e) driver"
    assume "irq_view d' = irq_view d"
    then have "enqueue_dma (edma3 k) (play d') = Inr ((play d')\<lparr>edma := e\<rparr>)"
      using same [of "play d'" "play d"] by (simp add: irq_view_def e)
    then show "driver_event k (Dma_irq st) d' = Inr (with_edma e d')"
      by (simp add: driver_event_def callback1_def True with_edma_def)
  qed
next
  case False
  have "with_edma (edma (play d)) d' = d'" if "irq_view d' = irq_view d" for d' :: "('q, 'e) driver"
    using that by (simp add: irq_view_def with_edma_def)
  then show ?thesis
    using False by (intro exI [of _ "edma (play d)"]) (simp add: driver_event_def callback1_def)
qed

lemma silent_live: "irq_live d \<Longrightarrow> silent f \<Longrightarrow> f d = Inr d' \<Longrightarrow> irq_live d'"
  unfolding silent_def irq_live_def irq_view_def by (metis prod.inject)

interpretation irq_in_driver: interrupted "\<lambda>st. driver_event k (Dma_irq st)" irq_live silent for k
proof
  fix d :: "('a, 'b) driver" and st and f :: "('a, 'b) driver \<Rightarrow> ('a, 'b) driver res"
  assume live: "irq_live d"
  obtain e where e: "\<And>d'. irq_view d' = irq_view d \<Longrightarrow> driver_event k (Dma_irq st) d' = Inr (with_edma e d')"
    using irq_effect [OF live] by blast
  show "\<exists>s'. driver_event k (Dma_irq st) d = Inr s' \<and> irq_live s'"
    using e live by (simp add: irq_live_def with_edma_def)
  show "irq_live d'" if "silent f" "f d = Inr d'" for d' using silent_live live that by blast
  show "bindR (driver_event k (Dma_irq st) d) f = bindR (f d) (driver_event k (Dma_irq st))" if "silent f"
  proof (cases "f d")
    case (Inr d')
    then have "irq_view d' = irq_view d" using that by (simp add: silent_def)
    then show ?thesis using that e Inr by (simp add: silent_def)
  qed (use that e in \<open>simp add: silent_def\<close>)
qed

section \<open>The timer routine is atomic\<close>

lemma silent_on_play:
  assumes "\<And>p e. f (p\<lparr>edma := e\<rparr>) = (f p)\<lparr>edma := e\<rparr>" "\<And>p. dmab_slic (f p) = dmab_slic p"
    and "\<And>p. dma_slot (f p) = dma_slot p" "\<And>p. edma (f p) = edma p"
    and "\<And>p. array_current_smeschenie_dma (f p) = array_current_smeschenie_dma p"
  shows "silent (on_play f)"
  using assms by (simp add: silent_def on_play_def with_edma_def irq_view_def)

lemma hook_then_play: "d\<lparr>play := p, hook := h\<rparr> = d\<lparr>hook := h, play := p\<rparr>"
  by (cases d) simp

lemma silent_before: "\<forall>f \<in> set before_offset. silent f"
proof -
  have "silent read_descriptor"
    by (auto simp: silent_def read_descriptor_def with_edma_def irq_view_def bindR_assoc bindR_eq_Inr)
  moreover have "\<forall>f \<in> {count_dma, count_cpu, count_g711_ulaw, first_start, wrap_dma, wrap_cpu}. silent (on_play f)"
    by (auto intro!: silent_on_play
        simp: count_dma_def count_cpu_def count_g711_ulaw_def first_start_def wrap_dma_def wrap_cpu_def)
  ultimately show ?thesis by (simp add: before_offset_def)
qed

lemma silent_after: "\<forall>f \<in> set (after_offset kapi). silent f"
proof -
  have "silent (fetch_voice kapi)"
    by (auto simp: silent_def fetch_voice_def with_edma_def irq_view_def set_fifo_def bindR_assoc bindR_eq_Inr
        hook_then_play case_prod_unfold split: option.splits)
  moreover have "silent (on_play mod_timer)" by (rule silent_on_play) (simp_all add: mod_timer_def)
  ultimately show ?thesis by (simp add: after_offset_def)
qed

text \<open>A packet shares nothing with the interrupt: it is silent as a whole.\<close>

lemma silent_packet: "silent (driver_event k (Ip_packet skb))"
  by (auto simp: silent_def driver_event_def with_edma_def irq_view_def bindR_assoc bindR_eq_Inr hook_then_play case_prod_unfold)

lemma irqs_as_events: "run_all (\<lambda>st. driver_event k (Dma_irq st)) es = run_all (driver_event k) (map Dma_irq es)"
proof (induction es)
  case (Cons st es)
  then show ?case by (intro ext) simp
qed auto

lemma irqs_keep_timer:
  "irq_live d \<Longrightarrow> run_all (\<lambda>st. driver_event k (Dma_irq st)) es d = Inr d' \<Longrightarrow> timer1_read (play d') = timer1_read (play d)"
proof (induction es arbitrary: d)
  case (Cons st es)
  obtain e where "driver_event k (Dma_irq st) d = Inr (with_edma e d)" using irq_effect [OF Cons.prems(1)] by blast
  moreover have "irq_live (with_edma e d)" "timer1_read (play (with_edma e d)) = timer1_read (play d)"
    using Cons.prems(1) by (simp_all add: irq_live_def with_edma_def)
  ultimately show ?case using Cons.IH [of "with_edma e d"] Cons.prems(2) by simp
qed simp

lemma timer_atomic:
  assumes live: "irq_live d" and t: "timer1_read (play d) \<noteq> None" and n: "length ess = 10"
  shows "interleaved (\<lambda>st. driver_event k (Dma_irq st)) (timer_steps (kfifo k)) ess d =
    run_all (driver_event k) (map Dma_irq (concat (take 8 ess)) @ Timer_expiry # map Dma_irq (concat (drop 8 ess))) d"
proof -
  let ?irq = "\<lambda>st. driver_event k (Dma_irq st)"
  have l: "length (take 7 ess) = length (before_offset :: (('a, 'b) driver \<Rightarrow> ('a, 'b) driver res) list)"
    "length (drop 8 ess) = length (after_offset (kfifo k) :: (('a, 'b) driver \<Rightarrow> ('a, 'b) driver res) list)"
    using n by (simp_all add: before_offset_def after_offset_def)
  have ess: "ess = take 7 ess @ ess ! 7 # drop 8 ess" using id_take_nth_drop [of 7 ess] n by simp
  have c: "concat (take 8 ess) = concat (take 7 ess) @ ess ! 7"
    using n by (simp add: take_Suc_conv_app_nth [of 7, simplified])
  have w: "irq_live s'" if "irq_live s" "on_play set_offset s = Inr s'" for s s' :: "('a, 'b) driver"
    using that by (auto simp: irq_live_def on_play_def set_offset_def)
  have "interleaved ?irq (timer_steps (kfifo k)) (take 7 ess @ ess ! 7 # drop 8 ess) d =
      bindR (run_all ?irq (concat (take 8 ess)) d)
        (\<lambda>d. bindR (in_sequence (timer_steps (kfifo k)) d) (run_all ?irq (concat (drop 8 ess))))"
    unfolding timer_steps_def c
    by (rule irq_in_driver.one_access [OF live _ w l]) (use silent_before silent_after in \<open>auto\<close>)
  also have "\<dots> = bindR (run_all ?irq (concat (take 8 ess)) d)
      (\<lambda>d. bindR (driver_event k Timer_expiry d) (run_all ?irq (concat (drop 8 ess))))"
  proof (cases "run_all ?irq (concat (take 8 ess)) d")
    case (Inr d1)
    then have "timer1_read (play d1) \<noteq> None" using irqs_keep_timer [OF live] t by metis
    then show ?thesis by (simp add: Inr timer_steps_are_routine driver_event_def del: not_None_eq)
  qed simp
  finally show ?thesis
    unfolding ess [symmetric] by (simp add: run_all_append irqs_as_events run_all_Cons)
qed

section \<open>Runs with interrupted timers\<close>

datatype slice = Whole event | Interrupted_timer "ch_status list list"

definition slice_run :: "('q, 'e) kernel \<Rightarrow> slice \<Rightarrow> ('q, 'e) driver \<Rightarrow> ('q, 'e) driver res" where
  "slice_run k sl d =
     (case sl of
        Whole ev \<Rightarrow> driver_event k ev d
      | Interrupted_timer ess \<Rightarrow>
          if timer1_read (play d) = None then Inr d
          else interleaved (\<lambda>st. driver_event k (Dma_irq st)) (timer_steps (kfifo k)) ess d)"

definition slice_ok :: "slice \<Rightarrow> bool" where
  "slice_ok sl = (case sl of Whole ev \<Rightarrow> event_ok ev | Interrupted_timer ess \<Rightarrow> length ess = 10)"

text \<open>The whole events a slice amounts to.\<close>

fun linear :: "slice \<Rightarrow> event list" where
  "linear (Whole ev) = [ev]"
| "linear (Interrupted_timer ess) = map Dma_irq (concat (take 8 ess)) @ Timer_expiry # map Dma_irq (concat (drop 8 ess))"

lemma linear_ok: "slice_ok sl \<Longrightarrow> \<forall>ev \<in> set (linear sl). event_ok ev"
  by (cases sl) (auto simp: slice_ok_def event_ok_def)

context driver_contract begin

lemma slice_linear:
  assumes "driver_rel contents capacity valid param slot_ok d v" "slice_ok sl"
  shows "slice_run k sl d = run_all (driver_event k) (linear sl) d"
proof (cases sl)
  case (Whole ev)
  then show ?thesis by (simp add: slice_run_def bindR_def split: sum.splits)
next
  case (Interrupted_timer ess)
  have "irq_live d" using assms(1) buffer_cases by (fastforce simp: driver_rel_def running_def irq_live_def)
  moreover have "timer1_read (play d) \<noteq> None" using assms(1) by (simp add: driver_rel_def)
  ultimately show ?thesis
    using timer_atomic [of d ess k] assms(2) by (simp add: slice_run_def slice_ok_def Interrupted_timer del: not_None_eq)
qed

lemma slice_refines:
  assumes "driver_rel contents capacity valid param slot_ok d v" "slice_ok sl"
  shows "\<exists>d'. slice_run k sl d = Inr d' \<and> driver_rel contents capacity valid param slot_ok d' (fold spec_event (linear sl) v)"
  unfolding slice_linear [OF assms]
  by (rule module_runs [OF assms(1)]) (rule allowed_always, rule linear_ok [OF assms(2)])

end

sublocale driver_contract \<subseteq> preempted: simulation "slice_run k" "\<lambda>sl. fold spec_event (linear sl)" "\<lambda>_. slice_ok"
  "driver_rel contents capacity valid param slot_ok"
  by unfold_locales (rule slice_refines)

context driver_contract begin

lemmas slices_run = preempted.runs

lemma slices_linear:
  "driver_rel contents capacity valid param slot_ok d v \<Longrightarrow> \<forall>sl \<in> set sls. slice_ok sl \<Longrightarrow>
    run_all (slice_run k) sls d = run_all (driver_event k) (concat (map linear sls)) d"
proof (induction sls arbitrary: d v)
  case (Cons sl sls)
  obtain d' where "slice_run k sl d = Inr d'" "run_all (driver_event k) (linear sl) d = Inr d'"
    "driver_rel contents capacity valid param slot_ok d' (fold spec_event (linear sl) v)"
    using slice_refines [OF Cons.prems(1), of sl] slice_linear [OF Cons.prems(1), of sl] Cons.prems(2) by auto
  then show ?case using Cons by (simp add: run_all_append)
qed simp

end

lemma fold_linear: "fold (\<lambda>sl. fold spec_event (linear sl)) sls v = fold spec_event (concat (map linear sls)) v"
  by (induction sls arbitrary: v) simp_all

section \<open>Preemption is not seen\<close>

text \<open>
  C2: interrupts that stop the timer routine between its statements make no difference.  A run of the
  loaded module in which DMA interrupts arrive before any statement of any timer expiry is a run of whole
  events: an interrupt counts as before the expiry when it comes before the offset has been written, and as
  after it otherwise.  So it does not fault, and it refines the abstract machine run on those events.
\<close>

theorem preempted_driver_refines:
  assumes "driver_contract k contents capacity valid param used slot_ok" "loadable k d"
    and "rtp_count (hook d) = 0" "Ab_arm_init_module k d = Inr (d0, r)" "\<forall>sl \<in> set sls. slice_ok sl"
    and v_def: "v = fold spec_event (concat (map linear sls)) spec_start"
  shows "\<exists>d1. run_all (slice_run k) sls d0 = Inr d1
    \<and> run_all (driver_event k) (concat (map linear sls)) d0 = Inr d1
    \<and> queue_holds contents capacity (fifo (voice (hook d1))) (queue v)
    \<and> array_current_smeschenie_dma (play d1) = 4000 * int (current_period (ticked v))
    \<and> source_addresses (param (edma (play d1)) (dma_slot (play d1))) = period_block (dmab_slic (play d1)) (loaded v)"
proof -
  have a: "allowed (\<lambda>_. slice_ok) (\<lambda>sl. fold spec_event (linear sl)) sls spec_start" by (rule allowed_always) (rule assms(5))
  have r: "driver_rel contents capacity valid param slot_ok d0 spec_start"
    by (rule driver_contract.load_refines [OF assms(1-4)])
  show ?thesis
    using driver_contract.slices_run [OF assms(1) r a] driver_contract.slices_linear [OF assms(1) r assms(5)]
    unfolding v_def fold_linear by (auto simp: driver_rel_def)
qed

theorem preempted_driver_refines_witness:
  "\<exists>d0 d1. Ab_arm_init_module demo_kernel demo_driver = Inr (d0, 0)
    \<and> run_all (slice_run demo_kernel)
        [Whole Timer_expiry, Interrupted_timer ((replicate 10 []) [5 := [DMA_COMPLETE]]),
         Interrupted_timer ((replicate 10 []) [8 := [DMA_COMPLETE]])] d0 = Inr d1
    \<and> source_addresses (fst (edma (play d1)) (dma_slot (play d1))) = period_block (dmab_slic (play d1)) 2"
proof -
  let ?sls = "[Whole Timer_expiry, Interrupted_timer ((replicate 10 []) [5 := [DMA_COMPLETE]]),
    Interrupted_timer ((replicate 10 []) [8 := [DMA_COMPLETE]])]"
  obtain d0 where d0: "Ab_arm_init_module demo_kernel demo_driver = Inr (d0, 0)"
    using demo.init_running [OF demo_loadable] by blast
  have ok: "\<forall>sl \<in> set ?sls. slice_ok sl" by (simp add: slice_ok_def event_ok_def)
  have c: "rtp_count (hook demo_driver) = 0" by (simp add: demo_driver_def)
  have l: "concat (map linear ?sls) = [Timer_expiry, Dma_irq DMA_COMPLETE, Timer_expiry, Timer_expiry, Dma_irq DMA_COMPLETE]"
    by (simp add: eval_nat_numeral)
  have v: "fold spec_event [Timer_expiry, Dma_irq DMA_COMPLETE, Timer_expiry, Timer_expiry, Dma_irq DMA_COMPLETE] spec_start
      = \<lparr>queue = [], packets = 0, ticked = 3, loaded = 2\<rparr>" by (simp add: spec_start_def current_period_def)
  show ?thesis
    using preempted_driver_refines [OF demo.driver_contract_axioms demo_loadable c d0 ok refl] d0
    unfolding l v by auto
qed

end
