(* ===== verification/Load_Race.thy ===== *)
theory Load_Race
  imports Timer_Preemption
begin

text \<open>
  Loading and unloading while packets, timer expiries and interrupts already arrive, or still do.
  \<open>Ab_arm_init_module\<close> registers the network hooks first and sets up what they use afterwards;
  \<open>Ab_arm_cleanup_module\<close> removes the hooks and the timer first, and frees the playback buffer before the
  channel that reads it.
\<close>

section \<open>Loading, call by call\<close>

definition allocate_buffer :: "('q, 'e) kernel \<Rightarrow> ('q, 'e) driver \<Rightarrow> ('q, 'e) driver res" where
  "allocate_buffer k d =
     (if \<not> descriptor_ok (dma k) then on_play (\<lambda>p. p\<lparr>dmab_slic := No_buffer\<rparr>) d
      else if \<not> has_pcm (dma k) then Inl NullPointer
      else case pages (dma k) of
        None \<Rightarrow> on_play (\<lambda>p. p\<lparr>dmab_slic := Freed_buffer\<rparr>) d
      | Some (a, m) \<Rightarrow> on_play (\<lambda>p. p\<lparr>dmab_slic := Buffer a m\<rparr>) d)"

text \<open>After a failed allocation \<open>Init_Arm_EDMA_interface\<close> has returned, and nothing is left to be done.\<close>

definition unless_returned :: "(('q, 'e) driver \<Rightarrow> ('q, 'e) driver res) \<Rightarrow> ('q, 'e) driver \<Rightarrow> ('q, 'e) driver res" where
  "unless_returned f d = (case dmab_slic (play d) of Buffer a m \<Rightarrow> f d | _ \<Rightarrow> Inr d)"

definition prepare_dma :: "('q, 'e) kernel \<Rightarrow> ('q, 'e) driver \<Rightarrow> ('q, 'e) driver res" where
  "prepare_dma k d = bindR (dma_prepare (edma3 k) (play d)) (\<lambda>p. Inr (d\<lparr>play := p\<rparr>))"

definition init_steps :: "('q, 'e) kernel \<Rightarrow> (('q, 'e) driver \<Rightarrow> ('q, 'e) driver res) list" where
  "init_steps k =
     [\<lambda>d. Inr (fst (Init_Net_Filter_HooK_IP d)),
      \<lambda>d. Inr (fst (Init_Net_Filter_Hook_ARP d)),
      \<lambda>d. bindR (Init_Arm_CPSW_MAC_Ethernet (netdevs k) (ifname0 k) (ifname1 k)) (\<lambda>(dev0, dev1, r).
          Inr (d\<lparr>cpsw0_dev := dev0, cpsw1_dev := dev1\<rparr>)),
      \<lambda>d. Inr (set_fifo (Init_FIFO_voice_rtp_buf (kfifo k)) d),
      \<lambda>d. Inr (set_log (fst (Init_Arm_AIC3106_low_level_codec_i2c (snd_log (play d)))) d),
      \<lambda>d. Inr (set_log (fst (Init_Arm_McASP_interface (snd_log (play d)))) d),
      \<lambda>d. Inr (set_codec (Init_audio_codecs (kmalloc k) (codec (voice (hook d)))) d)]"

definition edma_steps :: "('q, 'e) kernel \<Rightarrow> (('q, 'e) driver \<Rightarrow> ('q, 'e) driver res) list" where
  "edma_steps k =
     [on_play (dma_request (edma3 k)),
      allocate_buffer k,
      unless_returned (prepare_dma k),
      unless_returned (on_play (log_call (snd_soc_dapm_stream_event ''Playback'' SND_SOC_DAPM_STREAM_START))),
      unless_returned (on_play (log_call (snd_soc_dai_digital_mute Codec_dai False))),
      unless_returned (on_play (dma_trigger (edma3 k))),
      unless_returned (on_play (log_call (davinci_mcasp_trigger Null_ptr SNDRV_PCM_TRIGGER_START Cpu_dai))),
      unless_returned (on_play (\<lambda>p. p\<lparr>timer1_read := Some 1250\<rparr>))]"

definition load_steps :: "('q, 'e) kernel \<Rightarrow> (('q, 'e) driver \<Rightarrow> ('q, 'e) driver res) list" where
  "load_steps k = init_steps k @ edma_steps k"

text \<open>Undisturbed, the calls are \<open>Ab_arm_init_module\<close>.\<close>

lemma enqueue_frame: "enqueue_dma api p = Inr p' \<Longrightarrow> \<exists>e. p' = p\<lparr>edma := e\<rparr>"
  by (auto simp: enqueue_dma_def bindR_eq_Inr Let_def)

lemma prepare_frame: "dma_prepare api p = Inr p' \<Longrightarrow> \<exists>e. p' = p\<lparr>edma := e\<rparr>"
  by (auto simp: dma_prepare_def bindR_eq_Inr Let_def dest!: enqueue_frame)

lemma trigger_frame: "dma_trigger api p = p\<lparr>edma := fst (edma_start api (dma_channel p) (edma p))\<rparr>"
  by (simp add: dma_trigger_def split_beta)

lemma edma_steps_are_init:
  "in_sequence (edma_steps k) d =
    bindR (Init_Arm_EDMA_interface (edma3 k) (dma k) (play d)) (\<lambda>(p, r). Inr (d\<lparr>play := p\<rparr>))"
proof -
  define p1 where "p1 = dma_request (edma3 k) (play d)"
  show ?thesis
  proof (cases "descriptor_ok (dma k) \<and> has_pcm (dma k) \<and> pages (dma k) \<noteq> None")
    case False
    then show ?thesis
      by (cases "descriptor_ok (dma k)"; cases "has_pcm (dma k)"; cases "pages (dma k)")
        (simp_all add: edma_steps_def allocate_buffer_def unless_returned_def on_play_def
          Init_Arm_EDMA_interface_def Let_def)
  next
    case True
    then obtain a m where am: "pages (dma k) = Some (a, m)" by auto
    let ?p = "p1\<lparr>dmab_slic := Buffer a m\<rparr>"
    show ?thesis
    proof (cases "dma_prepare (edma3 k) ?p")
      case (Inl e)
      then show ?thesis using True am
        by (simp add: edma_steps_def allocate_buffer_def unless_returned_def on_play_def prepare_dma_def
            Init_Arm_EDMA_interface_def Let_def p1_def)
    next
      case (Inr p2)
      then have b: "dmab_slic p2 = Buffer a m" using prepare_frame [OF Inr] by auto
      show ?thesis using True am Inr b
        by (simp add: edma_steps_def allocate_buffer_def unless_returned_def on_play_def prepare_dma_def
            Init_Arm_EDMA_interface_def Let_def log_call_def trigger_frame flip: p1_def)
    qed
  qed
qed

lemma load_steps_are_module:
  "in_sequence (load_steps k) d = bindR (Ab_arm_init_module k d) (\<lambda>(d, r). Inr d)"
  by (simp add: load_steps_def in_sequence_append edma_steps_are_init init_steps_def Ab_arm_init_module_def
      bindR_assoc Let_def case_prod_unfold)


section \<open>What the module has when\<close>

text \<open>
  Before call \<open>i\<close>: the hooks are registered from the first two calls on, the FIFO is there from the fourth
  and the codec buffer from the seventh, the player is set up by the last eight, and the timer runs
  after the last.
\<close>

definition voice_phase :: "('q \<Rightarrow> bool) \<Rightarrow> nat \<Rightarrow> 'q voice_state \<Rightarrow> bool" where
  "voice_phase valid i v \<longleftrightarrow>
     (if i \<le> 3 then not_ready v
      else if i \<le> 6 then (\<exists>q. fifo v = Some q \<and> valid q) \<and> output_pcm_buf (codec v) = None
      else voice_ready valid v)"

definition play_phase ::
  "('e \<Rightarrow> int \<Rightarrow> edmacc_param) \<Rightarrow> (int \<Rightarrow> bool) \<Rightarrow> 'e player \<Rightarrow> nat \<Rightarrow> 'e player \<Rightarrow> bool" where
  "play_phase param slot_ok p0 i p \<longleftrightarrow>
     timer1_read p = (if i = 15 then Some 1250 else None)
     \<and> (if i \<le> 7 then \<exists>l. p = p0\<lparr>snd_log := l\<rparr>
        else counters_ok p \<and> slot_ok (dma_slot p) \<and> slot_ok (dma_channel p) \<and> dma_channel p \<noteq> dma_slot p
          \<and> (9 \<le> i \<longrightarrow> (\<exists>a m. dmab_slic p = Buffer a m \<and> buffer_ok (Buffer a m)))
          \<and> (10 \<le> i \<longrightarrow> entry_ok (dmab_slic p) (param (edma p) (dma_slot p))))"

definition load_phase ::
  "('q \<Rightarrow> bool) \<Rightarrow> ('e \<Rightarrow> int \<Rightarrow> edmacc_param) \<Rightarrow> (int \<Rightarrow> bool) \<Rightarrow> ('q, 'e) driver \<Rightarrow> nat \<Rightarrow> ('q, 'e) driver \<Rightarrow> bool" where
  "load_phase valid param slot_ok d0 i d \<longleftrightarrow>
     (ip_hook d \<longleftrightarrow> 1 \<le> i) \<and> (arp_hook d \<longleftrightarrow> 2 \<le> i)
     \<and> voice_phase valid i (voice (hook d)) \<and> play_phase param slot_ok (play d0) i (play d)"

text \<open>
  Which events may come: packets of the sizes the handler takes, with at least one byte behind the
  headers; an interrupt only once the channel has been started.
\<close>

definition load_may :: "nat \<Rightarrow> event \<Rightarrow> bool" where
  "load_may i ev =
     (case ev of
        Ip_packet skb \<Rightarrow> arrival_ok skb \<and> (taken (mac_header skb) \<longrightarrow> 55 \<le> length (mac_header skb))
      | Dma_irq st \<Rightarrow> 13 \<le> i
      | _ \<Rightarrow> True)"

text \<open>A packet that comes before what it needs: raw voice before the FIFO, u-law before the codec buffer.\<close>

definition too_early :: "nat \<Rightarrow> event \<Rightarrow> bool" where
  "too_early i ev =
     (case ev of
        Ip_packet skb \<Rightarrow> taken (mac_header skb) \<and>
          (1 \<le> i \<and> i \<le> 3 \<and> mac_header skb ! 43 \<in> {0, 96} \<or> 4 \<le> i \<and> i \<le> 6 \<and> mac_header skb ! 43 = 0)
      | _ \<Rightarrow> False)"

section \<open>Packets that come early\<close>

lemma early_fault:
  assumes "arrival_ok skb" "taken (mac_header skb)" "55 \<le> length (mac_header skb)"
    and "output_pcm_buf (codec (voice st)) = None" "mac_header skb ! 43 = 0 \<or> mac_header skb ! 43 = 96 \<and> fifo (voice st) = None"
  shows "Hook_Func api skb st = Inl NullPointer"
proof -
  have ok: "skb_ok skb" "frame_ok (mac_header skb)" using assms(1,2) by (simp_all add: arrival_ok_def)
  have "get_rtp_prepare_packet_handler api (mac_header skb) (int (length (mac_header skb))) (voice st) = Inl NullPointer"
    using assms(5)
  proof
    assume "mac_header skb ! 43 = 0"
    then show ?thesis using handler_no_codec [OF assms(4,3)] ok(2) by (simp add: frame_ok_def)
  next
    assume t: "mac_header skb ! 43 = 96 \<and> fifo (voice st) = None"
    then have "54 \<le> length (mac_header skb)" "length (mac_header skb) \<le> 1568" using ok(2) by (auto simp: frame_ok_def)
    then show ?thesis using t by (simp add: handler_raw store_voice_def)
  qed
  then show ?thesis using assms(2) by (simp add: hook_cases [OF ok(1)] taken_def)
qed

lemma hook_not_stored:
  assumes "arrival_ok skb" "taken (mac_header skb) \<Longrightarrow> mac_header skb ! 43 \<notin> {0, 96}"
  shows "\<exists>st' v. Hook_Func api skb st = Inr (st', v) \<and> voice st' = voice st"
proof -
  have ok: "skb_ok skb" "taken (mac_header skb) \<Longrightarrow> 44 \<le> length (mac_header skb)"
    using assms(1) by (auto simp: arrival_ok_def frame_ok_def)
  show ?thesis
    using assms(2) ok(2) by (cases "taken (mac_header skb)") (auto simp: hook_cases [OF ok(1)] taken_def handler_other)
qed

context kfifo_contract begin

lemma hook_raw:
  assumes "arrival_ok skb" "taken (mac_header skb)" "mac_header skb ! 43 = 96" "fifo (voice st) = Some q" "valid q"
  shows "\<exists>st' v q'. Hook_Func api skb st = Inr (st', v) \<and> voice st' = (voice st)\<lparr>fifo := Some q'\<rparr> \<and> valid q'"
proof -
  have ok: "skb_ok skb" "54 \<le> length (mac_header skb)" "length (mac_header skb) \<le> 1568"
    using assms(1-3) by (auto simp: arrival_ok_def frame_ok_def)
  let ?d = "drop 54 (mac_header skb)"
  have d: "length ?d < 65536" "length (mac_header skb) - 54 = length ?d" using ok by simp_all
  obtain q' where s: "store_voice api ?d (of_nat (length ?d)) (voice st) = Inr ((voice st)\<lparr>fifo := Some q'\<rparr>)" "valid q'"
    using store_voice_ok [OF assms(4,5) d(1)] by blast
  have "get_rtp_prepare_packet_handler api (mac_header skb) (int (length (mac_header skb))) (voice st) =
      Inr ((voice st)\<lparr>fifo := Some q'\<rparr>, 1)"
    unfolding handler_raw [OF ok(2,3) assms(3)] d(2) s(1) by simp
  then show ?thesis using assms(2) s(2) by (auto simp: hook_cases [OF ok(1)] taken_def)
qed

end


section \<open>Loading under traffic\<close>

context driver_contract begin

lemma packet_phase:
  assumes v: "voice_phase valid i (voice st)" and "1 \<le> i"
    and m: "load_may i (Ip_packet skb)" and e: "\<not> too_early i (Ip_packet skb)"
  shows "\<exists>h r. Hook_Func (kfifo k) skb st = Inr (h, r) \<and> voice_phase valid i (voice h)"
proof -
  have ok: "arrival_ok skb" using m by (simp add: load_may_def)
  consider (early) "i \<le> 3" | (mid) "4 \<le> i" "i \<le> 6" | (late) "7 \<le> i" by linarith
  then show ?thesis
  proof cases
    case early
    then have "taken (mac_header skb) \<Longrightarrow> mac_header skb ! 43 \<notin> {0, 96}" using e \<open>1 \<le> i\<close> by (auto simp: too_early_def)
    then show ?thesis using hook_not_stored [OF ok, of "kfifo k" st] v by auto
  next
    case mid
    then obtain q where q: "fifo (voice st) = Some q" "valid q" "output_pcm_buf (codec (voice st)) = None"
      using v by (auto simp: voice_phase_def)
    show ?thesis
    proof (cases "taken (mac_header skb) \<and> mac_header skb ! 43 = 96")
      case True
      then show ?thesis using fifo_c.hook_raw [OF ok _ _ q(1,2)] q(3) mid by (fastforce simp: voice_phase_def)
    next
      case False
      then have "taken (mac_header skb) \<Longrightarrow> mac_header skb ! 43 \<notin> {0, 96}" using e mid by (auto simp: too_early_def)
      then show ?thesis using hook_not_stored [OF ok, of "kfifo k" st] v by auto
    qed
  next
    case late
    then have r: "voice_ready valid (voice st)" using v by (simp add: voice_phase_def)
    then obtain q where "fifo (voice st) = Some q" by (auto simp: voice_ready_def)
    then show ?thesis using fifo_c.hook_step [OF r _ ok] late by (fastforce simp: voice_phase_def)
  qed
qed

lemma irq_play:
  assumes "descriptor (dmab_slic p) = Inr a" "buffer_ok (Buffer a m)" "counters_ok p" "slot_ok (dma_slot p)"
    and "entry_ok (Buffer a m) (param (edma p) (dma_slot p))"
  shows "\<exists>e. callback1 (edma3 k) st p = Inr (p\<lparr>edma := e\<rparr>) \<and> used e = used (edma p)
    \<and> entry_ok (Buffer a m) (param e (dma_slot p))"
proof (cases "st = DMA_COMPLETE")
  case True
  then show ?thesis
    using dma_c.callback_param [OF assms(1,4)] period_entry_ok [OF assms(2,3)] by fastforce
next
  case False
  then have "callback1 (edma3 k) st p = Inr (p\<lparr>edma := edma p\<rparr>)" by (simp add: callback1_def)
  then show ?thesis using assms(5) by blast
qed

lemma load_harmless:
  assumes i: "i < 15" and ph: "load_phase valid param slot_ok d0 i d" and m: "load_may i ev" and e: "\<not> too_early i ev"
  shows "\<exists>d'. driver_event k ev d = Inr d' \<and> load_phase valid param slot_ok d0 i d'"
proof (cases ev)
  case (Ip_packet skb)
  then show ?thesis
    using packet_phase [of i "hook d" skb] ph m e
    by (cases "ip_hook d") (auto simp: load_phase_def driver_event_def)
next
  case (Arp_frame skb)
  then show ?thesis using ph by (simp add: driver_event_def Hook_Func_ARP_def)
next
  case Timer_expiry
  then show ?thesis using ph i by (simp add: driver_event_def load_phase_def play_phase_def)
next
  case (Dma_irq st)
  then have "13 \<le> i" using m by (simp add: load_may_def)
  then obtain a m where b: "dmab_slic (play d) = Buffer a m" "buffer_ok (Buffer a m)" "counters_ok (play d)"
    "slot_ok (dma_slot (play d))" "entry_ok (Buffer a m) (param (edma (play d)) (dma_slot (play d)))"
    using ph by (auto simp: load_phase_def play_phase_def)
  obtain e where "callback1 (edma3 k) st (play d) = Inr ((play d)\<lparr>edma := e\<rparr>)"
    "entry_ok (Buffer a m) (param e (dma_slot (play d)))"
    using irq_play [of "play d" a m st] b by auto
  then show ?thesis
    using ph \<open>13 \<le> i\<close> b(1) Dma_irq
    by (simp add: driver_event_def load_phase_def play_phase_def counters_ok_def)
qed

lemma load_faults:
  assumes ph: "load_phase valid param slot_ok d0 i d" and m: "load_may i ev" and e: "too_early i ev"
  shows "\<exists>x. driver_event k ev d = Inl x"
proof -
  obtain skb where ev: "ev = Ip_packet skb" using e by (cases ev) (auto simp: too_early_def)
  have v: "voice_phase valid i (voice (hook d))" "ip_hook d" using ph e by (auto simp: load_phase_def too_early_def ev)
  have "Hook_Func (kfifo k) skb (hook d) = Inl NullPointer"
    using m e v(1) by (intro early_fault) (auto simp: load_may_def too_early_def ev voice_phase_def not_ready_def split: if_splits)
  then show ?thesis using v(2) by (simp add: driver_event_def ev)
qed


lemma init_advances:
  assumes l: "loadable k d0" and i: "i < 7" and ph: "load_phase valid param slot_ok d0 i d"
  shows "\<exists>d'. (init_steps k ! i) d = Inr d' \<and> load_phase valid param slot_ok d0 (Suc i) d'"
proof -
  obtain q b where qb: "kfifo_alloc (kfifo k) 8192 = Some q" "kmalloc k 4380 = Some b" "length b = 4380" "names_ok k"
    using l by (auto simp: loadable_def)
  note q = fifo_c.alloc [OF qb(1)]
  obtain dev0 dev1 where n: "Init_Arm_CPSW_MAC_Ethernet (netdevs k) (ifname0 k) (ifname1 k) = Inr (dev0, dev1, True)"
    using qb(4) by (auto simp: Init_Arm_CPSW_MAC_Ethernet_def cpsw_lookup names_ok_def)
  note defs = init_steps_def load_phase_def Init_Net_Filter_HooK_IP_def Init_Net_Filter_Hook_ARP_def
    set_fifo_def set_log_def set_codec_def Init_FIFO_voice_rtp_buf_def FIFO_SIZE_def Init_audio_codecs_def
    voice_phase_def not_ready_def voice_ready_def
  have p: "play_phase param slot_ok (play d0) (Suc i) (play d)" "play_phase param slot_ok (play d0) (Suc i) ((play d)\<lparr>snd_log := l\<rparr>)" for l
    using ph i by (auto simp: load_phase_def play_phase_def)
  consider "i = 0" | "i = 1" | "i = 2" | "i = 3" | "i = 4" | "i = 5" | "i = 6" using i by linarith
  then show ?thesis
    using ph p qb n q by cases (auto simp: defs)
qed

lemma prepare_ok:
  assumes "dmab_slic p = Buffer a m" "buffer_ok (Buffer a m)" "counters_ok p" "slot_ok (dma_slot p)" "slot_ok (dma_channel p)"
    "dma_channel p \<noteq> dma_slot p"
  shows "\<exists>e. dma_prepare (edma3 k) p = Inr (p\<lparr>edma := e\<rparr>) \<and> entry_ok (Buffer a m) (param e (dma_slot p))"
  using dma_c.dma_prepare_ok [OF assms(1,4,5,6)] period_entry_ok [OF assms(2,3)] by fastforce

lemma last_calls:
  assumes i: "10 \<le> i" "i < 15" and ph: "load_phase valid param slot_ok d0 i d"
  shows "\<exists>f. edma_steps k ! (i - 7) = unless_returned (on_play f) \<and> play_phase param slot_ok (play d0) (Suc i) (f (play d))"
proof -
  note defs = edma_steps_def load_phase_def play_phase_def log_call_def counters_ok_def
  consider "i = 10" | "i = 11" | "i = 12" | "i = 13" | "i = 14" using i by linarith
  then show ?thesis
  proof cases
    case 1
    then show ?thesis using ph
      by (intro exI [of _ "log_call (snd_soc_dapm_stream_event ''Playback'' SND_SOC_DAPM_STREAM_START)"]) (simp add: defs)
  next
    case 2
    then show ?thesis using ph
      by (intro exI [of _ "log_call (snd_soc_dai_digital_mute Codec_dai False)"]) (simp add: defs)
  next
    case 3
    then show ?thesis using ph
      by (intro exI [of _ "dma_trigger (edma3 k)"]) (auto simp: defs trigger_frame dma_c.start_other)
  next
    case 4
    then show ?thesis using ph
      by (intro exI [of _ "log_call (davinci_mcasp_trigger Null_ptr SNDRV_PCM_TRIGGER_START Cpu_dai)"]) (simp add: defs)
  next
    case 5
    then show ?thesis using ph
      by (intro exI [of _ "\<lambda>p. p\<lparr>timer1_read := Some 1250\<rparr>"]) (simp add: defs)
  qed
qed

lemma request_phase:
  assumes l: "loadable k d0" and ph: "load_phase valid param slot_ok d0 i d" "i = 7"
  shows "play_phase param slot_ok (play d0) 8 (dma_request (edma3 k) (play d))"
proof -
  obtain g where g: "play d = (play d0)\<lparr>snd_log := g\<rparr>" "timer1_read (play d) = None"
    using ph by (auto simp: load_phase_def play_phase_def)
  define p1 where "p1 = dma_request (edma3 k) (play d)"
  have "0 \<le> dma_channel p1" "0 \<le> dma_slot p1" "counters_ok p1" "timer1_read p1 = None"
    using l g by (simp_all add: p1_def loadable_def initial_def dma_request_def Let_def split_beta counters_ok_def)
  then show ?thesis
    using dma_c.dma_request_ok(1-3) [of "play d", folded p1_def] by (simp add: play_phase_def p1_def)
qed

lemma edma_advances:
  assumes l: "loadable k d0" and i: "7 \<le> i" "i < 15" and ph: "load_phase valid param slot_ok d0 i d"
  shows "\<exists>d'. (edma_steps k ! (i - 7)) d = Inr d' \<and> load_phase valid param slot_ok d0 (Suc i) d'"
proof -
  have h: "load_phase valid param slot_ok d0 (Suc i) (d\<lparr>play := p\<rparr>) \<longleftrightarrow> play_phase param slot_ok (play d0) (Suc i) p" for p
    using ph i by (simp add: load_phase_def voice_phase_def)
  have ex: "\<exists>p. (edma_steps k ! (i - 7)) d = Inr (d\<lparr>play := p\<rparr>) \<and> play_phase param slot_ok (play d0) (Suc i) p"
  proof -
    consider "i = 7" | "i = 8" | "i = 9" | "10 \<le> i" using i by linarith
    then show ?thesis
    proof cases
      case 1
      then show ?thesis using request_phase [OF l ph 1] 1 by (auto simp: edma_steps_def on_play_def)
    next
      case 2
      then show ?thesis
        using l ph by (auto simp: loadable_def edma_steps_def allocate_buffer_def on_play_def load_phase_def
            play_phase_def counters_ok_def)
    next
      case 3
      then obtain a m where b: "dmab_slic (play d) = Buffer a m" "buffer_ok (Buffer a m)" "counters_ok (play d)"
        "slot_ok (dma_slot (play d))" "slot_ok (dma_channel (play d))" "dma_channel (play d) \<noteq> dma_slot (play d)"
        "timer1_read (play d) = None"
        using ph by (auto simp: load_phase_def play_phase_def)
      obtain e where "dma_prepare (edma3 k) (play d) = Inr ((play d)\<lparr>edma := e\<rparr>)"
        "entry_ok (Buffer a m) (param e (dma_slot (play d)))" using prepare_ok [OF b(1-6)] by blast
      then show ?thesis
        using b 3 by (intro exI [of _ "(play d)\<lparr>edma := e\<rparr>"])
          (simp add: edma_steps_def unless_returned_def prepare_dma_def play_phase_def counters_ok_def)
    next
      case 4
      then obtain f where f: "edma_steps k ! (i - 7) = unless_returned (on_play f)"
        "play_phase param slot_ok (play d0) (Suc i) (f (play d))"
        using last_calls [of i d0 d] i ph by blast
      have "\<exists>a m. dmab_slic (play d) = Buffer a m" using ph 4 by (auto simp: load_phase_def play_phase_def)
      then show ?thesis using f(2) unfolding f(1) by (auto simp: unless_returned_def on_play_def)
    qed
  qed
  then show ?thesis using h by blast
qed

lemma load_advances:
  assumes "loadable k d0" "i < length (load_steps k)" "load_phase valid param slot_ok d0 i d"
  shows "\<exists>d'. (load_steps k ! i) d = Inr d' \<and> load_phase valid param slot_ok d0 (Suc i) d'"
proof -
  have n: "length (init_steps k) = 7" "length (edma_steps k) = 8" by (simp_all add: init_steps_def edma_steps_def)
  show ?thesis
    using init_advances [OF assms(1) _ assms(3)] edma_advances [OF assms(1) _ _ assms(3)] assms(2)
    by (cases "i < 7") (simp_all add: load_steps_def nth_append n)
qed

end


text \<open>Nothing of the module is in place before it is loaded.\<close>

definition unloaded :: "('q, 'e) driver \<Rightarrow> bool" where
  "unloaded d \<longleftrightarrow> \<not> ip_hook d \<and> \<not> arp_hook d \<and> timer1_read (play d) = None"

sublocale driver_contract \<subseteq> loading: phased "driver_event k" "load_steps k"
    "\<lambda>i d. loadable k d0 \<and> load_phase valid param slot_ok d0 i d" load_may too_early for d0
proof
  have n: "length (load_steps k) = 15" by (simp add: load_steps_def init_steps_def edma_steps_def)
  fix i ev d
  assume i: "i < length (load_steps k)" and ph: "loadable k d0 \<and> load_phase valid param slot_ok d0 i d"
  show "\<exists>d'. driver_event k ev d = Inr d' \<and> loadable k d0 \<and> load_phase valid param slot_ok d0 i d'"
    if "load_may i ev" "\<not> too_early i ev"
    using load_harmless [of i d0 d ev] i ph that by (simp add: n)
  show "\<exists>e. driver_event k ev d = Inl e" if "load_may i ev" "too_early i ev"
    using load_faults [of d0 i d ev] ph that by blast
  show "\<exists>d'. (load_steps k ! i) d = Inr d' \<and> loadable k d0 \<and> load_phase valid param slot_ok d0 (Suc i) d'"
    using load_advances [of d0 i d] i ph by blast
qed

context driver_contract begin

lemmas loading_whole = loading.whole

end

section \<open>Loading is safe exactly without early packets\<close>

text \<open>
  C3: loading under traffic.  The hooks are registered before the FIFO and the codec buffer exist, so what
  happens depends on when packets come.  If a raw voice packet arrives after the registration of the hook
  and before the FIFO is allocated, or a u-law packet before the codec buffer is, loading ends in an access
  through a null pointer.  If none does, loading succeeds and ends in the running state, whatever other
  packets, ARP frames, timer expiries and (once the channel is started) interrupts arrive between its calls.
\<close>

theorem load_race:
  assumes "driver_contract k contents capacity valid param used slot_ok" "loadable k d" "unloaded d"
    and "length ess = 15" "\<forall>i < 15. \<forall>ev \<in> set (ess ! i). load_may i ev"
  shows "if \<exists>i < 15. \<exists>ev \<in> set (ess ! i). too_early i ev
    then \<exists>e. interleaved (driver_event k) (load_steps k) ess d = Inl e
    else \<exists>d'. interleaved (driver_event k) (load_steps k) ess d = Inr d' \<and> running valid param slot_ok d'
      \<and> ip_hook d' \<and> arp_hook d' \<and> timer1_read (play d') = Some 1250"
proof -
  have n: "length (load_steps k) = 15" by (simp add: load_steps_def init_steps_def edma_steps_def)
  have s: "\<exists>l. play d = (play d)\<lparr>snd_log := l\<rparr>" by (rule exI [of _ "snd_log (play d)"]) simp
  have "load_phase valid param slot_ok d 0 d"
    using assms(2,3) s
    by (auto simp: load_phase_def voice_phase_def play_phase_def unloaded_def loadable_def initial_def)
  then have start: "loadable k d \<and> load_phase valid param slot_ok d 0 d" using assms(2) by blast
  have "running valid param slot_ok d'" if "load_phase valid param slot_ok d 15 d'" for d'
    using that by (auto simp: load_phase_def voice_phase_def play_phase_def running_def)
  moreover have "ip_hook d' \<and> arp_hook d' \<and> timer1_read (play d') = Some 1250" if "load_phase valid param slot_ok d 15 d'" for d'
    using that by (simp add: load_phase_def play_phase_def)
  moreover have "\<forall>i < length ess. \<forall>ev \<in> set (ess ! i). load_may i ev" using assms(4,5) by simp
  note r = driver_contract.loading_whole [OF assms(1) start _ this, unfolded n assms(4), OF refl]
  show ?thesis
  proof (cases "\<exists>i < 15. \<exists>ev \<in> set (ess ! i). too_early i ev")
    case True
    then show ?thesis using r by presburger
  next
    case False
    then show ?thesis using r calculation unfolding if_not_P [OF False] by blast
  qed
qed

theorem load_race_witness:
  "\<exists>e. interleaved (driver_event demo_kernel) (load_steps demo_kernel)
      ((replicate 15 []) [3 := [Ip_packet (demo_skb demo_frame)]]) demo_driver = Inl e"
proof -
  have mac_demo: "mac_header (demo_skb demo_frame) = demo_frame" by (simp add: demo_skb_def)
  let ?ess = "(replicate 15 []) [3 := [Ip_packet (demo_skb demo_frame)]]"
  have t: "taken demo_frame" "demo_frame ! 43 = 0" "55 \<le> length demo_frame"
    by (simp_all add: taken_def demo_frame_simps)
  have n: "?ess ! i = (if i = 3 then [Ip_packet (demo_skb demo_frame)] else [])" if "i < 15" for i
    using that by (simp add: nth_list_update)
  have may: "\<forall>i < 15. \<forall>ev \<in> set (?ess ! i). load_may i ev"
  proof (intro allI impI ballI)
    fix i and ev
    assume "i < 15" "ev \<in> set (?ess ! i)"
    then have "ev = Ip_packet (demo_skb demo_frame)" by (auto simp: n split: if_splits)
    then show "load_may i ev" using t demo_arrival by (simp add: load_may_def mac_demo)
  qed
  have early: "\<exists>i < 15. \<exists>ev \<in> set (?ess ! i). too_early i ev"
    using t by (intro exI [of _ 3]) (simp add: too_early_def mac_demo)
  have "unloaded demo_driver" by (simp add: unloaded_def demo_driver_def)
  then show ?thesis
    using load_race [OF demo.driver_contract_axioms demo_loadable _ _ may] early by (simp only: if_True) simp
qed

end
