(* ===== verification/Unload_Race.thy ===== *)
theory Unload_Race
  imports Load_Race
begin

text \<open>
  Unloading, call by call, while packets, timer expiries and interrupts still arrive.  The calls into the
  kernel that remove a hook and delete the timer wait for a running handler, so that none starts after them.
\<close>

section \<open>Unloading, call by call\<close>

definition free_buffer_pages :: "('q, 'e) driver \<Rightarrow> ('q, 'e) driver res" where
  "free_buffer_pages d =
     (case dmab_slic (play d) of
        Buffer a m \<Rightarrow> on_play (\<lambda>p. p\<lparr>dmab_slic := Freed_pages a\<rparr>) d
      | _ \<Rightarrow> Inl NullPointer)"

definition stop_stream :: "('q, 'e) kernel \<Rightarrow> ('q, 'e) driver \<Rightarrow> ('q, 'e) driver res" where
  "stop_stream k d =
     (if has_pcm (dma k) then
        on_play (log_call (snd_soc_dapm_stream_event ''Playback'' SND_SOC_DAPM_STREAM_STOP)) d
      else Inl NullPointer)"

definition unload_steps :: "('q, 'e) kernel \<Rightarrow> (('q, 'e) driver \<Rightarrow> ('q, 'e) driver res) list" where
  "unload_steps k =
     [\<lambda>d. Inr (d\<lparr>ip_hook := False\<rparr>),
      \<lambda>d. Inr (d\<lparr>arp_hook := False\<rparr>),
      on_play (\<lambda>p. p\<lparr>timer1_read := None\<rparr>),
      on_play (log_call (davinci_mcasp_trigger Null_ptr SNDRV_PCM_TRIGGER_STOP Cpu_dai)),
      stop_stream k,
      free_buffer_pages,
      on_play (\<lambda>p. p\<lparr>edma := edma_free_channel (edma3 k) (dma_channel p) (edma p)\<rparr>),
      on_play (\<lambda>p. p\<lparr>edma := edma_free_slot (edma3 k) (dma_slot p) (edma p)\<rparr>),
      \<lambda>d. Inr (set_fifo (Clear_FIFO_voice_rtp_buf (fifo (voice (hook d)))) d),
      \<lambda>d. Inr (set_codec (Clear_audio_codec (codec (voice (hook d)))) d)]"

text \<open>Undisturbed, the calls are \<open>Ab_arm_cleanup_module\<close>.\<close>

lemma unload_steps_are_cleanup: "in_sequence (unload_steps k) d = Ab_arm_cleanup_module k d"
  by (cases "dmab_slic (play d)")
    (simp_all add: unload_steps_def Ab_arm_cleanup_module_def Clear_Arm_EDMA_interface_def Let_def on_play_def
      stop_stream_def free_buffer_pages_def log_call_def)

section \<open>What the module still has when\<close>

text \<open>
  Before call \<open>i\<close>, for a module that was in state \<open>d0\<close>: hooks and timer are gone after the first three calls,
  the pages of the playback buffer at address \<open>a\<close> after the sixth, channel and slot after the next
  two.  As long as the channel is there, its reload entry reads the buffer, freed or not.
\<close>

definition given_back :: "nat \<Rightarrow> int \<Rightarrow> int \<Rightarrow> int set" where
  "given_back i ch sl = (if i \<le> 6 then {} else if i = 7 then {ch} else {ch, sl})"

definition unload_phase ::
  "('q \<Rightarrow> bool) \<Rightarrow> ('e \<Rightarrow> int \<Rightarrow> edmacc_param) \<Rightarrow> ('e \<Rightarrow> int set) \<Rightarrow> (int \<Rightarrow> bool) \<Rightarrow> ('q, 'e) driver \<Rightarrow> u32 \<Rightarrow> byte list
     \<Rightarrow> nat \<Rightarrow> ('q, 'e) driver \<Rightarrow> bool" where
  "unload_phase valid param used slot_ok d0 a m i d \<longleftrightarrow>
     (1 \<le> i \<longrightarrow> \<not> ip_hook d) \<and> (2 \<le> i \<longrightarrow> \<not> arp_hook d) \<and> (3 \<le> i \<longrightarrow> timer1_read (play d) = None)
     \<and> (i \<le> 8 \<longrightarrow> voice_ready valid (voice (hook d))) \<and> (9 \<le> i \<longrightarrow> fifo (voice (hook d)) = None)
     \<and> (10 \<le> i \<longrightarrow> not_ready (voice (hook d)))
     \<and> counters_ok (play d) \<and> dma_slot (play d) = dma_slot (play d0) \<and> dma_channel (play d) = dma_channel (play d0)
     \<and> dmab_slic (play d) = (if i \<le> 5 then Buffer a m else Freed_pages a)
     \<and> used (edma (play d)) = used (edma (play d0)) - given_back i (dma_channel (play d0)) (dma_slot (play d0))
     \<and> (i \<le> 6 \<longrightarrow> entry_ok (Buffer a m) (param (edma (play d)) (dma_slot (play d))))"

text \<open>The interrupt handler is removed together with the channel.\<close>

definition unload_may :: "nat \<Rightarrow> event \<Rightarrow> bool" where
  "unload_may i ev = (case ev of Ip_packet skb \<Rightarrow> arrival_ok skb | Dma_irq st \<Rightarrow> i \<le> 6 | _ \<Rightarrow> True)"

context driver_contract begin

lemma unload_timer:
  assumes ph: "unload_phase valid param used slot_ok d0 a m i d"
  shows "\<exists>d'. driver_event k Timer_expiry d = Inr d' \<and> unload_phase valid param used slot_ok d0 a m i d'"
proof (cases "timer1_read (play d)")
  case (Some t)
  then have b: "i \<le> 2" "dmab_slic (play d) = Buffer a m" "counters_ok (play d)" "voice_ready valid (voice (hook d))"
    using ph by (auto simp: unload_phase_def split: if_splits)
  then obtain q where q: "fifo (voice (hook d)) = Some q" "valid q" by (auto simp: voice_ready_def)
  obtain q' where t: "timer1_routine (kfifo k) (Some q) (play d) =
      Inr (Some q', (advance_counters (play d))\<lparr>timer1_read := Some 40\<rparr>)" "valid q'"
    using fifo_c.timer_ok [OF b(2) q(2)] by blast
  have "counters_ok ((advance_counters (play d))\<lparr>timer1_read := Some 40\<rparr>)"
    using advance_counters_ok [OF b(3)] by (simp add: counters_ok_def)
  then show ?thesis
    using ph b q t Some by (auto simp: driver_event_def unload_phase_def set_fifo_def voice_ready_def)
qed (use ph in \<open>simp add: driver_event_def\<close>)

lemma unload_harmless:
  assumes "buffer_ok (Buffer a m)" "slot_ok (dma_slot (play d0))"
    and ph: "unload_phase valid param used slot_ok d0 a m i d" and may: "unload_may i ev"
  shows "\<exists>d'. driver_event k ev d = Inr d' \<and> unload_phase valid param used slot_ok d0 a m i d'"
proof (cases ev)
  case (Ip_packet skb)
  show ?thesis
  proof (cases "ip_hook d")
    case True
    then have r: "voice_ready valid (voice (hook d))" "i = 0" using ph by (auto simp: unload_phase_def)
    then obtain q where "fifo (voice (hook d)) = Some q" by (auto simp: voice_ready_def)
    then obtain h v where "Hook_Func (kfifo k) skb (hook d) = Inr (h, v)" "voice_ready valid (voice h)"
      using fifo_c.hook_step [OF r(1)] may by (fastforce simp: unload_may_def Ip_packet)
    then show ?thesis using ph r(2) True Ip_packet by (auto simp: driver_event_def unload_phase_def)
  qed (use ph Ip_packet in \<open>simp add: driver_event_def\<close>)
next
  case (Arp_frame skb)
  then show ?thesis using ph by (simp add: driver_event_def Hook_Func_ARP_def)
next
  case Timer_expiry
  then show ?thesis using unload_timer [OF ph] by simp
next
  case (Dma_irq st)
  then have i: "i \<le> 6" using may by (simp add: unload_may_def)
  have b: "descriptor (dmab_slic (play d)) = Inr a" "counters_ok (play d)" "slot_ok (dma_slot (play d))"
    "entry_ok (Buffer a m) (param (edma (play d)) (dma_slot (play d)))"
    using ph i assms(2) by (auto simp: unload_phase_def)
  obtain e where "callback1 (edma3 k) st (play d) = Inr ((play d)\<lparr>edma := e\<rparr>)" "used e = used (edma (play d))"
    "entry_ok (Buffer a m) (param e (dma_slot (play d)))"
    using irq_play [OF b(1) assms(1) b(2-4)] by blast
  then show ?thesis
    using ph Dma_irq by (simp add: driver_event_def unload_phase_def counters_ok_def)
qed

lemma unload_advances:
  assumes "has_pcm (dma k)" "i < length (unload_steps k)" "unload_phase valid param used slot_ok d0 a m i d"
  shows "\<exists>d'. (unload_steps k ! i) d = Inr d' \<and> unload_phase valid param used slot_ok d0 a m (Suc i) d'"
proof -
  have "i < 10" using assms(2) by (simp add: unload_steps_def)
  then consider "i < 5" | "i = 5" | "i = 6" | "i = 7" | "i = 8" | "i = 9" by linarith
  note cs = this
  have low: "i = 0 \<or> i = 1 \<or> i = 2 \<or> i = 3 \<or> i = 4" if "i < 5" using that by linarith
  note defs = unload_steps_def unload_phase_def on_play_def stop_stream_def free_buffer_pages_def
    log_call_def counters_ok_def given_back_def set_fifo_def set_codec_def Clear_FIFO_voice_rtp_buf_def
    Clear_audio_codec_def not_ready_def dma_c.free_channel dma_c.free_slot
  show ?thesis using assms(1,3) by (cases rule: cs) (auto simp: defs dest!: low)
qed

end

sublocale driver_contract \<subseteq> unloading: phased "driver_event k" "unload_steps k"
    "\<lambda>i d. has_pcm (dma k) \<and> buffer_ok (Buffer a m) \<and> slot_ok (dma_slot (play d0))
      \<and> unload_phase valid param used slot_ok d0 a m i d" unload_may "\<lambda>_ _. False" for d0 a m
  by unfold_locales (use unload_harmless unload_advances in blast)+

context driver_contract begin

lemmas unloading_whole = unloading.whole
lemmas unloading_prefix = unloading.prefix

end

section \<open>Unloading under traffic\<close>



end
