(* ===== verification/Md5.thy ===== *)
theory Md5
  imports Prelude
begin

text \<open>
  MD5 as in \<open>app/linux/sip/src/md5.c\<close>: a context that is fed piece by piece and a block
  function with its 64 unrolled steps.  The last sections prove that any sequence of updates
  computes the digest of RFC 1321 of the concatenation, defined from the padded message and a
  table-driven compression function.
\<close>

section \<open>Data\<close>

text \<open>The four registers, and the context.  \<open>count0\<close> is the low half of the bit count.\<close>

type_synonym regs = "u32 \<times> u32 \<times> u32 \<times> u32"

record MD5_CTX =
  state :: regs
  count0 :: u32
  count1 :: u32
  buffer :: "byte list"

definition S11 :: nat where "S11 = 7"
definition S12 :: nat where "S12 = 12"
definition S13 :: nat where "S13 = 17"
definition S14 :: nat where "S14 = 22"
definition S21 :: nat where "S21 = 5"
definition S22 :: nat where "S22 = 9"
definition S23 :: nat where "S23 = 14"
definition S24 :: nat where "S24 = 20"
definition S31 :: nat where "S31 = 4"
definition S32 :: nat where "S32 = 11"
definition S33 :: nat where "S33 = 16"
definition S34 :: nat where "S34 = 23"
definition S41 :: nat where "S41 = 6"
definition S42 :: nat where "S42 = 10"
definition S43 :: nat where "S43 = 15"
definition S44 :: nat where "S44 = 21"

lemmas shifts = S11_def S12_def S13_def S14_def S21_def S22_def S23_def S24_def
  S31_def S32_def S33_def S34_def S41_def S42_def S43_def S44_def

definition PADDING :: "byte list" where "PADDING = 0x80 # replicate 63 0"

section \<open>The block function\<close>

definition F :: "u32 \<Rightarrow> u32 \<Rightarrow> u32 \<Rightarrow> u32" where "F x y z = ((x AND y) OR (NOT x AND z))"
definition G :: "u32 \<Rightarrow> u32 \<Rightarrow> u32 \<Rightarrow> u32" where "G x y z = ((x AND z) OR (y AND NOT z))"
definition H :: "u32 \<Rightarrow> u32 \<Rightarrow> u32 \<Rightarrow> u32" where "H x y z = ((x XOR y) XOR z)"
definition I :: "u32 \<Rightarrow> u32 \<Rightarrow> u32 \<Rightarrow> u32" where "I x y z = (y XOR (x OR NOT z))"

definition ROTATE_LEFT :: "u32 \<Rightarrow> nat \<Rightarrow> u32" where
  "ROTATE_LEFT x n = push_bit n x OR drop_bit (32 - n) x"

text \<open>The step macros: the new value of their first argument.\<close>

definition FF :: "u32 \<Rightarrow> u32 \<Rightarrow> u32 \<Rightarrow> u32 \<Rightarrow> u32 \<Rightarrow> nat \<Rightarrow> u32 \<Rightarrow> u32" where
  "FF a b c d x s ac = (let a = a + (F b c d + x + ac); a = ROTATE_LEFT a s in a + b)"
definition GG :: "u32 \<Rightarrow> u32 \<Rightarrow> u32 \<Rightarrow> u32 \<Rightarrow> u32 \<Rightarrow> nat \<Rightarrow> u32 \<Rightarrow> u32" where
  "GG a b c d x s ac = (let a = a + (G b c d + x + ac); a = ROTATE_LEFT a s in a + b)"
definition HH :: "u32 \<Rightarrow> u32 \<Rightarrow> u32 \<Rightarrow> u32 \<Rightarrow> u32 \<Rightarrow> nat \<Rightarrow> u32 \<Rightarrow> u32" where
  "HH a b c d x s ac = (let a = a + (H b c d + x + ac); a = ROTATE_LEFT a s in a + b)"
definition II :: "u32 \<Rightarrow> u32 \<Rightarrow> u32 \<Rightarrow> u32 \<Rightarrow> u32 \<Rightarrow> nat \<Rightarrow> u32 \<Rightarrow> u32" where
  "II a b c d x s ac = (let a = a + (I b c d + x + ac); a = ROTATE_LEFT a s in a + b)"

text \<open>
  \<open>Encode\<close> and \<open>Decode\<close> convert whole arrays, as at all their calls: 2 or 4 words to 8 or 16
  bytes, 64 bytes to 16 words.
\<close>

fun Encode :: "u32 list \<Rightarrow> byte list" where
  "Encode [] = []"
| "Encode (w # ws) =
     [ucast (w AND 0xff), ucast (drop_bit 8 w AND 0xff), ucast (drop_bit 16 w AND 0xff),
      ucast (drop_bit 24 w AND 0xff)] @ Encode ws"

fun Decode :: "byte list \<Rightarrow> u32 list" where
  "Decode (b0 # b1 # b2 # b3 # bs) =
     (ucast b0 OR push_bit 8 (ucast b1) OR push_bit 16 (ucast b2) OR push_bit 24 (ucast b3)) # Decode bs"
| "Decode bs = []"

definition round1 :: "u32 list \<Rightarrow> regs \<Rightarrow> regs" where
  "round1 x = (\<lambda>(a, b, c, d).
    let a = FF a b c d (x ! 0) S11 0xd76aa478;
        d = FF d a b c (x ! 1) S12 0xe8c7b756;
        c = FF c d a b (x ! 2) S13 0x242070db;
        b = FF b c d a (x ! 3) S14 0xc1bdceee;
        a = FF a b c d (x ! 4) S11 0xf57c0faf;
        d = FF d a b c (x ! 5) S12 0x4787c62a;
        c = FF c d a b (x ! 6) S13 0xa8304613;
        b = FF b c d a (x ! 7) S14 0xfd469501;
        a = FF a b c d (x ! 8) S11 0x698098d8;
        d = FF d a b c (x ! 9) S12 0x8b44f7af;
        c = FF c d a b (x ! 10) S13 0xffff5bb1;
        b = FF b c d a (x ! 11) S14 0x895cd7be;
        a = FF a b c d (x ! 12) S11 0x6b901122;
        d = FF d a b c (x ! 13) S12 0xfd987193;
        c = FF c d a b (x ! 14) S13 0xa679438e;
        b = FF b c d a (x ! 15) S14 0x49b40821
    in (a, b, c, d))"

definition round2 :: "u32 list \<Rightarrow> regs \<Rightarrow> regs" where
  "round2 x = (\<lambda>(a, b, c, d).
    let a = GG a b c d (x ! 1) S21 0xf61e2562;
        d = GG d a b c (x ! 6) S22 0xc040b340;
        c = GG c d a b (x ! 11) S23 0x265e5a51;
        b = GG b c d a (x ! 0) S24 0xe9b6c7aa;
        a = GG a b c d (x ! 5) S21 0xd62f105d;
        d = GG d a b c (x ! 10) S22 0x2441453;
        c = GG c d a b (x ! 15) S23 0xd8a1e681;
        b = GG b c d a (x ! 4) S24 0xe7d3fbc8;
        a = GG a b c d (x ! 9) S21 0x21e1cde6;
        d = GG d a b c (x ! 14) S22 0xc33707d6;
        c = GG c d a b (x ! 3) S23 0xf4d50d87;
        b = GG b c d a (x ! 8) S24 0x455a14ed;
        a = GG a b c d (x ! 13) S21 0xa9e3e905;
        d = GG d a b c (x ! 2) S22 0xfcefa3f8;
        c = GG c d a b (x ! 7) S23 0x676f02d9;
        b = GG b c d a (x ! 12) S24 0x8d2a4c8a
    in (a, b, c, d))"

definition round3 :: "u32 list \<Rightarrow> regs \<Rightarrow> regs" where
  "round3 x = (\<lambda>(a, b, c, d).
    let a = HH a b c d (x ! 5) S31 0xfffa3942;
        d = HH d a b c (x ! 8) S32 0x8771f681;
        c = HH c d a b (x ! 11) S33 0x6d9d6122;
        b = HH b c d a (x ! 14) S34 0xfde5380c;
        a = HH a b c d (x ! 1) S31 0xa4beea44;
        d = HH d a b c (x ! 4) S32 0x4bdecfa9;
        c = HH c d a b (x ! 7) S33 0xf6bb4b60;
        b = HH b c d a (x ! 10) S34 0xbebfbc70;
        a = HH a b c d (x ! 13) S31 0x289b7ec6;
        d = HH d a b c (x ! 0) S32 0xeaa127fa;
        c = HH c d a b (x ! 3) S33 0xd4ef3085;
        b = HH b c d a (x ! 6) S34 0x4881d05;
        a = HH a b c d (x ! 9) S31 0xd9d4d039;
        d = HH d a b c (x ! 12) S32 0xe6db99e5;
        c = HH c d a b (x ! 15) S33 0x1fa27cf8;
        b = HH b c d a (x ! 2) S34 0xc4ac5665
    in (a, b, c, d))"

definition round4 :: "u32 list \<Rightarrow> regs \<Rightarrow> regs" where
  "round4 x = (\<lambda>(a, b, c, d).
    let a = II a b c d (x ! 0) S41 0xf4292244;
        d = II d a b c (x ! 7) S42 0x432aff97;
        c = II c d a b (x ! 14) S43 0xab9423a7;
        b = II b c d a (x ! 5) S44 0xfc93a039;
        a = II a b c d (x ! 12) S41 0x655b59c3;
        d = II d a b c (x ! 3) S42 0x8f0ccc92;
        c = II c d a b (x ! 10) S43 0xffeff47d;
        b = II b c d a (x ! 1) S44 0x85845dd1;
        a = II a b c d (x ! 8) S41 0x6fa87e4f;
        d = II d a b c (x ! 15) S42 0xfe2ce6e0;
        c = II c d a b (x ! 6) S43 0xa3014314;
        b = II b c d a (x ! 13) S44 0x4e0811a1;
        a = II a b c d (x ! 4) S41 0xf7537e82;
        d = II d a b c (x ! 11) S42 0xbd3af235;
        c = II c d a b (x ! 2) S43 0x2ad7d2bb;
        b = II b c d a (x ! 9) S44 0xeb86d391
    in (a, b, c, d))"

definition MD5Transform :: "regs \<Rightarrow> byte list \<Rightarrow> regs" where
  "MD5Transform st block =
     (let x = Decode block;
          (a, b, c, d) = round4 x (round3 x (round2 x (round1 x st)))
      in case st of (s0, s1, s2, s3) \<Rightarrow> (s0 + a, s1 + b, s2 + c, s3 + d))"

section \<open>Context operations\<close>

definition MD5Init :: "MD5_CTX \<Rightarrow> MD5_CTX" where
  "MD5Init context = context\<lparr>count0 := 0, count1 := 0,
     state := (0x67452301, 0xefcdab89, 0x98badcfe, 0x10325476)\<rparr>"

text \<open>
  The byte loop of \<open>MD5_memcpy\<close>, from offset \<open>k\<close> of \<open>input\<close> to offset \<open>p\<close> of \<open>output\<close>.
\<close>

function MD5_memcpy :: "byte list \<Rightarrow> nat \<Rightarrow> byte list \<Rightarrow> nat \<Rightarrow> nat \<Rightarrow> nat \<Rightarrow> byte list res" where
  "MD5_memcpy output p input k len i =
     (if i < len then
        bindR (mem_read (k + i) 1 input) (\<lambda>v.
        bindR (mem_write (p + i) v output) (\<lambda>output'.
        MD5_memcpy output' p input k len (Suc i)))
      else Inr output)"
  by pat_completeness auto
termination by (relation "measure (\<lambda>(output, p, input, k, len, i). len - i)") auto

declare MD5_memcpy.simps [simp del]

definition MD5_memset :: "byte \<Rightarrow> nat \<Rightarrow> byte list" where
  "MD5_memset value len = replicate len value"

partial_function (option) update_loop ::
  "byte list \<Rightarrow> u32 \<Rightarrow> u32 \<Rightarrow> regs \<Rightarrow> (regs \<times> u32) res option" where
  "update_loop input inputLen i st =
     (if i + 63 < inputLen then
        case mem_read (unat i) 64 input of
          Inl e \<Rightarrow> Some (Inl e)
        | Inr block \<Rightarrow> update_loop input inputLen (i + 64) (MD5Transform st block)
      else Some (Inr (st, i)))"

text \<open>The number of bits, in two words with a carry.\<close>

definition update_count :: "MD5_CTX \<Rightarrow> u32 \<Rightarrow> MD5_CTX" where
  "update_count context inputLen =
     (let ctx1 = context\<lparr>count0 := count0 context + push_bit 3 inputLen\<rparr>;
          ctx2 = (if count0 ctx1 < push_bit 3 inputLen then ctx1\<lparr>count1 := count1 ctx1 + 1\<rparr> else ctx1)
      in ctx2\<lparr>count1 := count1 ctx2 + drop_bit 29 inputLen\<rparr>)"

definition MD5Update :: "MD5_CTX \<Rightarrow> byte list \<Rightarrow> u32 \<Rightarrow> MD5_CTX res" where
  "MD5Update context input inputLen =
     (let index = (drop_bit 3 (count0 context)) AND 0x3F;
          ctx3 = update_count context inputLen;
          partLen = 64 - index
      in bindR
           (if partLen \<le> inputLen then
              bindR (MD5_memcpy (buffer ctx3) (unat index) input 0 (unat partLen) 0) (\<lambda>buf.
              let st = MD5Transform (state ctx3) buf
              in bindR (of_loop (update_loop input inputLen partLen st)) (\<lambda>(st', i).
                 Inr (ctx3\<lparr>buffer := buf, state := st'\<rparr>, 0, i)))
            else Inr (ctx3, index, 0))
           (\<lambda>(ctx4, index', i).
              bindR (MD5_memcpy (buffer ctx4) (unat index') input (unat i) (unat (inputLen - i)) 0)
                (\<lambda>buf. Inr (ctx4\<lparr>buffer := buf\<rparr>))))"

definition regs_list :: "regs \<Rightarrow> u32 list" where
  "regs_list r = (case r of (a, b, c, d) \<Rightarrow> [a, b, c, d])"

definition MD5Final :: "MD5_CTX \<Rightarrow> (byte list \<times> MD5_CTX) res" where
  "MD5Final context =
     (let bits = Encode [count0 context, count1 context];
          index = (drop_bit 3 (count0 context)) AND 0x3f;
          padLen = (if index < 56 then 56 - index else 120 - index)
      in bindR (MD5Update context PADDING padLen) (\<lambda>ctx1.
         bindR (MD5Update ctx1 bits 8) (\<lambda>ctx2.
         let digest = Encode (regs_list (state ctx2))
         in Inr (digest, \<lparr>state = (0, 0, 0, 0), count0 = 0, count1 = 0, buffer = MD5_memset 0 64\<rparr>))))"

section \<open>The reference\<close>

text \<open>
  The steps of RFC 1321 by tables: constants, shift amounts and word order of the four rounds.
  One step computes the new value of the first register and rotates the registers.
\<close>

fun ref_steps :: "(u32 \<Rightarrow> u32 \<Rightarrow> u32 \<Rightarrow> u32 \<Rightarrow> u32 \<Rightarrow> nat \<Rightarrow> u32 \<Rightarrow> u32) \<Rightarrow> u32 list
    \<Rightarrow> (nat \<times> nat \<times> u32) list \<Rightarrow> regs \<Rightarrow> regs" where
  "ref_steps f x [] r = r"
| "ref_steps f x ((k, s, t) # ts) (a, b, c, d) =
     (let v = f a b c d (x ! k) s t in ref_steps f x ts (d, v, b, c))"

definition T :: "u32 list list" where
  "T =
    [[0xd76aa478, 0xe8c7b756, 0x242070db, 0xc1bdceee, 0xf57c0faf, 0x4787c62a, 0xa8304613,
     0xfd469501, 0x698098d8, 0x8b44f7af, 0xffff5bb1, 0x895cd7be, 0x6b901122, 0xfd987193,
     0xa679438e, 0x49b40821],
     [0xf61e2562, 0xc040b340, 0x265e5a51, 0xe9b6c7aa, 0xd62f105d, 0x2441453, 0xd8a1e681,
     0xe7d3fbc8, 0x21e1cde6, 0xc33707d6, 0xf4d50d87, 0x455a14ed, 0xa9e3e905, 0xfcefa3f8,
     0x676f02d9, 0x8d2a4c8a],
     [0xfffa3942, 0x8771f681, 0x6d9d6122, 0xfde5380c, 0xa4beea44, 0x4bdecfa9, 0xf6bb4b60,
     0xbebfbc70, 0x289b7ec6, 0xeaa127fa, 0xd4ef3085, 0x4881d05, 0xd9d4d039, 0xe6db99e5,
     0x1fa27cf8, 0xc4ac5665],
     [0xf4292244, 0x432aff97, 0xab9423a7, 0xfc93a039, 0x655b59c3, 0x8f0ccc92, 0xffeff47d,
     0x85845dd1, 0x6fa87e4f, 0xfe2ce6e0, 0xa3014314, 0x4e0811a1, 0xf7537e82, 0xbd3af235,
     0x2ad7d2bb, 0xeb86d391]]"

definition ref_schedule :: "nat \<Rightarrow> nat \<Rightarrow> nat list \<Rightarrow> u32 list \<Rightarrow> (nat \<times> nat \<times> u32) list" where
  "ref_schedule m o' ss ts = map (\<lambda>i. ((m * i + o') mod 16, ss ! (i mod 4), ts ! i)) [0..<16]"

definition ref_transform :: "regs \<Rightarrow> byte list \<Rightarrow> regs" where
  "ref_transform st block =
     (let x = Decode block;
          r1 = ref_steps FF x (ref_schedule 1 0 [7, 12, 17, 22] (T ! 0)) st;
          r2 = ref_steps GG x (ref_schedule 5 1 [5, 9, 14, 20] (T ! 1)) r1;
          r3 = ref_steps HH x (ref_schedule 3 5 [4, 11, 16, 23] (T ! 2)) r2;
          (a, b, c, d) = ref_steps II x (ref_schedule 7 0 [6, 10, 15, 21] (T ! 3)) r3
      in case st of (s0, s1, s2, s3) \<Rightarrow> (s0 + a, s1 + b, s2 + c, s3 + d))"

lemma upt_16: "[0..<16] = [0, 1, 2, 3, 4, 5, 6, 7, 8, 9, 10, 11, 12, 13, 14, 15]"
  by (simp add: upt_rec)

lemma schedules:
  "ref_schedule 1 0 [7, 12, 17, 22] (T ! 0) =
     [(0, 7, 0xd76aa478), (1, 12, 0xe8c7b756), (2, 17, 0x242070db), (3, 22, 0xc1bdceee),
      (4, 7, 0xf57c0faf), (5, 12, 0x4787c62a), (6, 17, 0xa8304613), (7, 22, 0xfd469501),
      (8, 7, 0x698098d8), (9, 12, 0x8b44f7af), (10, 17, 0xffff5bb1), (11, 22, 0x895cd7be),
      (12, 7, 0x6b901122), (13, 12, 0xfd987193), (14, 17, 0xa679438e), (15, 22,
      0x49b40821)]"
  "ref_schedule 5 1 [5, 9, 14, 20] (T ! 1) =
     [(1, 5, 0xf61e2562), (6, 9, 0xc040b340), (11, 14, 0x265e5a51), (0, 20, 0xe9b6c7aa),
      (5, 5, 0xd62f105d), (10, 9, 0x2441453), (15, 14, 0xd8a1e681), (4, 20, 0xe7d3fbc8),
      (9, 5, 0x21e1cde6), (14, 9, 0xc33707d6), (3, 14, 0xf4d50d87), (8, 20, 0x455a14ed),
      (13, 5, 0xa9e3e905), (2, 9, 0xfcefa3f8), (7, 14, 0x676f02d9), (12, 20, 0x8d2a4c8a)]"
  "ref_schedule 3 5 [4, 11, 16, 23] (T ! 2) =
     [(5, 4, 0xfffa3942), (8, 11, 0x8771f681), (11, 16, 0x6d9d6122), (14, 23, 0xfde5380c),
      (1, 4, 0xa4beea44), (4, 11, 0x4bdecfa9), (7, 16, 0xf6bb4b60), (10, 23, 0xbebfbc70),
      (13, 4, 0x289b7ec6), (0, 11, 0xeaa127fa), (3, 16, 0xd4ef3085), (6, 23, 0x4881d05),
      (9, 4, 0xd9d4d039), (12, 11, 0xe6db99e5), (15, 16, 0x1fa27cf8), (2, 23, 0xc4ac5665)]"
  "ref_schedule 7 0 [6, 10, 15, 21] (T ! 3) =
     [(0, 6, 0xf4292244), (7, 10, 0x432aff97), (14, 15, 0xab9423a7), (5, 21, 0xfc93a039),
      (12, 6, 0x655b59c3), (3, 10, 0x8f0ccc92), (10, 15, 0xffeff47d), (1, 21, 0x85845dd1),
      (8, 6, 0x6fa87e4f), (15, 10, 0xfe2ce6e0), (6, 15, 0xa3014314), (13, 21, 0x4e0811a1),
      (4, 6, 0xf7537e82), (11, 10, 0xbd3af235), (2, 15, 0x2ad7d2bb), (9, 21, 0xeb86d391)]"
  by (simp_all add: ref_schedule_def T_def upt_16)

lemma rounds_ref:
  "round1 x r = ref_steps FF x (ref_schedule 1 0 [7, 12, 17, 22] (T ! 0)) r"
  "round2 x r = ref_steps GG x (ref_schedule 5 1 [5, 9, 14, 20] (T ! 1)) r"
  "round3 x r = ref_steps HH x (ref_schedule 3 5 [4, 11, 16, 23] (T ! 2)) r"
  "round4 x r = ref_steps II x (ref_schedule 7 0 [6, 10, 15, 21] (T ! 3)) r"
  unfolding schedules round1_def round2_def round3_def round4_def shifts
  by (cases r, simp only: ref_steps.simps prod.case)+

lemma transform_ref: "MD5Transform st block = ref_transform st block"
  by (simp add: MD5Transform_def ref_transform_def rounds_ref Let_def)

text \<open>Absorbing whole blocks, padding, and the digest of a message.\<close>

function absorb :: "regs \<Rightarrow> byte list \<Rightarrow> regs" where
  "absorb st m = (if length m < 64 then st else absorb (ref_transform st (take 64 m)) (drop 64 m))"
  by pat_completeness auto
termination by (relation "measure (\<lambda>(st, m). length m)") auto

declare absorb.simps [simp del]

definition init_regs :: regs where
  "init_regs = (0x67452301, 0xefcdab89, 0x98badcfe, 0x10325476)"

definition le64 :: "nat \<Rightarrow> byte list" where
  "le64 x = map (\<lambda>i. of_nat (x div 256 ^ i)) [0..<8]"

definition md5_padding :: "nat \<Rightarrow> byte list" where
  "md5_padding n = [0x80] @ replicate ((119 - n mod 64) mod 64) 0 @ le64 (8 * n)"

definition md5 :: "byte list \<Rightarrow> byte list" where
  "md5 m = Encode (regs_list (absorb init_regs (m @ md5_padding (length m))))"

section \<open>Copying and absorbing\<close>

lemma memcpy_ok:
  assumes "i \<le> len" "k + len \<le> length input" "k + len < 2 ^ 32" "p + len \<le> length outp"
  shows "MD5_memcpy outp p input k len i =
    Inr (take (p + i) outp @ take (len - i) (drop (k + i) input) @ drop (p + len) outp)"
  using assms
proof (induction "len - i" arbitrary: i outp)
  case 0
  then show ?case by (subst MD5_memcpy.simps) simp
next
  case (Suc n)
  then have i: "i < len" by simp
  define v where "v = input ! (k + i)"
  define out where "out = take (p + i) outp @ [v] @ drop (Suc (p + i)) outp"
  have r: "mem_read (k + i) 1 input = Inr [v]"
    using i Suc.prems by (simp add: mem_read_def v_def take_Suc hd_drop_conv_nth)
  have w: "mem_write (p + i) [v] outp = Inr out"
    using i Suc.prems by (simp add: mem_write_def out_def)
  have "MD5_memcpy out p input k len (Suc i) =
      Inr (take (p + Suc i) out @ take (len - Suc i) (drop (k + Suc i) input) @ drop (p + len) out)"
    using Suc.hyps(2) Suc.prems i by (intro Suc.hyps(1)) (auto simp: out_def)
  moreover have "take (p + Suc i) out = take (p + i) outp @ [v]" "drop (p + len) out = drop (p + len) outp"
  proof -
    have l: "length (take (p + i) outp) = p + i" "p + len = (p + i) + Suc (len - Suc i)"
      using i Suc.prems by simp_all
    show "take (p + Suc i) out = take (p + i) outp @ [v]" using l(1) by (simp add: out_def)
    show "drop (p + len) out = drop (p + len) outp"
      unfolding out_def l(2) drop_append l(1) using i Suc.prems by (simp add: add.commute)
  qed
  moreover have "take (len - i) (drop (k + i) input) = v # take (len - Suc i) (drop (k + Suc i) input)"
  proof -
    have "drop (k + i) input = v # drop (k + Suc i) input"
      using i Suc.prems by (simp add: v_def Cons_nth_drop_Suc)
    moreover have "len - i = Suc (len - Suc i)" using i by simp
    ultimately show ?thesis by simp
  qed
  ultimately show ?case
    using i r w by (subst MD5_memcpy.simps) simp
qed

definition rest :: "byte list \<Rightarrow> byte list" where
  "rest m = drop (64 * (length m div 64)) m"

lemma length_rest: "length (rest m) = length m mod 64"
  by (simp add: rest_def minus_mult_div_eq_mod)

lemma rest_append: "64 dvd length a \<Longrightarrow> rest (a @ b) = rest b"
  by (auto simp: rest_def elim!: dvdE)

lemma absorb_short: "length m < 64 \<Longrightarrow> absorb st m = st"
  by (subst absorb.simps) simp

lemma absorb_append: "64 dvd length a \<Longrightarrow> absorb st (a @ b) = absorb (absorb st a) b"
proof (induction st a rule: absorb.induct)
  case (1 st a)
  show ?case
  proof (cases "length a < 64")
    case True
    then have "a = []" using 1(2) by (auto elim!: dvdE)
    then show ?thesis by (simp add: absorb_short)
  next
    case False
    then have "64 dvd length (drop 64 a)" using 1(2) by (auto elim!: dvdE)
    then have IH: "absorb (ref_transform st (take 64 a)) (drop 64 a @ b) =
        absorb (absorb (ref_transform st (take 64 a)) (drop 64 a)) b"
      using 1(1) False by simp
    have "absorb st (a @ b) = absorb (ref_transform st (take 64 a)) (drop 64 a @ b)"
      using False by (subst absorb.simps) simp
    moreover have "absorb st a = absorb (ref_transform st (take 64 a)) (drop 64 a)"
      using False by (subst absorb.simps) simp
    ultimately show ?thesis using IH by simp
  qed
qed

text \<open>A message is its whole blocks and the rest; only the blocks count for the registers.\<close>

lemma split_rest:
  obtains full where "m = full @ rest m" "64 dvd length full" "absorb st full = absorb st m"
proof
  let ?f = "take (64 * (length m div 64)) m"
  show 1: "m = ?f @ rest m" by (simp add: rest_def)
  show 2: "64 dvd length ?f" by (simp add: min_absorb2)
  have "absorb st m = absorb (absorb st ?f) (rest m)"
    using absorb_append [OF 2, of st "rest m"] 1 by simp
  then show "absorb st ?f = absorb st m" by (simp add: absorb_short length_rest)
qed

lemma absorb_more:
  "absorb st (m @ b) = absorb (absorb st m) (rest m @ b)"
proof -
  obtain full where f: "m = full @ rest m" "64 dvd length full" "absorb st full = absorb st m"
    using split_rest by blast
  have "absorb st (m @ b) = absorb st (full @ (rest m @ b))" using f(1) by (metis append_assoc)
  then show ?thesis using absorb_append [OF f(2)] f(3) by simp
qed

lemma rest_more: "rest (m @ b) = rest (rest m @ b)"
proof -
  obtain full where f: "m = full @ rest m" "64 dvd length full"
    using split_rest by blast
  have "rest (m @ b) = rest (full @ (rest m @ b))" using f(1) by (metis append_assoc)
  then show ?thesis using rest_append [OF f(2)] by simp
qed

lemma update_loop_ok:
  assumes "n \<le> length input" "n < 2 ^ 32 - 64" "i \<le> n"
  shows "update_loop input (of_nat n) (of_nat i) st =
    Some (Inr (absorb st (drop i (take n input)), of_nat (i + 64 * ((n - i) div 64))))"
  using assms
proof (induction "n - i" arbitrary: i st rule: less_induct)
  case less
  note u = unat_u32
  have c: "(of_nat i + 63 < (of_nat n :: u32)) \<longleftrightarrow> i + 63 < n"
  proof -
    have "unat (of_nat i + 63 :: u32) = i + 63" using u [of "i + 63"] less.prems by simp
    then show ?thesis using u [of n] less.prems by (simp add: word_less_nat_alt)
  qed
  show ?case
  proof (cases "i + 63 < n")
    case True
    have r: "mem_read i 64 input = Inr (take 64 (drop i input))"
      using True less.prems by (simp add: mem_read_def)
    have IH: "update_loop input (of_nat n) (of_nat (i + 64)) (MD5Transform st (take 64 (drop i input))) =
        Some (Inr (absorb (MD5Transform st (take 64 (drop i input))) (drop (i + 64) (take n input)),
          of_nat (i + 64 + 64 * ((n - (i + 64)) div 64))))"
      using True less.prems by (intro less.hyps) auto
    have d: "64 + 64 * ((n - (i + 64)) div 64) = 64 * ((n - i) div 64)"
      using True by (subst (2) le_div_geq) (auto simp: algebra_simps)
    have "64 \<le> length (drop i (take n input))" using True less.prems by simp
    then have "absorb st (drop i (take n input)) =
        absorb (ref_transform st (take 64 (drop i (take n input)))) (drop 64 (drop i (take n input)))"
      by (subst absorb.simps) simp
    moreover have "take 64 (drop i (take n input)) = take 64 (drop i input)"
      using True less.prems by (simp add: drop_take)
    ultimately have a: "absorb st (drop i (take n input)) =
        absorb (MD5Transform st (take 64 (drop i input))) (drop (i + 64) (take n input))"
      by (simp add: transform_ref add.commute)
    have e: "(of_nat i :: u32) + 64 = of_nat (i + 64)" by simp
    show ?thesis
      using True IH r u [of i] less.prems
      by (subst update_loop.simps) (simp add: c a d e add.assoc del: of_nat_add)
  next
    case False
    then have "(n - i) div 64 = 0" using less.prems by simp
    then show ?thesis
      using False less.prems by (subst update_loop.simps) (simp add: c absorb_short)
  qed
qed

section \<open>The context of a stream\<close>

text \<open>
  The context after the message \<open>m\<close> has been fed: bit count modulo \<open>2 ^ 64\<close>, registers of the
  whole blocks, and the rest in the buffer.
\<close>

definition ctx_of :: "byte list \<Rightarrow> MD5_CTX \<Rightarrow> bool" where
  "ctx_of m c \<longleftrightarrow> count0 c = of_nat (8 * length m) \<and> count1 c = of_nat (8 * length m div 2 ^ 32)
     \<and> state c = absorb init_regs m \<and> length (buffer c) = 64
     \<and> take (length m mod 64) (buffer c) = rest m"

lemma ctx_init: "length (buffer c) = 64 \<Longrightarrow> ctx_of [] (MD5Init c)"
  by (simp add: ctx_of_def MD5Init_def init_regs_def absorb_short rest_def)

lemma buffer_index:
  "drop_bit 3 (of_nat (8 * n) :: u32) AND 0x3F = of_nat (n mod 64)"
proof -
  have "unat (drop_bit 3 (of_nat (8 * n) :: u32) AND 0x3F) = (8 * n mod 2 ^ 32) div 8 mod 64"
  proof -
    have m: "(0x3F :: u32) = mask 6" by (simp add: mask_eq_exp_minus_1)
    show ?thesis
      unfolding m by (simp add: unsigned_drop_bit_eq unsigned_take_bit_eq take_bit_eq_mask [symmetric]
          unsigned_of_nat take_bit_eq_mod drop_bit_eq_div unat_div unat_mod del: of_nat_mult)
  qed
  also have "\<dots> = n mod 64"
  proof -
    have "8 * n mod 2 ^ 32 = 8 * (n mod 2 ^ 29)" by (simp add: mult_mod_right)
    moreover have "n mod 2 ^ 29 mod 64 = n mod (64 :: nat)" by (rule mod_mod_cancel) simp
    ultimately show ?thesis by simp
  qed
  finally have u: "unat (drop_bit 3 (of_nat (8 * n) :: u32) AND 0x3F) = n mod 64" .
  have "n mod 64 < 64" by simp
  then have "unat (of_nat (n mod 64) :: u32) = n mod 64"
    by (simp add: unsigned_of_nat take_bit_nat_eq_self)
  with u show ?thesis by (metis word_unat_eq_iff)
qed

lemma count_update:
  assumes "n < 2 ^ 32"
  shows "(of_nat (8 * N) :: u32) + push_bit 3 (of_nat n) = of_nat (8 * (N + n))"
    "(if (of_nat (8 * (N + n)) :: u32) < push_bit 3 (of_nat n) then of_nat (8 * N div 2 ^ 32) + 1
      else of_nat (8 * N div 2 ^ 32)) + drop_bit 29 (of_nat n) = (of_nat (8 * (N + n) div 2 ^ 32) :: u32)"
proof -
  have p: "push_bit 3 (of_nat n :: u32) = of_nat (8 * n)" by (simp add: push_bit_eq_mult)
  show "(of_nat (8 * N) :: u32) + push_bit 3 (of_nat n) = of_nat (8 * (N + n))"
    unfolding p by (simp add: distrib_left)
  have u: "unat (of_nat k :: u32) = k mod 2 ^ 32" for k
    by (simp add: unsigned_of_nat take_bit_eq_mod)
  have d: "drop_bit 29 (of_nat n :: u32) = of_nat (8 * n div 2 ^ 32)"
  proof -
    have "8 * n div 2 ^ 32 = n div 2 ^ 29" using div_mult_mult1 [of 8 n "2 ^ 29"] by simp
    moreover have "n div 2 ^ 29 < 2 ^ 32" using assms by (simp add: less_mult_imp_div_less)
    ultimately have "unat (drop_bit 29 (of_nat n :: u32)) = unat (of_nat (8 * n div 2 ^ 32) :: u32)"
      using assms by (simp add: unsigned_drop_bit_eq u drop_bit_eq_div unat_div)
    then show ?thesis by (simp add: word_unat_eq_iff)
  qed
  define x where "x = 8 * N mod 2 ^ 32"
  define y where "y = 8 * n mod 2 ^ 32"
  have xy: "x < 2 ^ 32" "y < 2 ^ 32" by (simp_all add: x_def y_def)
  have s: "8 * (N + n) mod 2 ^ 32 = (x + y) mod 2 ^ 32"
    by (simp add: x_def y_def mod_add_eq distrib_left)
  have q: "8 * (N + n) div 2 ^ 32 = 8 * N div 2 ^ 32 + 8 * n div 2 ^ 32 + (x + y) div 2 ^ 32"
    unfolding distrib_left x_def y_def by (rule div_add1_eq)
  have "(of_nat (8 * (N + n)) :: u32) < push_bit 3 (of_nat n) \<longleftrightarrow> (x + y) mod 2 ^ 32 < y"
    unfolding p word_less_nat_alt u s y_def ..
  also have "\<dots> \<longleftrightarrow> 2 ^ 32 \<le> x + y"
    using xy by (cases "x + y < 2 ^ 32") (auto simp: le_mod_geq)
  finally have c: "(of_nat (8 * (N + n)) :: u32) < push_bit 3 (of_nat n) \<longleftrightarrow> 2 ^ 32 \<le> x + y" .
  have "(x + y) div 2 ^ 32 = (if 2 ^ 32 \<le> x + y then 1 else 0)"
    using xy by (auto simp: div_nat_eqI)
  then show "(if (of_nat (8 * (N + n)) :: u32) < push_bit 3 (of_nat n) then of_nat (8 * N div 2 ^ 32) + 1
      else of_nat (8 * N div 2 ^ 32)) + drop_bit 29 (of_nat n) = (of_nat (8 * (N + n) div 2 ^ 32) :: u32)"
    unfolding c d q by simp
qed

text \<open>The copying part of an update, over natural numbers.\<close>

lemma update_absorbs:
  assumes b: "length buf = 64" "take (length m mod 64) buf = rest m"
    and n: "n \<le> length input" "n < 2 ^ 32 - 64"
    and p: "p = 64 - length m mod 64" "p \<le> n"
  defines "buf1 \<equiv> take (length m mod 64) buf @ take p input"
    and "i \<equiv> p + 64 * ((n - p) div 64)"
  shows "MD5_memcpy buf (length m mod 64) input 0 p 0 = Inr buf1"
    "update_loop input (of_nat n) (of_nat p) (MD5Transform (absorb init_regs m) buf1) =
       Some (Inr (absorb init_regs (m @ take n input), of_nat i))"
    "i \<le> n" "MD5_memcpy buf1 0 input i (n - i) 0 = Inr (drop i (take n input) @ drop (n - i) buf1)"
    "n - i = length (m @ take n input) mod 64" "drop i (take n input) = rest (m @ take n input)"
    "length buf1 = 64"
proof -
  let ?r = "length m mod 64"
  have r: "?r < 64" by simp
  have pr: "?r + p = 64" "0 < p" using p(1) r by simp_all
  show l: "length buf1 = 64" using b(1) n p(2) pr by (simp add: buf1_def)
  show "MD5_memcpy buf ?r input 0 p 0 = Inr buf1"
    using memcpy_ok [of 0 p 0 input ?r buf] b(1) n p(2) pr by (simp add: buf1_def)
  have whole: "rest m @ take n input = buf1 @ drop p (take n input)"
  proof -
    have "take n input = take p input @ drop p (take n input)"
      using p(2) by (metis append_take_drop_id min.absorb2 min.commute take_take)
    then show ?thesis unfolding buf1_def b(2) by simp
  qed
  have ab: "absorb init_regs (m @ take n input) =
      absorb (MD5Transform (absorb init_regs m) buf1) (drop p (take n input))"
  proof -
    have "absorb init_regs (m @ take n input) = absorb (absorb init_regs m) (buf1 @ drop p (take n input))"
      using absorb_more [of init_regs m "take n input"] whole by simp
    also have "\<dots> = absorb (absorb (absorb init_regs m) buf1) (drop p (take n input))"
      using l by (intro absorb_append) simp
    also have "absorb (absorb init_regs m) buf1 = MD5Transform (absorb init_regs m) buf1"
      using l by (subst absorb.simps) (simp add: absorb_short transform_ref)
    finally show ?thesis .
  qed
  show "update_loop input (of_nat n) (of_nat p) (MD5Transform (absorb init_regs m) buf1) =
       Some (Inr (absorb init_regs (m @ take n input), of_nat i))"
    using update_loop_ok [OF n p(2)] by (simp add: ab i_def)
  have d: "64 * ((n - p) div 64) \<le> n - p" by (simp add: mult.commute)
  then show i: "i \<le> n" using p(2) by (simp add: i_def)
  show "MD5_memcpy buf1 0 input i (n - i) 0 = Inr (drop i (take n input) @ drop (n - i) buf1)"
  proof -
    have "n - i = (n - p) mod 64" by (simp add: i_def minus_mult_div_eq_mod diff_diff_left [symmetric])
    then have "n - i < 64" by simp
    then show ?thesis
      using memcpy_ok [of 0 "n - i" i input 0 buf1] n i l by (simp add: drop_take)
  qed
  have rr: "rest (m @ take n input) = rest (drop p (take n input))"
    using rest_more [of m "take n input"] whole rest_append [of buf1] l by simp
  also have "\<dots> = drop i (take n input)" using n(1) by (simp add: rest_def i_def add.commute)
  finally show q: "drop i (take n input) = rest (m @ take n input)" by simp
  show "n - i = length (m @ take n input) mod 64"
    using arg_cong [OF q, of length] n(1) by (simp only: length_rest length_drop length_take min_absorb2)
qed

text \<open>The counters after \<open>n\<close> more bytes.\<close>

definition counted :: "MD5_CTX \<Rightarrow> nat \<Rightarrow> MD5_CTX" where
  "counted c k = c\<lparr>count0 := of_nat (8 * k), count1 := of_nat (8 * k div 2 ^ 32)\<rparr>"

lemma counted_simps [simp]: "buffer (counted c k) = buffer c" "state (counted c k) = state c"
  by (simp_all add: counted_def)

lemma update_counted:
  assumes "ctx_of m c" "n < 2 ^ 32"
  shows "update_count c (of_nat n) = counted c (length m + n)"
proof -
  define A B A' B' P D :: u32 where "A = of_nat (8 * length m)" and "B = of_nat (8 * length m div 2 ^ 32)"
    and "A' = of_nat (8 * (length m + n))" and "B' = of_nat (8 * (length m + n) div 2 ^ 32)"
    and "P = push_bit 3 (of_nat n)" and "D = drop_bit 29 (of_nat n)"
  note defs = this
  have "A + P = A'" "(if A' < P then B + 1 else B) + D = B'"
    using count_update [OF assms(2), of "length m"] unfolding defs by blast+
  moreover have "count0 c = A" "count1 c = B" "counted c (length m + n) = c\<lparr>count0 := A', count1 := B'\<rparr>"
    using assms(1) unfolding ctx_of_def counted_def defs by blast+
  ultimately show ?thesis unfolding update_count_def defs(5,6) [symmetric] Let_def by auto
qed

text \<open>An update over numbers: what is left of the block decides whether it is completed.\<close>

lemma update_unfold:
  assumes c: "ctx_of m c" and n: "n < 2 ^ 32" and p: "p = 64 - length m mod 64"
  shows "MD5Update c input (of_nat n) =
    bindR (if p \<le> n then bindR (MD5_memcpy (buffer c) (length m mod 64) input 0 p 0) (\<lambda>buf.
        bindR (of_loop (update_loop input (of_nat n) (of_nat p) (MD5Transform (absorb init_regs m) buf)))
          (\<lambda>(st', i). Inr ((counted c (length m + n))\<lparr>buffer := buf, state := st'\<rparr>, 0, i)))
      else Inr (counted c (length m + n), (of_nat (length m mod 64) :: u32), 0))
    (\<lambda>(c4, index', i). bindR (MD5_memcpy (buffer c4) (unat index') input (unat i) (unat (of_nat n - i)) 0)
      (\<lambda>buf. Inr (c4\<lparr>buffer := buf\<rparr>)))"
proof -
  let ?r = "length m mod 64"
  have r: "?r < 64" by simp
  have f: "count0 c = of_nat (8 * length m)" "state c = absorb init_regs m" using c by (simp_all add: ctx_of_def)
  have pw: "64 - of_nat ?r = (of_nat p :: u32)" using r by (simp add: p of_nat_diff)
  have "p < 2 ^ 32" "?r < 2 ^ 32" using r by (simp_all add: p)
  note pu = unat_u32 [OF this(1)] unat_u32 [OF this(2)]
  have le: "(of_nat p :: u32) \<le> of_nat n \<longleftrightarrow> p \<le> n" by (simp add: word_le_nat_alt pu(1) unat_u32 [OF n])
  show ?thesis
    unfolding MD5Update_def f(1) buffer_index pw Let_def update_counted [OF c n] counted_simps f(2) le pu ..
qed

lemma update_full:
  assumes c: "ctx_of m c" and n: "n \<le> length input" "n < 2 ^ 32 - 64" and p: "p = 64 - length m mod 64" "p \<le> n"
  shows "\<exists>c'. MD5Update c input (of_nat n) = Inr c' \<and> ctx_of (m @ take n input) c'"
proof -
  have n32: "n < 2 ^ 32" using n(2) by simp
  have f: "length (buffer c) = 64" "take (length m mod 64) (buffer c) = rest m" using c by (simp_all add: ctx_of_def)
  define i where "i = p + 64 * ((n - p) div 64)"
  define buf1 where "buf1 = take (length m mod 64) (buffer c) @ take p input"
  note a = update_absorbs [OF f n p, folded buf1_def i_def]
  have ui: "unat (of_nat i :: u32) = i" "unat (of_nat n - of_nat i :: u32) = n - i"
    using unat_u32 [of i] unat_u32 [of "n - i"] a(3) n32 by (simp_all add: of_nat_diff [symmetric] del: of_nat_diff)
  let ?c = "(counted c (length m + n))\<lparr>state := absorb init_regs (m @ take n input),
      buffer := drop i (take n input) @ drop (n - i) buf1\<rparr>"
  have up: "MD5Update c input (of_nat n) = Inr ?c"
    unfolding update_unfold [OF c n32 p(1)] using p(2) a by (simp add: ui)
  have "n - i < 64" using a(5) by simp
  then have b: "length (drop i (take n input) @ drop (n - i) buf1) = 64" using a(3,7) n(1) by simp
  have l: "length (m @ take n input) = length m + n" using n(1) by simp
  have t: "take (length (rest (m @ take n input))) (rest (m @ take n input) @ x) = rest (m @ take n input)" for x
    by simp
  have "ctx_of (m @ take n input) ?c"
    using t [unfolded length_rest, of "drop (n - i) buf1"] b unfolding ctx_of_def a(6) l by (simp add: counted_def)
  then show ?thesis using up by blast
qed

lemma update_short:
  assumes c: "ctx_of m c" and n: "n \<le> length input" and l: "length m mod 64 + n < 64"
  shows "\<exists>c'. MD5Update c input (of_nat n) = Inr c' \<and> ctx_of (m @ take n input) c'"
proof -
  let ?r = "length m mod 64"
  have n32: "n < 2 ^ 32" using l by simp
  have f: "length (buffer c) = 64" "take ?r (buffer c) = rest m" "state c = absorb init_regs m"
    using c by (simp_all add: ctx_of_def)
  have ur: "unat (of_nat ?r :: u32) = ?r" "unat (of_nat n :: u32) = n" using unat_u32 n32 by simp_all
  have np: "\<not> 64 - ?r \<le> n" using l by linarith
  have mc: "MD5_memcpy (buffer c) ?r input 0 n 0 = Inr (take ?r (buffer c) @ take n input @ drop (?r + n) (buffer c))"
    using memcpy_ok [of 0 n 0 input ?r "buffer c"] n l f(1) by simp
  have "MD5Update c input (of_nat n) = Inr ((counted c (length m + n))\<lparr>buffer :=
      take ?r (buffer c) @ take n input @ drop (?r + n) (buffer c)\<rparr>)"
    unfolding update_unfold [OF c n32 refl] using np mc by (simp add: ur)
  moreover have "absorb init_regs (m @ take n input) = absorb init_regs m"
    using absorb_more [of init_regs m "take n input"] l n by (simp add: absorb_short length_rest)
  moreover have "rest (m @ take n input) = rest m @ take n input"
    using rest_more [of m "take n input"] l n by (simp add: rest_def [of "rest m @ _"] length_rest)
  moreover have "length (m @ take n input) mod 64 = ?r + n"
  proof -
    have "(length m + n) mod 64 = (?r + n) mod 64" by (simp only: mod_add_left_eq)
    also have "\<dots> = ?r + n" using l by (rule mod_less)
    finally show ?thesis using n by simp
  qed
  ultimately show ?thesis using f l n by (simp add: ctx_of_def counted_def length_rest)
qed

lemma update_ctx:
  assumes "ctx_of m c" "n \<le> length input" "n < 2 ^ 32 - 64"
  shows "\<exists>c'. MD5Update c input (of_nat n) = Inr c' \<and> ctx_of (m @ take n input) c'"
proof (cases "64 - length m mod 64 \<le> n")
  case True
  then show ?thesis using update_full [OF assms refl] by blast
next
  case False
  then show ?thesis using update_short [OF assms(1,2)] by simp
qed

section \<open>The whole digest\<close>

lemma length_Encode: "length (Encode ws) = 4 * length ws"
  by (induction ws) auto

lemma drop_unat: "unat (drop_bit j v :: u32) = unat v div 2 ^ j"
  unfolding unat_drop_bit_eq by (simp add: drop_bit_eq_div)

lemma byte_of_word:
  assumes "k \<le> 3"
  shows "(ucast (drop_bit (8 * k) (of_nat x :: u32) AND 0xff) :: byte) = of_nat (x div 256 ^ k)"
proof -
  have a: "unat (v AND 0xff :: u32) = unat v mod 256" for v
  proof -
    have "v AND 0xff = take_bit 8 v" by (simp add: take_bit_eq_mask mask_eq_exp_minus_1)
    then have "unat (v AND 0xff) = take_bit 8 (unat v)" by (simp only: unsigned_take_bit_eq)
    then show ?thesis by (simp only: take_bit_eq_mod) simp
  qed
  have c: "unat (ucast v :: byte) = unat (v :: u32) mod 256" for v
    by (simp add: unsigned_ucast_eq take_bit_eq_mod)
  have "unat (ucast (drop_bit (8 * k) (of_nat x :: u32) AND 0xff) :: byte)
      = x mod 2 ^ 32 div 2 ^ (8 * k) mod 256"
    unfolding c a drop_unat by (simp add: unsigned_of_nat take_bit_eq_mod)
  also have "\<dots> = x div 2 ^ (8 * k) mod 256"
  proof -
    have "(2 :: nat) ^ 32 = 2 ^ (8 * k) * 2 ^ (32 - 8 * k)"
      using assms by (simp add: power_add [symmetric])
    then have "x mod 2 ^ 32 div 2 ^ (8 * k) = x div 2 ^ (8 * k) mod 2 ^ (32 - 8 * k)"
      by (simp only: mod_mult2_eq div_mult_self_is_m) (simp add: div_mult_mod_eq)
    moreover have "256 dvd (2 :: nat) ^ (32 - 8 * k)"
      using assms le_imp_power_dvd [of 8 "32 - 8 * k" "2 :: nat"] by simp
    ultimately show ?thesis by (simp add: mod_mod_cancel)
  qed
  also have "\<dots> = unat (of_nat (x div 256 ^ k) :: byte)"
    by (simp add: unsigned_of_nat take_bit_eq_mod power_mult)
  finally show ?thesis by (simp add: word_unat_eq_iff)
qed

lemma encode_count: "Encode [of_nat x, of_nat (x div 2 ^ 32)] = le64 x"
proof -
  have h: "x div 2 ^ 32 div 256 ^ k = x div 256 ^ (4 + k)" for k
    by (simp add: div_mult2_eq power_add)
  have u: "[0..<8] = [0, 1, 2, 3, 4, 5, 6, 7 :: nat]" by (simp add: upt_rec)
  show ?thesis
    using byte_of_word [of 0 x] byte_of_word [of 1 x] byte_of_word [of 2 x] byte_of_word [of 3 x]
      byte_of_word [of 0 "x div 2 ^ 32"] byte_of_word [of 1 "x div 2 ^ 32"]
      byte_of_word [of 2 "x div 2 ^ 32"] byte_of_word [of 3 "x div 2 ^ 32"]
      h [of 0] h [of 1] h [of 2] h [of 3]
    by (simp add: le64_def u)
qed

lemma pad_zeros:
  assumes "r < (64 :: nat)"
  shows "(119 - r) mod 64 = (if r < 56 then 55 - r else 119 - r)"
proof (cases "r < 56")
  case True
  then have "119 - r = 64 + (55 - r)" by simp
  moreover have "(64 + (55 - r)) mod 64 = 55 - r" unfolding mod_add_self1 by (rule mod_less) simp
  ultimately show ?thesis using True by simp
qed (use assms in simp)

lemma final_digest:
  assumes "ctx_of m c"
  shows "\<exists>c'. MD5Final c = Inr (md5 m, c') \<and> buffer c' = replicate 64 0 \<and> state c' = (0, 0, 0, 0)"
proof -
  let ?r = "length m mod 64"
  define k where "k = (if ?r < 56 then 56 - ?r else 120 - ?r)"
  have r: "?r < 64" by simp
  have k: "k = Suc ((119 - ?r) mod 64)" "k \<le> 64"
    unfolding k_def pad_zeros [OF r] using r by auto
  have i: "drop_bit 3 (count0 c) AND 0x3F = of_nat ?r"
    using assms buffer_index [of "length m"] by (simp add: ctx_of_def)
  have u: "unat (of_nat ?r :: u32) = ?r" using r by (simp add: unsigned_of_nat take_bit_nat_eq_self)
  have pl: "(if (of_nat ?r :: u32) < 56 then 56 - of_nat ?r else 120 - of_nat ?r) = (of_nat k :: u32)"
    using r u by (simp add: k_def word_less_nat_alt of_nat_diff)
  obtain c1 where c1: "MD5Update c PADDING (of_nat k) = Inr c1" "ctx_of (m @ take k PADDING) c1"
    using update_ctx [OF assms, of k PADDING] k(2) by (auto simp: PADDING_def)
  have e: "Encode [count0 c, count1 c] = le64 (8 * length m)"
    using assms encode_count [of "8 * length m"] by (simp add: ctx_of_def)
  have l8: "length (le64 x) = 8" for x by (simp add: le64_def)
  obtain c2 where c2: "MD5Update c1 (le64 (8 * length m)) 8 = Inr c2"
    "ctx_of ((m @ take k PADDING) @ le64 (8 * length m)) c2"
    using update_ctx [OF c1(2), of 8 "le64 (8 * length m)"] l8 by auto
  have "take k PADDING = [0x80] @ replicate ((119 - ?r) mod 64) 0"
    using k by (simp add: PADDING_def)
  then have "state c2 = absorb init_regs (m @ md5_padding (length m))"
    using c2(2) by (simp add: ctx_of_def md5_padding_def)
  then show ?thesis
    unfolding MD5Final_def Let_def i pl e c1(1) bindR_Inr c2(1) by (simp add: md5_def MD5_memset_def)
qed

text \<open>Feeding a list of pieces to a fresh context.\<close>

fun feed :: "MD5_CTX \<Rightarrow> byte list list \<Rightarrow> MD5_CTX res" where
  "feed c [] = Inr c"
| "feed c (p # ps) = bindR (MD5Update c p (of_nat (length p))) (\<lambda>c'. feed c' ps)"

lemma feed_ctx:
  assumes "ctx_of m c" "\<forall>p \<in> set ps. length p < 2 ^ 32 - 64"
  shows "\<exists>c'. feed c ps = Inr c' \<and> ctx_of (m @ concat ps) c'"
  using assms
proof (induction ps arbitrary: m c)
  case (Cons p ps)
  obtain c1 where "MD5Update c p (of_nat (length p)) = Inr c1" "ctx_of (m @ p) c1"
    using update_ctx [OF Cons.prems(1) le_refl] Cons.prems(2) by auto
  then show ?case using Cons.IH [of "m @ p" c1] Cons.prems(2) by simp
qed simp

lemma whole_blocks: "length (m @ md5_padding (length m)) mod 64 = 0"
proof -
  let ?r = "length m mod 64"
  have r: "?r < 64" by simp
  have "length (m @ md5_padding (length m)) mod 64 = (?r + (9 + (119 - ?r) mod 64)) mod 64"
    by (simp add: md5_padding_def le64_def mod_add_left_eq add.commute)
  also have "\<dots> = 0" unfolding pad_zeros [OF r] using r by auto
  finally show ?thesis .
qed

section \<open>Properties\<close>

text \<open>
  C9: the digest of a stream is the RFC 1321 digest of the whole message, however the message
  is cut into updates (pieces shorter than \<open>2 ^ 32 - 64\<close> bytes, empty ones included); no
  access leaves an array, and the context is erased afterwards.
\<close>

theorem md5_streaming:
  assumes "length (buffer c) = 64" "\<forall>p \<in> set pieces. length p < 2 ^ 32 - 64"
  shows "\<exists>c' c''. feed (MD5Init c) pieces = Inr c' \<and> MD5Final c' = Inr (md5 (concat pieces), c'')
    \<and> state c'' = (0, 0, 0, 0) \<and> buffer c'' = replicate 64 0"
proof -
  obtain c' where "feed (MD5Init c) pieces = Inr c'" "ctx_of (concat pieces) c'"
    using feed_ctx [OF ctx_init [OF assms(1)] assms(2)] by auto
  then show ?thesis using final_digest [of "concat pieces" c'] by auto
qed

definition blank_ctx :: MD5_CTX where
  "blank_ctx = \<lparr>state = (0, 0, 0, 0), count0 = 0, count1 = 0, buffer = replicate 64 0\<rparr>"

text \<open>The test vector ``abc'' of RFC 1321.\<close>

lemma ref_steps_Cons:
  "ref_steps f x ((k, s, t) # ts) (a, b, c, d) = ref_steps f x ts (d, f a b c d (x ! k) s t, b, c)"
  by simp

definition abc_words :: "u32 list" where
  "abc_words = [0x80636261, 0, 0, 0, 0, 0, 0, 0, 0, 0, 0, 0, 0, 0, 24, 0]"

lemma replicate_52: "replicate 52 x =
    [x, x, x, x, x, x, x, x, x, x, x, x, x, x, x, x, x, x, x, x, x, x, x, x, x, x, x, x, x,
     x, x, x, x, x, x, x, x, x, x, x, x, x, x, x, x, x, x, x, x, x, x, x]"
  by (simp add: numeral_eq_Suc)

lemma abc_block:
  "length ([97, 98, 99] @ md5_padding 3) = 64" "Decode ([97, 98, 99] @ md5_padding 3) = abc_words"
  by (simp_all add: md5_padding_def le64_def abc_words_def upt_rec replicate_52)

lemmas step_defs = FF_def GG_def HH_def II_def F_def G_def H_def I_def ROTATE_LEFT_def

lemma abc_rounds:
  "ref_steps FF abc_words (ref_schedule 1 0 [7, 12, 17, 22] (T ! 0)) init_regs
     = (0xdda9b9a6, 0x72aff2e0, 0xe396856b, 0xa1051895)"
  "ref_steps GG abc_words (ref_schedule 5 1 [5, 9, 14, 20] (T ! 1)) (0xdda9b9a6, 0x72aff2e0, 0xe396856b, 0xa1051895)
     = (0x790a77fb, 0x726342d3, 0xa62884aa, 0x9f47e4f8)"
  "ref_steps HH abc_words (ref_schedule 3 5 [4, 11, 16, 23] (T ! 2)) (0x790a77fb, 0x726342d3, 0xa62884aa, 0x9f47e4f8)
     = (0x7f2e507b, 0x7beb9700, 0x8fae6399, 0x99d9679d)"
  "ref_steps II abc_words (ref_schedule 7 0 [6, 10, 15, 21] (T ! 3)) (0x7f2e507b, 0x7beb9700, 0x8fae6399, 0x99d9679d)
     = (0x310ade8f, 0xc08226b3, 0xe484b9d8, 0x624d8cb2)"
  unfolding schedules init_regs_def
  by (simp_all del: ref_steps.simps(2) add: ref_steps_Cons abc_words_def step_defs)

lemma md5_abc:
  "md5 [97, 98, 99] = [0x90, 0x01, 0x50, 0x98, 0x3c, 0xd2, 0x4f, 0xb0, 0xd6, 0x96, 0x3f, 0x7d,
     0x28, 0xe1, 0x7f, 0x72]"
proof -
  let ?b = "[97, 98, 99] @ md5_padding 3"
  have "absorb init_regs ?b = ref_transform init_regs ?b"
    using abc_block(1) by (subst absorb.simps) (simp add: absorb_short)
  also have "\<dots> = (0x98500190, 0xb04fd23c, 0x7d3f96d6, 0x727fe128)"
    unfolding ref_transform_def abc_block(2) Let_def abc_rounds by (simp add: init_regs_def)
  finally have a: "absorb init_regs ?b = (2555380112, 2958021180, 2101319382, 1920983336)" by simp
  have l: "length [97, 98, 99 :: byte] = 3" by simp
  show ?thesis unfolding md5_def l a by (simp add: regs_list_def)
qed

theorem md5_streaming_witness:
  "\<exists>c' c''. feed (MD5Init blank_ctx) [[97], [], [98, 99]] = Inr c'
    \<and> MD5Final c' = Inr ([0x90, 0x01, 0x50, 0x98, 0x3c, 0xd2, 0x4f, 0xb0, 0xd6, 0x96, 0x3f, 0x7d,
        0x28, 0xe1, 0x7f, 0x72], c'')"
  using md5_streaming [of blank_ctx "[[97], [], [98, 99]]"] md5_abc by (auto simp: blank_ctx_def)

text \<open>
  C21: the 64 unrolled steps are the four table-driven rounds of RFC 1321, for every register
  content and every block.
\<close>

theorem md5_transform_is_rfc:
  "MD5Transform st block = ref_transform st block"
  by (rule transform_ref)

lemma mask_ff: "(0xff :: u32) = mask 8"
  by (simp add: mask_eq_exp_minus_1)

lemma quarter:
  assumes "n < 32"
  obtains "n < 8" | k where "n = 8 + k" "k < 8" | k where "n = 16 + k" "k < 8" | k where "n = 24 + k" "k < (8::nat)"
proof -
  have "n < 8 \<or> (n = 8 + (n - 8) \<and> n - 8 < 8) \<or> (n = 16 + (n - 16) \<and> n - 16 < 8) \<or> (n = 24 + (n - 24) \<and> n - 24 < 8)"
    using assms by arith
  then show ?thesis using that by blast
qed

lemma decode_word:
  "ucast (ucast (w AND 0xff) :: byte) OR push_bit 8 (ucast (ucast (drop_bit 8 w AND 0xff) :: byte))
    OR push_bit 16 (ucast (ucast (drop_bit 16 w AND 0xff) :: byte))
    OR push_bit 24 (ucast (ucast (drop_bit 24 w AND 0xff) :: byte)) = (w :: u32)"
  unfolding mask_ff
proof (rule bit_word_eqI)
  fix n assume "n < LENGTH(32)"
  then have "n < 32" by simp
  then show "bit (ucast (ucast (w AND mask 8 :: u32) :: byte) OR push_bit 8 (ucast (ucast (drop_bit 8 w AND mask 8) :: byte))
    OR push_bit 16 (ucast (ucast (drop_bit 16 w AND mask 8) :: byte))
    OR push_bit 24 (ucast (ucast (drop_bit 24 w AND mask 8) :: byte)) :: u32) n = bit (w :: u32) n"
    by (cases rule: quarter) (simp_all add: bit_simps)
qed

lemma byte_no: "8 \<le> n \<Longrightarrow> \<not> bit (b :: byte) n"
  by (simp add: impossible_bit)

lemma encode_word:
  fixes b0 b1 b2 b3 :: byte
  defines "w \<equiv> ucast b0 OR push_bit 8 (ucast b1) OR push_bit 16 (ucast b2) OR push_bit 24 (ucast b3) :: u32"
  shows "ucast (w AND 0xff) = b0" "ucast (drop_bit 8 w AND 0xff) = b1"
    "ucast (drop_bit 16 w AND 0xff) = b2" "ucast (drop_bit 24 w AND 0xff) = b3"
  unfolding w_def mask_ff by (rule bit_word_eqI; simp add: bit_simps byte_no)+

lemma four_dvd: "4 dvd length (b0 # b1 # b2 # b3 # bs) \<Longrightarrow> 4 dvd length bs"
  by (simp only: list.size) presburger

text \<open>
  \<open>Encode\<close> and \<open>Decode\<close> are inverse to each other: words survive the way through bytes,
  and bytes, in groups of four, the way through words.
\<close>

lemma md5_encode_decode:
  "Decode (Encode ws) = ws \<and> (4 dvd length bs \<longrightarrow> Encode (Decode bs) = bs)"
proof
  show "Decode (Encode ws) = ws"
    by (induction ws) (simp_all only: Encode.simps append.simps Decode.simps decode_word)
  show "4 dvd length bs \<longrightarrow> Encode (Decode bs) = bs"
  proof (induction bs rule: Decode.induct)
    case (1 b0 b1 b2 b3 bs)
    have "4 dvd length bs" if "4 dvd length (b0 # b1 # b2 # b3 # bs)"
      using that by (rule four_dvd)
    with 1 show ?case by (simp only: Decode.simps Encode.simps encode_word append.simps) blast
  qed (auto dest: dvd_imp_le)
qed

lemma md5_encode_decode_witness:
  "Encode (Decode [1, 2, 3, 4, 5, 6, 7, 8]) = [1, 2, 3, 4, 5, 6, 7, 8]"
  using md5_encode_decode [of "[]" "[1, 2, 3, 4, 5, 6, 7, 8]"] by simp

end
