(* ===== verification/Cstring.thy ===== *)
theory Cstring
  imports Prelude "HOL-Library.Sublist"
begin

text \<open>
  The functions of the C library on strings that the SIP client uses (\<open>strlen\<close>, \<open>strcpy\<close>,
  \<open>strncpy\<close>, \<open>strstr\<close>, \<open>strcasecmp\<close>, \<open>atoi\<close>, \<open>sprintf\<close>).  A \<open>char *\<close> is the memory
  behind the pointer up to the end of its object; its string ends at the first NUL, and a
  string function on memory without a NUL is undefined.
\<close>

section \<open>Strings in memory\<close>

definition lit :: "string \<Rightarrow> byte list" where
  "lit s = map of_char s"

definition cstr :: "byte list \<Rightarrow> byte list" where
  "cstr m = takeWhile (\<lambda>b. b \<noteq> 0) m"

fun strlen :: "byte list \<Rightarrow> nat res" where
  "strlen [] = Inl Unterminated"
| "strlen (b # m) = (if b = 0 then Inr 0 else bindR (strlen m) (\<lambda>n. Inr (Suc n)))"

definition read_str :: "byte list \<Rightarrow> byte list res" where
  "read_str m = bindR (strlen m) (\<lambda>n. Inr (take n m))"

named_theorems str_simps "strings in memory"

lemma lit_simps [simp]: "lit [] = []" "lit (c # s) = of_char c # lit s"
  by (simp_all add: lit_def)

lemma lit_append: "lit (s @ t) = lit s @ lit t"
  by (simp add: lit_def)

lemma length_lit [simp]: "length (lit s) = length s"
  by (simp add: lit_def)

lemma cstr_nul [str_simps]: "0 \<notin> set s \<Longrightarrow> cstr (s @ 0 # t) = s"
  by (simp add: cstr_def takeWhile_append)

lemma cstr_no_nul: "0 \<notin> set m \<Longrightarrow> cstr m = m"
  by (auto simp: cstr_def takeWhile_eq_all_conv)

lemma cstr_set [simp]: "0 \<notin> set (cstr m)"
  by (auto simp: cstr_def dest: set_takeWhileD)

lemma cstr_split: "0 \<in> set m \<Longrightarrow> m = cstr m @ 0 # drop (Suc (length (cstr m))) m"
proof (induction m)
  case (Cons b m)
  then show ?case by (cases "b = 0") (auto simp: cstr_def)
qed simp

lemma cstr_length: "0 \<in> set m \<Longrightarrow> length (cstr m) < length m"
  by (subst (2) cstr_split) simp_all

lemma take_cstr: "take (length (cstr m)) m = cstr m"
  by (simp add: cstr_def takeWhile_eq_take [symmetric])

lemma strlen_ok [str_simps]: "0 \<in> set m \<Longrightarrow> strlen m = Inr (length (cstr m))"
  by (induction m) (auto simp: cstr_def)

lemma strlen_fault [str_simps]: "0 \<notin> set m \<Longrightarrow> strlen m = Inl Unterminated"
  by (induction m) auto

lemma strlen_Inr: "strlen m = Inr n \<longleftrightarrow> 0 \<in> set m \<and> n = length (cstr m)"
  by (cases "0 \<in> set m") (auto simp: strlen_ok strlen_fault)

lemma read_str_ok [str_simps]: "0 \<in> set m \<Longrightarrow> read_str m = Inr (cstr m)"
  by (simp add: read_str_def strlen_ok take_cstr)

lemma read_str_fault [str_simps]: "0 \<notin> set m \<Longrightarrow> read_str m = Inl Unterminated"
  by (simp add: read_str_def strlen_fault)

lemma read_str_nul [simp]: "0 \<notin> set s \<Longrightarrow> read_str (s @ 0 # t) = Inr s"
  by (simp add: read_str_ok cstr_nul)

section \<open>Copying\<close>

definition strcpy :: "byte list \<Rightarrow> byte list \<Rightarrow> byte list res" where
  "strcpy dst src = bindR (read_str src) (\<lambda>s. mem_write 0 (s @ [0]) dst)"

text \<open>
  \<open>strncpy\<close> copies at most \<open>n\<close> characters and fills up with NULs; it appends none when the
  source is longer.
\<close>

definition strncpy :: "byte list \<Rightarrow> byte list \<Rightarrow> nat \<Rightarrow> byte list res" where
  "strncpy dst src n =
     (if n \<le> length src \<or> 0 \<in> set src
      then mem_write 0 (take n (cstr src) @ replicate (n - length (cstr src)) 0) dst
      else Inl Unterminated)"

definition bzero :: "nat \<Rightarrow> byte list" where
  "bzero n = replicate n 0"

lemma bzero_simps [simp]: "length (bzero n) = n" "0 \<in> set (bzero n) \<longleftrightarrow> 0 < n" "cstr (bzero n) = []"
  by (auto simp: bzero_def cstr_def takeWhile_replicate)

lemma strcpy_ok:
  assumes "0 \<in> set src" "length (cstr src) < length dst"
  shows "strcpy dst src = Inr (cstr src @ 0 # drop (Suc (length (cstr src))) dst)"
  using assms by (simp add: strcpy_def read_str_ok mem_write_ok)

lemma strcpy_Inr:
  assumes "strcpy dst src = Inr d"
  shows "length d = length dst" "0 \<in> set d" "cstr d = cstr src" "0 \<in> set src"
proof -
  show n: "0 \<in> set src"
    using assms read_str_fault by (cases "0 \<in> set src") (auto simp: strcpy_def)
  then have d: "d = cstr src @ 0 # drop (Suc (length (cstr src))) dst" "length (cstr src) < length dst"
    using assms by (auto simp: strcpy_def read_str_ok mem_write_Inr_iff)
  then show "length d = length dst" "0 \<in> set d" "cstr d = cstr src"
    by (simp_all add: cstr_nul)
qed

section \<open>Searching\<close>

fun find_sub :: "byte list \<Rightarrow> byte list \<Rightarrow> nat option" where
  "find_sub [] pat = (if pat = [] then Some 0 else None)"
| "find_sub (b # s) pat =
     (if prefix pat (b # s) then Some 0 else map_option Suc (find_sub s pat))"

definition strstr :: "byte list \<Rightarrow> byte list \<Rightarrow> nat option res" where
  "strstr m pat = bindR (read_str m) (\<lambda>s. Inr (find_sub s pat))"

text \<open>The first occurrence: \<open>pat\<close> does not start anywhere inside \<open>pre\<close>.\<close>

definition first_in :: "byte list \<Rightarrow> byte list \<Rightarrow> byte list \<Rightarrow> bool" where
  "first_in pat pre s \<longleftrightarrow> (\<forall>k < length pre. \<not> prefix pat (drop k (pre @ s)))"

lemma first_in_Nil [simp]: "first_in pat [] s"
  by (simp add: first_in_def)

lemma first_in_Cons [simp]:
  "first_in pat (b # pre) s \<longleftrightarrow> \<not> prefix pat (b # pre @ s) \<and> first_in pat pre s"
  by (auto simp: first_in_def less_Suc_eq_0_disj)

lemma first_in_char [simp]: "first_in [c] pre s \<longleftrightarrow> c \<notin> set pre"
  by (induction pre) auto

lemma find_sub_skip:
  "first_in pat pre s \<Longrightarrow> find_sub (pre @ s) pat = map_option ((+) (length pre)) (find_sub s pat)"
  by (induction pre) (cases "find_sub s pat"; simp)+

lemma find_sub_here: "prefix pat s \<Longrightarrow> find_sub s pat = Some 0"
  by (cases s) auto

lemma find_sub_first:
  "first_in pat pre s \<Longrightarrow> prefix pat s \<Longrightarrow> find_sub (pre @ s) pat = Some (length pre)"
  by (simp add: find_sub_skip find_sub_here)

lemma find_sub_Some:
  "find_sub s pat = Some k \<longleftrightarrow>
     k \<le> length s \<and> prefix pat (drop k s) \<and> (\<forall>j < k. \<not> prefix pat (drop j s))"
proof (induction s arbitrary: k)
  case (Cons b s)
  show ?case
    by (cases k) (auto simp: Cons.IH less_Suc_eq_0_disj)
qed auto

lemma find_sub_None: "find_sub s pat = None \<longleftrightarrow> \<not> sublist pat s"
  by (induction s) (auto simp: sublist_Cons_right)

section \<open>Numbers\<close>

definition is_digit :: "byte \<Rightarrow> bool" where
  "is_digit b \<longleftrightarrow> 48 \<le> b \<and> b \<le> 57"

definition is_space :: "byte \<Rightarrow> bool" where
  "is_space b \<longleftrightarrow> b = 32 \<or> 9 \<le> b \<and> b \<le> 13"

fun scan_digits :: "int \<Rightarrow> byte list \<Rightarrow> int res" where
  "scan_digits acc [] = Inl Unterminated"
| "scan_digits acc (b # m) =
     (if is_digit b then scan_digits (10 * acc + (uint b - 48)) m else Inr acc)"

fun scan_number :: "byte list \<Rightarrow> int res" where
  "scan_number [] = Inl Unterminated"
| "scan_number (b # m) =
     (if is_space b then scan_number m
      else if b = 45 then bindR (scan_digits 0 m) (\<lambda>n. Inr (- n))
      else if b = 43 then scan_digits 0 m
      else scan_digits 0 (b # m))"

text \<open>A value outside the range of \<open>int\<close> is clipped, as \<open>strtol\<close> does on the target.\<close>

definition atoi :: "byte list \<Rightarrow> int res" where
  "atoi m = bindR (scan_number m) (\<lambda>n. Inr (max (- (2 ^ 31)) (min (2 ^ 31 - 1) n)))"

lemma atoi_nul [simp]: "atoi (0 # m) = Inr 0"
  by (simp add: atoi_def is_space_def is_digit_def)

text \<open>The conversions \<open>%d\<close> and \<open>%x\<close>.\<close>

fun show_base :: "nat \<Rightarrow> nat \<Rightarrow> byte list" where
  "show_base base n =
     (let d = n mod base; c = (if d < 10 then of_nat d + 48 else of_nat d + 87)
      in if base < 2 \<or> n < base then [c] else show_base base (n div base) @ [c])"

declare show_base.simps [simp del]

definition show_int :: "int \<Rightarrow> byte list" where
  "show_int n = (if n < 0 then 45 # show_base 10 (nat (- n)) else show_base 10 (nat n))"

section \<open>Formatted output\<close>

text \<open>
  A format string is the list of its parts: literal text and the conversions \<open>%s\<close> (with the
  memory behind the argument), \<open>%d\<close>/\<open>%i\<close> and \<open>%x\<close>.
\<close>

datatype fmt = Txt string | Str "byte list" | Dec int | Hexa u32

fun fmt_part :: "fmt \<Rightarrow> byte list res" where
  "fmt_part (Txt s) = Inr (lit s)"
| "fmt_part (Str m) = read_str m"
| "fmt_part (Dec n) = Inr (show_int n)"
| "fmt_part (Hexa w) = Inr (show_base 16 (unat w))"

fun fmt_out :: "fmt list \<Rightarrow> byte list res" where
  "fmt_out [] = Inr []"
| "fmt_out (p # ps) = bindR (fmt_part p) (\<lambda>s. bindR (fmt_out ps) (\<lambda>t. Inr (s @ t)))"

definition sprintf :: "byte list \<Rightarrow> nat \<Rightarrow> fmt list \<Rightarrow> byte list res" where
  "sprintf dst off ps = bindR (fmt_out ps) (\<lambda>s. mem_write off (s @ [0]) dst)"

text \<open>
  The idiom \<open>sprintf(&m[mLen], ...); mLen = strlen(m);\<close> of the message builders, repeated.
\<close>

fun emit :: "byte list \<Rightarrow> nat \<Rightarrow> fmt list list \<Rightarrow> (byte list \<times> nat) res" where
  "emit m mLen [] = Inr (m, mLen)"
| "emit m mLen (ps # pss) =
     bindR (sprintf m mLen ps) (\<lambda>m'. bindR (strlen m') (\<lambda>n. emit m' n pss))"

text \<open>The text a part stands for, when its argument is a string.\<close>

fun part_text :: "fmt \<Rightarrow> byte list" where
  "part_text (Txt s) = lit s"
| "part_text (Str m) = cstr m"
| "part_text (Dec n) = show_int n"
| "part_text (Hexa w) = show_base 16 (unat w)"

fun part_ok :: "fmt \<Rightarrow> bool" where
  "part_ok (Txt s) \<longleftrightarrow> CHR 0x00 \<notin> set s"
| "part_ok (Str m) \<longleftrightarrow> 0 \<in> set m"
| "part_ok (Dec n) \<longleftrightarrow> True"
| "part_ok (Hexa w) \<longleftrightarrow> True"

definition fmt_text :: "fmt list \<Rightarrow> byte list" where
  "fmt_text ps = concat (map part_text ps)"

text \<open>The characters of a number are digits or lower-case letters up to \<open>f\<close>.\<close>

definition hex_char :: "byte \<Rightarrow> bool" where
  "hex_char c \<longleftrightarrow> 48 \<le> c \<and> c \<le> 57 \<or> 97 \<le> c \<and> c \<le> 102"

definition digit_char :: "nat \<Rightarrow> byte" where
  "digit_char d = (if d < 10 then of_nat d + 48 else of_nat d + 87)"

lemma digit_char: "d < 16 \<Longrightarrow> hex_char (digit_char d)"
proof -
  have "\<forall>d \<in> {0, 1, 2, 3, 4, 5, 6, 7, 8, 9, 10, 11, 12, 13, 14, 15}. hex_char (digit_char d)"
    by (simp add: hex_char_def digit_char_def)
  moreover assume "d < 16"
  then have "d \<in> {0, 1, 2, 3, 4, 5, 6, 7, 8, 9, 10, 11, 12, 13, 14, 15}"
    by (simp add: numeral_eq_Suc less_Suc_eq)
  ultimately show ?thesis by blast
qed

lemma show_base_hex:
  "base \<le> 16 \<Longrightarrow> 2 \<le> base \<Longrightarrow> \<forall>c \<in> set (show_base base n). hex_char c"
proof (induction base n rule: show_base.induct)
  case (1 base n)
  have "n mod base < 16" using 1(2,3) by (intro less_le_trans [OF mod_less_divisor]) auto
  then have d: "hex_char (digit_char (n mod base))" by (rule digit_char)
  show ?case
    using 1 d by (subst show_base.simps) (auto simp: Let_def digit_char_def)
qed

lemma hex_char_not: "hex_char c \<Longrightarrow> c \<noteq> 0" "hex_char c \<Longrightarrow> c \<noteq> 13" "hex_char c \<Longrightarrow> c \<noteq> 34"
  by (auto simp: hex_char_def)

lemma show_int_chars:
  assumes "c \<in> set (show_int n)"
  shows "c = 45 \<or> hex_char c"
  using assms show_base_hex [of 10] by (auto simp: show_int_def split: if_splits)

lemma show_int_no: "0 \<notin> set (show_int n)" "13 \<notin> set (show_int n)" "34 \<notin> set (show_int n)"
  using show_int_chars [of _ n] hex_char_not by force+

lemma show_hex_no: "0 \<notin> set (show_base 16 n)" "13 \<notin> set (show_base 16 n)"
  using show_base_hex [of 16 n] hex_char_not by force+

lemma part_text_no_nul: "part_ok p \<Longrightarrow> 0 \<notin> set (part_text p)"
proof (cases p)
  case (Txt s)
  assume "part_ok p"
  moreover have "of_char c = (0 :: byte) \<Longrightarrow> c = CHR 0x00" for c
    by (cases c) (simp add: of_char_Char horner_sum_simps of_bool_def split: if_splits)
  ultimately show ?thesis using Txt by (auto simp: lit_def)
qed (simp_all add: show_int_no show_hex_no)

lemma fmt_out_ok: "\<forall>p \<in> set ps. part_ok p \<Longrightarrow> fmt_out ps = Inr (fmt_text ps) \<and> 0 \<notin> set (fmt_text ps)"
proof (induction ps)
  case (Cons p ps)
  have "fmt_part p = Inr (part_text p)"
    using Cons.prems by (cases p) (simp_all add: read_str_ok)
  then show ?case using Cons part_text_no_nul [of p] by (simp add: fmt_text_def)
qed (simp add: fmt_text_def)

text \<open>Lines that fit are appended to the text; the first that does not leaves the buffer.\<close>

definition filled :: "byte list \<Rightarrow> nat \<Rightarrow> byte list" where
  "filled s n = s @ bzero (n - length s)"

lemma filled_simps [simp]:
  "length s \<le> n \<Longrightarrow> length (filled s n) = n" "filled [] n = bzero n"
  by (simp_all add: filled_def)

lemma filled_nul:
  assumes "length s < n" "0 \<notin> set s"
  shows "0 \<in> set (filled s n)" "cstr (filled s n) = s"
proof -
  have "filled s n = s @ 0 # bzero (n - length s - 1)"
    using assms by (cases "n - length s") (auto simp: filled_def bzero_def)
  then show "0 \<in> set (filled s n)" "cstr (filled s n) = s"
    using assms(2) by (simp_all add: cstr_nul)
qed

lemma sprintf_filled:
  assumes "\<forall>p \<in> set ps. part_ok p" "length s < n"
  shows "sprintf (filled s n) (length s) ps =
    (if length (s @ fmt_text ps) < n then Inr (filled (s @ fmt_text ps) n) else Inl OutOfBounds)"
proof -
  have o: "fmt_out ps = Inr (fmt_text ps)" using fmt_out_ok [OF assms(1)] by simp
  have d: "drop k (filled s n) = bzero (n - k)" if "length s \<le> k" for k
    using that by (simp add: filled_def bzero_def)
  show ?thesis
  proof (cases "length (s @ fmt_text ps) < n")
    case True
    then have "0 # bzero (n - (length s + length (fmt_text ps) + 1)) = bzero (n - length (s @ fmt_text ps))"
      by (cases "n - length (s @ fmt_text ps)") (auto simp: bzero_def)
    moreover have "take (length s) (filled s n) = s" by (simp add: filled_def)
    ultimately show ?thesis
      using True assms(2) d [of "length s + length (fmt_text ps) + 1"]
      by (simp add: sprintf_def o mem_write_ok filled_def del: drop_append)
  qed (use assms(2) in \<open>simp add: sprintf_def o mem_write_fault\<close>)
qed

lemma emit_filled:
  assumes "\<forall>ps \<in> set pss. \<forall>p \<in> set ps. part_ok p" "length s < n" "0 \<notin> set s"
  shows "emit (filled s n) (length s) pss =
    (let t = s @ concat (map fmt_text pss)
     in if length t < n then Inr (filled t n, length t) else Inl OutOfBounds)"
  using assms
proof (induction pss arbitrary: s)
  case (Cons ps pss)
  let ?t = "s @ fmt_text ps"
  show ?case
  proof (cases "length ?t < n")
    case True
    have "0 \<notin> set ?t" using Cons.prems fmt_out_ok [of ps] by simp
    moreover from this True have "strlen (filled ?t n) = Inr (length ?t)"
      by (simp add: strlen_ok filled_nul)
    ultimately show ?thesis
      using True Cons.IH [of ?t] Cons.prems sprintf_filled [of ps s n] by (simp add: Let_def)
  qed (use Cons.prems sprintf_filled [of ps s n] in \<open>simp add: Let_def\<close>)
qed simp

end
