(* ===== verification/Digest.thy ===== *)
theory Digest
  imports Md5 Cstring
begin

text \<open>
  Digest authentication as in \<open>app/linux/sip/src/digcalc.c\<close>: hexadecimal output, \<open>H(A1)\<close> and
  the request digest.  The functions are proved against the formulas of RFC 2617 through an
  interface for streaming hash functions, which MD5 implements.
\<close>

section \<open>Streaming hash functions\<close>

text \<open>
  What the client relies on: a context is initialised, fed pieces and finished; \<open>stream m c\<close>
  says that \<open>c\<close> has been fed \<open>m\<close>.
\<close>

locale hash_api =
  fixes init :: "'c \<Rightarrow> 'c"
    and update :: "'c \<Rightarrow> byte list \<Rightarrow> u32 \<Rightarrow> 'c res"
    and final :: "'c \<Rightarrow> (byte list \<times> 'c) res"
    and digest :: "byte list \<Rightarrow> byte list"
    and valid :: "'c \<Rightarrow> bool"
    and stream :: "byte list \<Rightarrow> 'c \<Rightarrow> bool"
    and limit :: nat
  assumes init_stream: "valid c \<Longrightarrow> stream [] (init c)"
    and update_stream: "stream m c \<Longrightarrow> n \<le> length p \<Longrightarrow> n < limit \<Longrightarrow>
      \<exists>c'. update c p (of_nat n) = Inr c' \<and> stream (m @ take n p) c'"
    and final_stream: "stream m c \<Longrightarrow> \<exists>c'. final c = Inr (digest m, c') \<and> valid c'"
begin

lemma update_then:
  assumes "stream m c" "n \<le> length p" "n < limit"
    and "\<And>c'. stream (m @ take n p) c' \<Longrightarrow> f c' = r"
  shows "bindR (update c p (of_nat n)) f = r"
  using update_stream [OF assms(1-3)] assms(4) by auto

lemma update_str_then:
  assumes "stream m c" "0 \<in> set p" "length p < limit"
    and "\<And>c'. stream (m @ cstr p) c' \<Longrightarrow> f c' = r"
  shows "bindR (bindR (strlen p) (\<lambda>n. update c p (of_nat n))) f = r"
proof -
  have "length (cstr p) < length p" using assms(2) by (rule cstr_length)
  then show ?thesis
    using update_then [OF assms(1), of "length (cstr p)" p f r] assms(2-4)
    by (simp add: strlen_ok take_cstr)
qed

lemma final_then:
  assumes "stream m c" and "\<And>c'. valid c' \<Longrightarrow> f (digest m, c') = r"
  shows "bindR (final c) f = r"
  using final_stream [OF assms(1)] assms(2) by auto

end

definition md5_valid :: "MD5_CTX \<Rightarrow> bool" where
  "md5_valid c \<longleftrightarrow> length (buffer c) = 64"

definition md5_limit :: nat where
  "md5_limit = 2 ^ 32 - 64"

interpretation md5: hash_api MD5Init MD5Update MD5Final md5 md5_valid ctx_of md5_limit
proof unfold_locales
  show "ctx_of [] (MD5Init c)" if "md5_valid c" for c
    using that ctx_init by (simp add: md5_valid_def)
  show "\<exists>c'. MD5Update c p (of_nat n) = Inr c' \<and> ctx_of (m @ take n p) c'"
    if "ctx_of m c" "n \<le> length p" "n < md5_limit" for m c n p
    using that update_ctx by (simp add: md5_limit_def)
  show "\<exists>c'. MD5Final c = Inr (md5 m, c') \<and> md5_valid c'" if "ctx_of m c" for m c
    using final_digest [OF that] by (auto simp: md5_valid_def)
qed

section \<open>Hexadecimal output\<close>

definition HASHLEN :: nat where "HASHLEN = 16"
definition HASHHEXLEN :: nat where "HASHHEXLEN = 32"

definition hex_of :: "byte \<Rightarrow> byte" where
  "hex_of j = (if j \<le> 9 then j + 48 else j + 97 - 10)"

function cvt_loop :: "byte list \<Rightarrow> byte list \<Rightarrow> nat \<Rightarrow> byte list res" where
  "cvt_loop Bin Hex i =
     (if i < HASHLEN then
        bindR (mem_read i 1 Bin) (\<lambda>v.
        bindR (mem_write (i * 2) [hex_of (drop_bit 4 (hd v) AND 0xf)] Hex) (\<lambda>Hex.
        bindR (mem_write (i * 2 + 1) [hex_of (hd v AND 0xf)] Hex) (\<lambda>Hex.
        cvt_loop Bin Hex (Suc i))))
      else Inr Hex)"
  by pat_completeness auto
termination by (relation "measure (\<lambda>(Bin, Hex, i). HASHLEN - i)") auto

declare cvt_loop.simps [simp del]

definition CvtHex :: "byte list \<Rightarrow> byte list \<Rightarrow> byte list res" where
  "CvtHex Bin Hex = bindR (cvt_loop Bin Hex 0) (mem_write HASHHEXLEN [0])"

text \<open>Two digits per byte, the high half first.\<close>

definition hex2 :: "byte \<Rightarrow> byte list" where
  "hex2 b = [digit_char (unat b div 16), digit_char (unat b mod 16)]"

definition to_hex :: "byte list \<Rightarrow> byte list" where
  "to_hex bs = concat (map hex2 bs)"

lemma length_to_hex [simp]: "length (to_hex bs) = 2 * length bs"
  by (induction bs) (auto simp: to_hex_def hex2_def)

lemma to_hex_simps: "to_hex [] = []" "to_hex (b # bs) = hex2 b @ to_hex bs" "to_hex (as @ bs) = to_hex as @ to_hex bs"
  by (simp_all add: to_hex_def)

lemma hex_of_digit:
  assumes "d < 16"
  shows "hex_of (of_nat d) = digit_char d"
proof -
  have "unat (of_nat d :: byte) = d" using assms by (simp add: unsigned_of_nat take_bit_nat_eq_self)
  then have "(of_nat d :: byte) \<le> 9 \<longleftrightarrow> d < 10" by (auto simp: word_le_nat_alt)
  then show ?thesis by (simp add: hex_of_def digit_char_def)
qed

lemma nibbles:
  "hex_of (drop_bit 4 b AND 0xf) = digit_char (unat b div 16)" "hex_of (b AND 0xf) = digit_char (unat b mod 16)"
proof -
  have m: "v AND 0xf = (of_nat (unat v mod 16) :: byte)" for v
  proof -
    have "v AND 0xf = take_bit 4 v" by (simp add: take_bit_eq_mask mask_eq_exp_minus_1)
    moreover have "unat (take_bit 4 v) = take_bit 4 (unat v)"
      by (simp only: unsigned_take_bit_eq)
    then have "unat (take_bit 4 v) = unat v mod 16"
      by (simp only: take_bit_eq_mod) simp
    ultimately show ?thesis by (metis of_nat_unat ucast_id)
  qed
  have u: "unat b < 256" using unsigned_less [of b] by simp
  have d: "unat (drop_bit 4 b) = unat b div 16"
    unfolding unat_drop_bit_eq by (simp add: drop_bit_eq_div)
  show "hex_of (b AND 0xf) = digit_char (unat b mod 16)"
    unfolding m by (rule hex_of_digit) simp
  show "hex_of (drop_bit 4 b AND 0xf) = digit_char (unat b div 16)"
    unfolding m d using u by (simp add: hex_of_digit)
qed

lemma cvt_loop_ok:
  assumes "length Bin = 16" "length r = 33 - 2 * i" "i \<le> 16"
  shows "\<exists>z. cvt_loop Bin (to_hex (take i Bin) @ r) i = Inr (to_hex Bin @ [z])"
  using assms
proof (induction "16 - i" arbitrary: i r)
  case 0
  then have i: "i = 16" by simp
  with 0 obtain z where "r = [z]" by (cases r) auto
  then show ?case using i 0 by (simp add: cvt_loop.simps HASHLEN_def)
next
  case (Suc k)
  then have i: "i < 16" by simp
  let ?b = "Bin ! i"
  have v: "mem_read i 1 Bin = Inr [?b]"
    using i Suc.prems by (simp add: mem_read_def take_Suc_conv_app_nth hd_drop_conv_nth take_Suc)
  obtain x y r' where r: "r = x # y # r'" "length r' = 33 - 2 * Suc i"
    using i Suc.prems(2) by (cases r; cases "tl r") auto
  have l: "length (to_hex (take i Bin)) = i * 2" using i Suc.prems(1) by simp
  have t: "to_hex (take (Suc i) Bin) = to_hex (take i Bin) @ hex2 ?b"
    using i Suc.prems(1) by (simp add: take_Suc_conv_app_nth to_hex_simps)
  have "cvt_loop Bin (to_hex (take i Bin) @ r) i = cvt_loop Bin (to_hex (take (Suc i) Bin) @ r') (Suc i)"
    using i l unfolding t
    by (subst cvt_loop.simps)
      (simp only: v HASHLEN_def bindR_Inr list.sel nibbles(1) if_True,
        simp add: nibbles(2) hex2_def mem_write_ok r)
  then show ?case using Suc.hyps(1) [of "Suc i" r'] Suc.hyps(2) Suc.prems(1) i r(2) by simp
qed

lemma CvtHex_ok:
  assumes "length Bin = 16" "length Hex = 33"
  shows "CvtHex Bin Hex = Inr (to_hex Bin @ [0])"
  using cvt_loop_ok [of Bin Hex 0] assms
  by (auto simp: CvtHex_def to_hex_simps HASHHEXLEN_def mem_write_ok)

lemma hex_char_hex2: "c \<in> set (hex2 b) \<Longrightarrow> hex_char c"
proof -
  have "unat b < 256" using unsigned_less [of b] by simp
  then have "unat b div 16 < 16" "unat b mod 16 < 16" by auto
  then show "c \<in> set (hex2 b) \<Longrightarrow> hex_char c" by (auto simp: hex2_def intro: digit_char)
qed

lemma hex_char_to_hex: "c \<in> set (to_hex bs) \<Longrightarrow> hex_char c"
  by (auto simp: to_hex_def intro: hex_char_hex2)

lemma cstr_to_hex: "0 \<notin> set (to_hex bs)" "cstr (to_hex bs @ 0 # t) = to_hex bs"
proof -
  show "0 \<notin> set (to_hex bs)" using hex_char_to_hex hex_char_not(1) by blast
  then show "cstr (to_hex bs @ 0 # t) = to_hex bs" by (rule cstr_nul)
qed

section \<open>The digests\<close>

definition tolower :: "byte \<Rightarrow> byte" where
  "tolower b = (if 65 \<le> b \<and> b \<le> 90 then b + 32 else b)"

text \<open>\<open>strcasecmp(a, b) == 0\<close>, and a string literal in memory.\<close>

definition strcasecmp_eq :: "byte list \<Rightarrow> byte list \<Rightarrow> bool res" where
  "strcasecmp_eq a b = bindR (read_str a) (\<lambda>x. bindR (read_str b) (\<lambda>y.
     Inr (map tolower x = map tolower y)))"

definition cs :: "string \<Rightarrow> byte list" where
  "cs s = lit s @ [0]"

definition update_str :: "MD5_CTX \<Rightarrow> byte list \<Rightarrow> MD5_CTX res" where
  "update_str c p = bindR (strlen p) (\<lambda>n. MD5Update c p (of_nat n))"

abbreviation update_colon :: "MD5_CTX \<Rightarrow> MD5_CTX res" where
  "update_colon c \<equiv> MD5Update c (cs '':'') (of_nat 1)"

text \<open>
  \<open>ctx\<close> is what the stack holds where \<open>Md5Ctx\<close> is placed; \<open>SessionKey\<close> is the caller's array.
\<close>

definition DigestCalcHA1 ::
  "MD5_CTX \<Rightarrow> byte list \<Rightarrow> byte list \<Rightarrow> byte list \<Rightarrow> byte list \<Rightarrow> byte list \<Rightarrow> byte list \<Rightarrow> byte list
     \<Rightarrow> byte list res" where
  "DigestCalcHA1 ctx pszAlg pszUserName pszRealm pszPassword pszNonce pszCNonce SessionKey =
     bindR (update_str (MD5Init ctx) pszUserName) (\<lambda>c.
     bindR (update_colon c) (\<lambda>c.
     bindR (update_str c pszRealm) (\<lambda>c.
     bindR (update_colon c) (\<lambda>c.
     bindR (update_str c pszPassword) (\<lambda>c.
     bindR (MD5Final c) (\<lambda>(HA1, c).
     bindR (strcasecmp_eq pszAlg (cs ''md5-sess'')) (\<lambda>sess.
     bindR
       (if sess then
          bindR (MD5Update (MD5Init c) HA1 (of_nat HASHLEN)) (\<lambda>c.
          bindR (update_colon c) (\<lambda>c.
          bindR (update_str c pszNonce) (\<lambda>c.
          bindR (update_colon c) (\<lambda>c.
          bindR (update_str c pszCNonce) (\<lambda>c.
          bindR (MD5Final c) (\<lambda>(HA1, c). Inr HA1))))))
        else Inr HA1)
       (\<lambda>HA1. CvtHex HA1 SessionKey))))))))"

definition DigestCalcResponse ::
  "MD5_CTX \<Rightarrow> byte list \<Rightarrow> byte list \<Rightarrow> byte list \<Rightarrow> byte list \<Rightarrow> byte list \<Rightarrow> byte list \<Rightarrow> byte list
     \<Rightarrow> byte list \<Rightarrow> byte list \<Rightarrow> byte list \<Rightarrow> byte list res" where
  "DigestCalcResponse ctx HA1 pszNonce pszNonceCount pszCNonce pszQop pszMethod pszDigestUri
       HEntity HA2Hex Response =
     bindR (update_str (MD5Init ctx) pszMethod) (\<lambda>c.
     bindR (update_colon c) (\<lambda>c.
     bindR (update_str c pszDigestUri) (\<lambda>c.
     bindR (strcasecmp_eq pszQop (cs ''auth-int'')) (\<lambda>auth_int.
     bindR
       (if auth_int then
          bindR (update_colon c) (\<lambda>c. MD5Update c HEntity (of_nat HASHHEXLEN))
        else Inr c)
       (\<lambda>c.
     bindR (MD5Final c) (\<lambda>(HA2, c).
     bindR (CvtHex HA2 HA2Hex) (\<lambda>HA2Hex.
     bindR (MD5Update (MD5Init c) HA1 (of_nat HASHHEXLEN)) (\<lambda>c.
     bindR (update_colon c) (\<lambda>c.
     bindR (update_str c pszNonce) (\<lambda>c.
     bindR (update_colon c) (\<lambda>c.
     bindR (mem_read 0 1 pszQop) (\<lambda>q.
     bindR
       (if hd q \<noteq> 0 then
          bindR (update_str c pszNonceCount) (\<lambda>c.
          bindR (update_colon c) (\<lambda>c.
          bindR (update_str c pszCNonce) (\<lambda>c.
          bindR (update_colon c) (\<lambda>c.
          bindR (update_str c pszQop) (\<lambda>c.
          update_colon c)))))
        else Inr c)
       (\<lambda>c.
     bindR (MD5Update c HA2Hex (of_nat HASHHEXLEN)) (\<lambda>c.
     bindR (MD5Final c) (\<lambda>(RespHash, c).
     CvtHex RespHash Response)))))))))))))))"


section \<open>The formulas of RFC 2617\<close>

text \<open>Parts separated by colons.\<close>

fun join :: "byte list list \<Rightarrow> byte list" where
  "join [] = []"
| "join [x] = x"
| "join (x # y # xs) = x @ 58 # join (y # xs)"

definition rfc_HA1 :: "byte list \<Rightarrow> byte list \<Rightarrow> byte list \<Rightarrow> byte list \<Rightarrow> byte list \<Rightarrow> byte list \<Rightarrow> byte list" where
  "rfc_HA1 alg user realm pass nonce cnonce =
     (let a1 = md5 (join [user, realm, pass])
      in to_hex (if map tolower alg = lit ''md5-sess'' then md5 (join [a1, nonce, cnonce]) else a1))"

definition rfc_response :: "byte list \<Rightarrow> byte list \<Rightarrow> byte list \<Rightarrow> byte list \<Rightarrow> byte list \<Rightarrow> byte list \<Rightarrow> byte list
    \<Rightarrow> byte list \<Rightarrow> byte list" where
  "rfc_response ha1 nonce nc cnonce qop method uri entity =
     (let a2 = [method, uri] @ (if map tolower qop = lit ''auth-int'' then [entity] else []);
          mid = (if qop = [] then [] else [nc, cnonce, qop])
      in to_hex (md5 (join ([ha1, nonce] @ mid @ [to_hex (md5 (join a2))]))))"

text \<open>A string argument: it has an end, and fits a 32-bit length.\<close>

definition str_arg :: "byte list \<Rightarrow> bool" where
  "str_arg p \<longleftrightarrow> 0 \<in> set p \<and> length p < md5_limit"

lemma length_md5 [simp]: "length (md5 m) = 16"
  by (simp add: md5_def length_Encode regs_list_def split: prod.splits)

lemma cs_simps [simp]: "cs '':'' = [58, 0]"
  by (simp add: cs_def)

lemma limit_simps [simp]: "1 < md5_limit" "16 < md5_limit" "32 < md5_limit"
  by (simp_all add: md5_limit_def)

lemma colon_then:
  assumes "ctx_of m c" "\<And>c'. ctx_of (m @ [58]) c' \<Longrightarrow> f c' = r"
  shows "bindR (update_colon c) f = r"
  by (rule md5.update_then [OF assms(1)]) (simp_all add: assms(2) md5_limit_def)

lemma str_then:
  assumes "ctx_of m c" "str_arg p" "\<And>c'. ctx_of (m @ cstr p) c' \<Longrightarrow> f c' = r"
  shows "bindR (update_str c p) f = r"
  using md5.update_str_then [OF assms(1) _ _ assms(3)] assms(2) by (simp add: str_arg_def update_str_def)

lemma strcasecmp_eq_ok:
  assumes "0 \<in> set a" "0 \<notin> set (lit s)" 
  shows "strcasecmp_eq a (cs s) = Inr (map tolower (cstr a) = map tolower (lit s))"
  using assms by (simp add: strcasecmp_eq_def read_str_ok cs_def cstr_nul)

lemma lower_lit:
  "map tolower (lit ''md5-sess'') = lit ''md5-sess''" "map tolower (lit ''auth-int'') = lit ''auth-int''"
  "0 \<notin> set (lit ''md5-sess'')" "0 \<notin> set (lit ''auth-int'')"
  by (simp_all add: tolower_def)

text \<open>One update or finish after the other.\<close>

lemma block_then:
  assumes "md5_valid c" "length p = n" "n < md5_limit" "\<And>c'. ctx_of p c' \<Longrightarrow> f c' = r"
  shows "bindR (MD5Update (MD5Init c) p (of_nat n)) f = r"
  by (rule md5.update_then [OF md5.init_stream [OF assms(1)]]) (use assms in simp_all)

lemma first_then:
  assumes "md5_valid c" "str_arg p" "\<And>c'. ctx_of (cstr p) c' \<Longrightarrow> f c' = r"
  shows "bindR (update_str (MD5Init c) p) f = r"
  by (rule str_then [OF md5.init_stream [OF assms(1)] assms(2)]) (use assms in simp)

lemmas hash_steps = colon_then first_then str_then block_then md5.final_then

lemma HA1_correct:
  assumes "md5_valid ctx" "length SessionKey = 33"
    and "0 \<in> set alg" "str_arg user" "str_arg realm" "str_arg pass" "str_arg nonce" "str_arg cnonce"
  shows "DigestCalcHA1 ctx alg user realm pass nonce cnonce SessionKey =
    Inr (rfc_HA1 (cstr alg) (cstr user) (cstr realm) (cstr pass) (cstr nonce) (cstr cnonce) @ [0])"
proof (cases "map tolower (cstr alg) = lit ''md5-sess''")
  case True
  have cmp: "strcasecmp_eq alg (cs ''md5-sess'') = Inr True"
    using True strcasecmp_eq_ok [OF assms(3) lower_lit(3)] unfolding lower_lit by simp
  show ?thesis
    unfolding DigestCalcHA1_def
    by ((rule hash_steps | assumption | rule assms length_md5 [folded HASHLEN_def] limit_simps [folded HASHLEN_def]
          | simp only: cmp bindR_Inr prod.case if_True bindR_assoc)+)
      (simp add: CvtHex_ok assms(2) rfc_HA1_def Let_def True del: lit_simps)
next
  case False
  have cmp: "strcasecmp_eq alg (cs ''md5-sess'') = Inr False"
    using False strcasecmp_eq_ok [OF assms(3) lower_lit(3)] unfolding lower_lit by simp
  show ?thesis
    unfolding DigestCalcHA1_def
    by ((rule hash_steps | assumption | rule assms | simp only: cmp bindR_Inr prod.case if_False)+)
      (simp add: CvtHex_ok assms(2) rfc_HA1_def Let_def False del: lit_simps)
qed


lemma qop_byte:
  assumes "str_arg qop"
  shows "mem_read 0 1 qop = Inr [hd qop]" "hd qop = 0 \<longleftrightarrow> cstr qop = []"
  using assms by (cases qop; simp add: str_arg_def mem_read_def md5_limit_def cstr_def)+

lemma length_hex_md5: "length (to_hex (md5 m)) = 32"
  by simp

lemma Response_correct:
  assumes "md5_valid ctx" "length HA2Hex = 33" "length Response = 33" "length ha1 = 32" "length entity = 32"
    and "str_arg nonce" "str_arg nc" "str_arg cnonce" "str_arg qop" "str_arg method" "str_arg uri"
  shows "DigestCalcResponse ctx (ha1 @ t) nonce nc cnonce qop method uri (entity @ u) HA2Hex Response =
    Inr (rfc_response ha1 (cstr nonce) (cstr nc) (cstr cnonce) (cstr qop) (cstr method) (cstr uri) entity
      @ [0])"
proof -
  have ha1: "bindR (MD5Update (MD5Init c) (ha1 @ t) (of_nat HASHHEXLEN)) f = r"
    if "md5_valid c" "\<And>c'. ctx_of ha1 c' \<Longrightarrow> f c' = r" for c f and r :: "byte list res"
    by (rule md5.update_then [OF md5.init_stream [OF that(1)]]) (use assms that in \<open>simp_all add: HASHHEXLEN_def\<close>)
  have hex: "bindR (MD5Update c (p @ z) (of_nat HASHHEXLEN)) f = r"
    if "ctx_of m c" "length p = 32" "\<And>c'. ctx_of (m @ p) c' \<Longrightarrow> f c' = r" for m c p z f and r :: "byte list res"
    by (rule md5.update_then [OF that(1)]) (use that in \<open>simp_all add: HASHHEXLEN_def\<close>)
  have z: "0 \<in> set qop" using assms(9) by (simp add: str_arg_def)
  note cmp = strcasecmp_eq_ok [OF z lower_lit(4), unfolded lower_lit]
  note q = qop_byte [OF assms(9)]
  have e: "map tolower [] \<noteq> lit ''auth-int''" by simp
  note simps = bindR_Inr prod.case bindR_assoc q CvtHex_ok [OF length_md5 assms(2)]
  note fin = CvtHex_ok [OF length_md5 assms(3)] rfc_response_def Let_def
  consider "cstr qop = []" | "cstr qop \<noteq> []" "map tolower (cstr qop) = lit ''auth-int''"
    | "cstr qop \<noteq> []" "map tolower (cstr qop) \<noteq> lit ''auth-int''" by blast
  then show ?thesis
  proof cases
    case 1
    then have c: "strcasecmp_eq qop (cs ''auth-int'') = Inr False" using cmp e by simp
    show ?thesis
      unfolding DigestCalcResponse_def
      by ((rule ha1 hex hash_steps length_hex_md5 | assumption | rule assms
            | simp only: c simps 1 if_False not_True_eq_False list.sel refl)+)
        (simp add: fin 1 tolower_def)
  next
    case 2
    then have c: "strcasecmp_eq qop (cs ''auth-int'') = Inr True" using cmp by simp
    show ?thesis
      unfolding DigestCalcResponse_def
      by ((rule ha1 hex hash_steps length_hex_md5 | assumption | rule assms
            | simp only: c simps 2 if_True not_False_eq_True list.sel refl)+)
        (simp add: fin 2 del: lit_simps)
  next
    case 3
    then have c: "strcasecmp_eq qop (cs ''auth-int'') = Inr False" using cmp by simp
    show ?thesis
      unfolding DigestCalcResponse_def
      by ((rule ha1 hex hash_steps length_hex_md5 | assumption | rule assms
            | simp only: c simps 3 if_False if_True not_False_eq_True list.sel refl)+)
        (simp add: fin 3 del: lit_simps)
  qed
qed

section \<open>Properties\<close>

definition hex_val :: "byte \<Rightarrow> nat" where
  "hex_val c = (if c \<le> 57 then unat c - 48 else unat c - 87)"

fun from_hex :: "byte list \<Rightarrow> byte list" where
  "from_hex (h # l # r) = of_nat (16 * hex_val h + hex_val l) # from_hex r"
| "from_hex r = []"

lemma hex_val_digit: "d < 16 \<Longrightarrow> hex_val (digit_char d) = d"
proof -
  have "\<forall>d \<in> {0, 1, 2, 3, 4, 5, 6, 7, 8, 9, 10, 11, 12, 13, 14, 15}. hex_val (digit_char d) = d"
    by (simp add: hex_val_def digit_char_def)
  moreover assume "d < 16"
  then have "d \<in> {0, 1, 2, 3, 4, 5, 6, 7, 8, 9, 10, 11, 12, 13, 14, 15}"
    by (simp add: numeral_eq_Suc less_Suc_eq)
  ultimately show ?thesis by (rule bspec)
qed

lemma from_to_hex: "from_hex (to_hex bs @ [z]) = bs"
proof (induction bs)
  case (Cons b bs)
  have "unat b < 256" using unsigned_less [of b] by simp
  then have "hex_val (digit_char (unat b div 16)) = unat b div 16"
    "hex_val (digit_char (unat b mod 16)) = unat b mod 16"
    by (simp_all add: hex_val_digit)
  then show ?case using Cons by (simp add: to_hex_simps hex2_def)
qed (simp add: to_hex_simps)

text \<open>
  C36: \<open>CvtHex\<close> turns any 16 bytes into a C string of exactly 32 characters, all of them digits or
  the letters a to f, from which the bytes can be read back.
\<close>

theorem cvt_hex_type:
  assumes "length Bin = 16" "length Hex = 33"
  shows "\<exists>h. CvtHex Bin Hex = Inr (h @ [0]) \<and> length h = 32 \<and> (\<forall>c \<in> set h. hex_char c)
    \<and> from_hex (h @ [0]) = Bin"
  using CvtHex_ok [OF assms] assms(1) from_to_hex hex_char_to_hex by auto

theorem cvt_hex_type_witness:
  "\<exists>h. CvtHex [0, 1, 2, 3, 4, 5, 6, 7, 0x89, 0x9a, 0xab, 0xbc, 0xcd, 0xde, 0xef, 0xff] (bzero 33)
      = Inr (h @ [0]) \<and> length h = 32 \<and> (\<forall>c \<in> set h. hex_char c)"
  using cvt_hex_type [of "[0, 1, 2, 3, 4, 5, 6, 7, 0x89, 0x9a, 0xab, 0xbc, 0xcd, 0xde, 0xef, 0xff]" "bzero 33"]
  by auto

text \<open>
  \<open>DigestCalcHA1\<close> computes the A1 hash of RFC 2617 of its string arguments, with the session
  variant exactly when the algorithm is ``MD5-sess'' in any case; the result is independent of
  what the stack held.
\<close>

lemma digest_ha1_rfc2617:
  assumes "length (buffer ctx) = 64" "length SessionKey = 33"
    and "0 \<in> set alg" "str_arg user" "str_arg realm" "str_arg pass" "str_arg nonce" "str_arg cnonce"
  shows "DigestCalcHA1 ctx alg user realm pass nonce cnonce SessionKey =
    Inr (rfc_HA1 (cstr alg) (cstr user) (cstr realm) (cstr pass) (cstr nonce) (cstr cnonce) @ [0])"
  by (rule HA1_correct) (use assms in \<open>simp_all add: md5_valid_def\<close>)

lemma digest_ha1_rfc2617_witness:
  "DigestCalcHA1 blank_ctx (cs ''MD5'') (cs ''215'') (cs ''asterisk'') (cs ''215test'') (cs ''4f2a'') (cs '''') (bzero 33)
    = Inr (to_hex (md5 (lit ''215:asterisk:215test'')) @ [0])"
  using digest_ha1_rfc2617 [of blank_ctx "bzero 33" "cs ''MD5''" "cs ''215''" "cs ''asterisk''" "cs ''215test''"
      "cs ''4f2a''" "cs ''''"]
  by (simp add: blank_ctx_def str_arg_def md5_limit_def cs_def rfc_HA1_def cstr_def tolower_def)

text \<open>
  C10: \<open>DigestCalcResponse\<close> computes the request digest of RFC 2617 for every quality of
  protection: with an empty one the short form of RFC 2069, otherwise with nonce count, client
  nonce and \<open>qop\<close>, and with the entity hash exactly for ``auth-int''.
\<close>

theorem digest_response_rfc2617:
  assumes "length (buffer ctx) = 64" "length HA2Hex = 33" "length Response = 33"
    and "length ha1 = 32" "length entity = 32"
    and "str_arg nonce" "str_arg nc" "str_arg cnonce" "str_arg qop" "str_arg method" "str_arg uri"
  shows "DigestCalcResponse ctx (ha1 @ t) nonce nc cnonce qop method uri (entity @ u) HA2Hex Response =
    Inr (rfc_response ha1 (cstr nonce) (cstr nc) (cstr cnonce) (cstr qop) (cstr method) (cstr uri) entity
      @ [0])"
  by (rule Response_correct) (use assms in \<open>simp_all add: md5_valid_def\<close>)

theorem digest_response_rfc2617_witness:
  "DigestCalcResponse blank_ctx (replicate 32 97 @ [0]) (cs ''4f2a'') (cs ''00000001'') (cs ''0a'') (cs ''auth'')
      (cs ''INVITE'') (cs ''sip:212@pbx'') (replicate 32 98 @ [0]) (bzero 33) (bzero 33)
    = Inr (to_hex (md5 (replicate 32 97 @ lit '':4f2a:00000001:0a:auth:''
        @ to_hex (md5 (lit ''INVITE:sip:212@pbx'')))) @ [0])"
  using digest_response_rfc2617 [of blank_ctx "bzero 33" "bzero 33" "replicate 32 97" "replicate 32 98"
      "cs ''4f2a''" "cs ''00000001''" "cs ''0a''" "cs ''auth''" "cs ''INVITE''" "cs ''sip:212@pbx''" "[0]" "[0]"]
  by (simp add: blank_ctx_def str_arg_def md5_limit_def cs_def rfc_response_def cstr_def tolower_def)

end
