(* ===== verification/Sip_Msg.thy ===== *)
theory Sip_Msg
  imports Digest
begin

text \<open>
  The messages the SIP client sends (\<open>app/linux/sip/src/sip_call.c\<close>): \<open>CreateInvite\<close>,
  \<open>CreateAuthString\<close>, \<open>CreateAck\<close> and \<open>Create200\<close>, which print into arrays of fixed size.  The
  reference is the framing of RFC 3261: lines ended by CR LF, an empty line, the body.
\<close>

section \<open>Data\<close>

record SIP_message =
  mess_code :: int
  mess_command :: "byte list"      \<comment> \<open>char[20]\<close>
  mess_from :: "byte list"         \<comment> \<open>char[255], as all fields below\<close>
  mess_via :: "byte list"
  mess_to :: "byte list"
  mess_call_id :: "byte list"
  mess_cseq :: "byte list"
  mess_server :: "byte list"
  mess_allow :: "byte list"
  mess_supported :: "byte list"
  mess_contact :: "byte list"
  mess_auth :: "byte list"
  mess_content_lenght :: int

definition BUFSIZE :: nat where "BUFSIZE = 1024"
definition FIELD_SIZE :: nat where "FIELD_SIZE = 255"

text \<open>The globals of the file that hold messages.  \<open>CallID_addr\<close> is the address of \<open>CallID\<close>.\<close>

record sip_globals =
  SIP_mess :: "byte list"
  SIP_field :: "byte list"
  SIP_realm :: "byte list"         \<comment> \<open>\<open>realm\<close>\<close>
  SIP_nonce :: "byte list"         \<comment> \<open>\<open>nonce\<close>\<close>
  Auth_String :: "byte list"
  SIP_ans_mess :: SIP_message
  CSeq :: int
  CallID_addr :: u32

abbreviation eol :: fmt where "eol \<equiv> Txt [CHR 0x0D, CHR 0x0A]"
abbreviation quo :: fmt where "quo \<equiv> Txt [CHR 0x22]"

section \<open>INVITE\<close>

definition sdp_lines :: "byte list \<Rightarrow> byte list \<Rightarrow> fmt list list" where
  "sdp_lines ownip ownrtpport =
     [[Txt ''v=0'', eol],
      [Txt ''o=LONIIS_test 1234567890 1234567890 IN IP4 '', Str ownip, eol],
      [Txt ''s=LONIIS'', eol],
      [Txt ''c=IN IP4 '', Str ownip, eol],
      [Txt ''t=0 0'', eol],
      [Txt ''m=audio '', Str ownrtpport, Txt '' RTP/AVP 0 101'', eol],
      [Txt ''a=rtpmap:0 PCMU/8000'', eol],
      [Txt ''a=sendrecv'', eol],
      [Txt ''a=rtpmap:101 telephone-event/8000'', eol],
      [Txt ''a=fmtp:101 0-15'', eol, eol]]"

text \<open>
  The header lines; \<open>rnd\<close> is the result of \<open>random()\<close>, and \<open>%x\<close> prints the address of \<open>CallID\<close>.
\<close>

definition invite_lines ::
  "sip_globals \<Rightarrow> int \<Rightarrow> byte list \<Rightarrow> byte list \<Rightarrow> byte list \<Rightarrow> byte list \<Rightarrow> byte list \<Rightarrow> nat \<Rightarrow> fmt list list" where
  "invite_lines g rnd own_acc acc ownip ownsipport serverip mLen1 =
     [[Txt ''INVITE sip:'', Str acc, Txt ''@'', Str serverip, Txt '' SIP/2.0'', eol],
      [Txt ''Via: SIP/2.0/UDP '', Str ownip, Txt '':'', Str ownsipport, Txt '';branch=z9hG4bK'',
         Hexa (CallID_addr g), Dec rnd, Txt '';rport'', eol],
      [Txt ''From: '', quo, Str own_acc, quo, Txt '' <sip:'', Str own_acc, Txt ''@'', Str serverip,
         Txt ''>;tag=123456789123456789'', eol],
      [Txt ''Max-Forwards: 70'', eol],
      [Txt ''To: sip:'', Str acc, Txt ''@'', Str serverip, eol],
      [Txt ''Contact: <sip:'', Str own_acc, Txt ''@'', Str ownip, Txt ''>'', eol],
      [Txt ''Call-ID: '', Hexa (CallID_addr g), eol],
      [Txt ''CSeq: '', Dec (CSeq g), Txt '' INVITE'', eol],
      [Txt ''Allow: PRACK, INVITE, ACK, BYE, CANCEL, UPDATE'', eol],
      [Txt ''Supported: 100rel'', eol],
      [Txt ''Content-Type: application/sdp'', eol],
      [Txt ''Content-Length: '', Dec (int mLen1), eol]]"

definition CreateInvite ::
  "sip_globals \<Rightarrow> int \<Rightarrow> byte list \<Rightarrow> byte list \<Rightarrow> byte list \<Rightarrow> byte list \<Rightarrow> byte list \<Rightarrow> byte list \<Rightarrow> byte list
     \<Rightarrow> sip_globals res" where
  "CreateInvite g rnd own_acc acc auth_str ownip ownsipport ownrtpport serverip =
     bindR (emit (bzero BUFSIZE) 0 (sdp_lines ownip ownrtpport)) (\<lambda>(SDP_mess, mLen1).
     bindR (emit (bzero BUFSIZE) 0
              (invite_lines g rnd own_acc acc ownip ownsipport serverip mLen1
               @ [[Str auth_str, eol, eol]])) (\<lambda>(m, mLen).
     bindR (read_str SDP_mess) (\<lambda>sdp.
     bindR (mem_write mLen sdp m) (\<lambda>m'. Inr (g\<lparr>SIP_mess := m'\<rparr>)))))"

section \<open>Authorization\<close>

text \<open>What the stack holds where the local arrays of \<open>CreateAuthString\<close> are placed.\<close>

record auth_frame =
  f_ctx :: MD5_CTX
  f_uri :: "byte list"
  f_HA1 :: "byte list"
  f_HA2Hex :: "byte list"
  f_Response :: "byte list"

definition CreateAuthString ::
  "sip_globals \<Rightarrow> auth_frame \<Rightarrow> byte list \<Rightarrow> byte list \<Rightarrow> byte list \<Rightarrow> byte list \<Rightarrow> sip_globals res" where
  "CreateAuthString g fr own_acc own_pass acc serverip =
     bindR (sprintf (f_uri fr) 0 [Txt ''sip:'', Str acc, Txt ''@'', Str serverip]) (\<lambda>uri.
     bindR (DigestCalcHA1 (f_ctx fr) (cs ''MD5'') own_acc (SIP_realm g) own_pass (SIP_nonce g) (cs '''')
              (f_HA1 fr)) (\<lambda>HA1.
     bindR (DigestCalcResponse (f_ctx fr) HA1 (SIP_nonce g) (cs ''00000001'') (cs '''') (cs '''')
              (cs ''INVITE'') uri (bzero (HASHHEXLEN + 1)) (f_HA2Hex fr) (f_Response fr)) (\<lambda>Response.
     bindR (sprintf (bzero FIELD_SIZE) 0
              [Txt ''Authorization: Digest username='', quo, Str own_acc, quo,
               Txt '',realm='', quo, Str (SIP_realm g), quo,
               Txt '',nonce='', quo, Str (SIP_nonce g), quo,
               Txt '',uri='', quo, Str uri, quo,
               Txt '',response='', quo, Str Response, quo, Txt '',algorithm=MD5'']) (\<lambda>a.
     Inr (g\<lparr>Auth_String := a\<rparr>)))))"

section \<open>ACK and 200\<close>

definition echo_lines :: "SIP_message \<Rightarrow> fmt list list" where
  "echo_lines a =
     [[Txt ''To:'', Str (mess_to a), eol],
      [Txt ''Contact:'', Str (mess_contact a), eol],
      [Txt ''Call-ID:'', Str (mess_call_id a), eol],
      [Txt ''CSeq:'', Str (mess_cseq a), eol],
      [Txt ''Content-Length:   '', Dec (mess_content_lenght a), eol, eol]]"

definition CreateAck :: "sip_globals \<Rightarrow> byte list \<Rightarrow> byte list \<Rightarrow> sip_globals res" where
  "CreateAck g acc serverip =
     (let a = SIP_ans_mess g in
      bindR (emit (bzero BUFSIZE) 0
        ([[Txt ''ACK sip:'', Str acc, Txt ''@'', Str serverip, Txt '' SIP/2.0'', eol],
          [Txt ''Via:'', Str (mess_via a), eol],
          [Txt ''From:'', Str (mess_from a), eol],
          [Txt ''Max-Forwards: 70'', eol]] @ echo_lines a)) (\<lambda>(m, mLen).
      Inr (g\<lparr>SIP_mess := m\<rparr>)))"

definition Create200 :: "sip_globals \<Rightarrow> sip_globals res" where
  "Create200 g =
     (let a = SIP_ans_mess g in
      bindR (emit (bzero BUFSIZE) 0
        ([[Txt ''SIP/2.0 200 OK'', eol],
          [Txt ''Via:'', Str (mess_via a), eol],
          [Txt ''From:'', Str (mess_from a), eol]] @ echo_lines a)) (\<lambda>(m, mLen).
      Inr (g\<lparr>SIP_mess := m\<rparr>)))"

section \<open>Message framing\<close>

fun next_line :: "byte list \<Rightarrow> (byte list \<times> byte list) option" where
  "next_line [] = None"
| "next_line [b] = None"
| "next_line (b # b' # s) =
     (if b = 13 \<and> b' = 10 then Some ([], s)
      else map_option (\<lambda>(l, r). (b # l, r)) (next_line (b' # s)))"

lemma next_line_length: "next_line s = Some (l, r) \<Longrightarrow> length r < length s"
  by (induction s arbitrary: l r rule: next_line.induct) (auto split: if_splits)

function sip_split :: "byte list \<Rightarrow> (byte list list \<times> byte list) option" where
  "sip_split s =
     (case next_line s of
        None \<Rightarrow> None
      | Some (l, r) \<Rightarrow> if l = [] then Some ([], r)
                      else map_option (\<lambda>(ls, b). (l # ls, b)) (sip_split r))"
  by pat_completeness auto
termination by (relation "measure length") (auto dest: next_line_length)

declare sip_split.simps [simp del]

abbreviation crlf :: "byte list" where "crlf \<equiv> [13, 10]"

definition framed :: "byte list list \<Rightarrow> byte list" where
  "framed ls = concat (map (\<lambda>l. l @ crlf) ls)"

lemma next_line_crlf: "10 \<notin> set l \<Longrightarrow> next_line (l @ crlf @ r) = Some (l, r)"
proof (induction l)
  case (Cons b l)
  then show ?case by (cases l) auto
qed simp

lemma sip_split_framed:
  assumes "\<forall>l \<in> set ls. l \<noteq> [] \<and> 10 \<notin> set l"
  shows "sip_split (framed ls @ crlf @ body) = Some (ls, body)"
  using assms
proof (induction ls)
  case Nil
  show ?case by (subst sip_split.simps) (simp add: framed_def)
next
  case (Cons l ls)
  have "framed (l # ls) @ crlf @ body = l @ crlf @ framed ls @ crlf @ body" by (simp add: framed_def)
  then have "next_line (framed (l # ls) @ crlf @ body) = Some (l, framed ls @ crlf @ body)"
    using Cons.prems next_line_crlf by simp
  then show ?case using Cons by (subst sip_split.simps) simp
qed

text \<open>A printed header line: not empty, one line, ended by CR LF.\<close>

fun part_clean :: "fmt \<Rightarrow> bool" where
  "part_clean (Txt s) \<longleftrightarrow> CHR 0x0A \<notin> set s"
| "part_clean (Str m) \<longleftrightarrow> 10 \<notin> set (cstr m)"
| "part_clean (Dec n) \<longleftrightarrow> True"
| "part_clean (Hexa w) \<longleftrightarrow> True"

definition header_fmt :: "fmt list \<Rightarrow> bool" where
  "header_fmt ps \<longleftrightarrow> ps \<noteq> [] \<and> last ps = eol \<and> butlast ps \<noteq> [] \<and> part_text (hd (butlast ps)) \<noteq> []
     \<and> (\<forall>p \<in> set (butlast ps). part_ok p \<and> part_clean p)"

definition header_text :: "fmt list \<Rightarrow> byte list" where
  "header_text ps = fmt_text (butlast ps)"

text \<open>A string argument without line feed.\<close>

definition line_arg :: "byte list \<Rightarrow> bool" where
  "line_arg p \<longleftrightarrow> 0 \<in> set p \<and> 10 \<notin> set (cstr p)"

lemma of_char_10: "of_char c = (10 :: byte) \<Longrightarrow> c = CHR 0x0A"
  by (cases c) (simp add: of_char_Char horner_sum_simps of_bool_def split: if_splits)

lemma part_clean_text: "part_clean p \<Longrightarrow> 10 \<notin> set (part_text p)"
proof (cases p)
  case (Txt s)
  assume "part_clean p"
  then show ?thesis using Txt of_char_10 by (auto simp: lit_def)
next
  case (Dec n)
  then show ?thesis using show_int_chars [of 10 n] by (auto simp: hex_char_def)
next
  case (Hexa w)
  then show ?thesis using show_base_hex [of 16 "unat w"] by (auto simp: hex_char_def)
qed simp

lemma header_text_ok:
  assumes "header_fmt ps"
  shows "header_text ps \<noteq> []" "10 \<notin> set (header_text ps)" "fmt_text ps = header_text ps @ crlf"
    "\<forall>p \<in> set ps. part_ok p"
proof -
  have ps: "ps = butlast ps @ [eol]" using assms append_butlast_last_id [of ps] by (auto simp: header_fmt_def)
  obtain p qs where b: "butlast ps = p # qs" "part_text p \<noteq> []"
    using assms by (cases "butlast ps") (auto simp: header_fmt_def)
  show "header_text ps \<noteq> []" using b by (simp add: header_text_def fmt_text_def)
  show "10 \<notin> set (header_text ps)"
    using assms part_clean_text by (auto simp: header_text_def fmt_text_def header_fmt_def)
  show "fmt_text ps = header_text ps @ crlf" by (subst ps) (simp add: header_text_def fmt_text_def)
  show "\<forall>p \<in> set ps. part_ok p" using assms by (subst ps) (auto simp: header_fmt_def)
qed

lemma framed_headers:
  assumes "\<forall>ps \<in> set pss. header_fmt ps"
  shows "concat (map fmt_text pss) = framed (map header_text pss)"
    "\<forall>l \<in> set (map header_text pss). l \<noteq> [] \<and> 10 \<notin> set l"
    "\<forall>ps \<in> set pss. \<forall>p \<in> set ps. part_ok p"
  using assms header_text_ok by (auto simp: framed_def intro!: arg_cong [where f = concat])

lemma emit_zero:
  assumes "\<forall>ps \<in> set pss. \<forall>p \<in> set ps. part_ok p" "0 < n"
  shows "emit (bzero n) 0 pss =
    (let t = concat (map fmt_text pss)
     in if length t < n then Inr (filled t n, length t) else Inl OutOfBounds)"
  using emit_filled [OF assms(1), of "[]" n] assms(2) by simp

lemma lines_no_nul:
  "\<forall>ps \<in> set pss. \<forall>p \<in> set ps. part_ok p \<Longrightarrow> 0 \<notin> set (concat (map fmt_text pss))"
  using fmt_out_ok by auto

lemma mem_write_filled:
  assumes "length s \<le> n"
  shows "mem_write (length s) v (filled s n) =
    (if length (s @ v) \<le> n then Inr (filled (s @ v) n) else Inl OutOfBounds)"
  using assms by (auto simp: mem_write_def filled_def bzero_def)

lemma invite_lines_ok:
  assumes "line_arg own_acc" "line_arg acc" "line_arg ownip" "line_arg ownsipport" "line_arg serverip"
  shows "\<forall>ps \<in> set (invite_lines g rnd own_acc acc ownip ownsipport serverip n). header_fmt ps"
  using assms by (simp add: invite_lines_def header_fmt_def line_arg_def)

lemma sdp_lines_ok:
  assumes "line_arg ownip" "line_arg ownrtpport"
  shows "\<forall>ps \<in> set (sdp_lines ownip ownrtpport). \<forall>p \<in> set ps. part_ok p"
  using assms by (simp add: sdp_lines_def line_arg_def)

text \<open>The session description, and the message that is to be sent.\<close>

definition sdp_text :: "byte list \<Rightarrow> byte list \<Rightarrow> byte list" where
  "sdp_text ownip ownrtpport = concat (map fmt_text (sdp_lines ownip ownrtpport))"

definition invite_headers ::
  "sip_globals \<Rightarrow> int \<Rightarrow> byte list \<Rightarrow> byte list \<Rightarrow> byte list \<Rightarrow> byte list \<Rightarrow> byte list \<Rightarrow> byte list
     \<Rightarrow> byte list list" where
  "invite_headers g rnd own_acc acc ownip ownsipport ownrtpport serverip =
     map header_text (invite_lines g rnd own_acc acc ownip ownsipport serverip
       (length (sdp_text ownip ownrtpport)))"

definition invite_text where
  "invite_text g rnd own_acc acc auth ownip ownsipport ownrtpport serverip =
     framed (invite_headers g rnd own_acc acc ownip ownsipport ownrtpport serverip)
       @ cstr auth @ crlf @ crlf @ sdp_text ownip ownrtpport"

lemma invite_result:
  fixes g rnd
  assumes args: "line_arg own_acc" "line_arg acc" "line_arg ownip" "line_arg ownsipport" "line_arg serverip"
    "line_arg ownrtpport" "0 \<in> set auth"
  defines "t \<equiv> invite_text g rnd own_acc acc auth ownip ownsipport ownrtpport serverip"
  shows "CreateInvite g rnd own_acc acc auth ownip ownsipport ownrtpport serverip =
    (if length t \<le> BUFSIZE then Inr (g\<lparr>SIP_mess := filled t BUFSIZE\<rparr>) else Inl OutOfBounds)"
proof -
  let ?sdp = "sdp_text ownip ownrtpport"
  let ?h = "invite_lines g rnd own_acc acc ownip ownsipport serverip (length ?sdp)"
  let ?ls = "?h @ [[Str auth, eol, eol]]"
  define h where
    "h = framed (invite_headers g rnd own_acc acc ownip ownsipport ownrtpport serverip) @ cstr auth @ crlf @ crlf"
  have b: "0 < BUFSIZE" by (simp add: BUFSIZE_def)
  have hd: "\<forall>ps \<in> set ?h. header_fmt ps" by (rule invite_lines_ok [OF args(1-5)])
  have ok: "\<forall>ps \<in> set ?ls. \<forall>p \<in> set ps. part_ok p"
    using framed_headers(3) [OF hd] args(7) by auto
  have tt: "concat (map fmt_text ?ls) = h"
    using framed_headers(1) [OF hd] by (simp add: h_def invite_headers_def fmt_text_def)
  have t: "t = h @ ?sdp" by (simp add: t_def h_def invite_text_def)
  note e1 = emit_zero [OF sdp_lines_ok [OF args(3,6)] b, folded sdp_text_def]
  note e2 = emit_zero [OF ok b, unfolded tt]
  show ?thesis
  proof (cases "length ?sdp < BUFSIZE \<and> length h < BUFSIZE")
    case True
    have n: "0 \<notin> set ?sdp"
      unfolding sdp_text_def by (rule lines_no_nul [OF sdp_lines_ok [OF args(3,6)]])
    have r: "read_str (filled ?sdp BUFSIZE) = Inr ?sdp"
      using True n by (simp add: read_str_ok filled_nul)
    have m: "mem_write (length h) ?sdp (filled h BUFSIZE) =
        (if length t \<le> BUFSIZE then Inr (filled t BUFSIZE) else Inl OutOfBounds)"
      unfolding t by (rule mem_write_filled) (use True in simp)
    show ?thesis
      using True unfolding CreateInvite_def e1 Let_def by (simp add: e2 [unfolded Let_def] r m)
  next
    case False
    moreover have "0 < length ?sdp" by (simp add: sdp_text_def sdp_lines_def fmt_text_def)
    moreover have "4 \<le> length h" by (simp add: h_def)
    ultimately have "\<not> length t \<le> BUFSIZE" unfolding t length_append by linarith
    then show ?thesis
      using False unfolding CreateInvite_def e1 Let_def by (auto simp: e2 [unfolded Let_def])
  qed
qed

section \<open>Lengths of numbers\<close>

lemma show_base_length:
  assumes "n < base ^ k" "0 < k" "2 \<le> base"
  shows "length (show_base base n) \<le> k"
  using assms
proof (induction k arbitrary: n)
  case (Suc k)
  show ?case
  proof (cases "n < base")
    case True
    then show ?thesis by (subst show_base.simps) (simp add: Let_def)
  next
    case False
    then have k: "0 < k" using Suc.prems(1) by (cases k) auto
    have "n div base < base ^ k"
      using Suc.prems(1,3) by (simp add: less_mult_imp_div_less mult.commute)
    then have "length (show_base base (n div base)) \<le> k" using Suc k by simp
    then show ?thesis using False Suc.prems(3) by (subst show_base.simps) (simp add: Let_def)
  qed
qed simp

lemma show_int_length:
  assumes "\<bar>n\<bar> < 10 ^ k" "0 < k"
  shows "length (show_int n) \<le> Suc k" "0 \<le> n \<Longrightarrow> length (show_int n) \<le> k"
proof -
  have "nat \<bar>n\<bar> < 10 ^ k" using assms(1) by (simp add: nat_less_iff)
  then have "length (show_base 10 (nat \<bar>n\<bar>)) \<le> k" using assms(2) by (intro show_base_length) auto
  then show "length (show_int n) \<le> Suc k" "0 \<le> n \<Longrightarrow> length (show_int n) \<le> k"
    by (auto simp: show_int_def split: if_splits)
qed

lemma show_addr_length: "length (show_base 16 (unat (w :: u32))) \<le> 8"
  by (rule show_base_length) (use unsigned_less [of w] in simp_all)

section \<open>Results of the builders\<close>

definition ack_text :: "SIP_message \<Rightarrow> byte list \<Rightarrow> byte list \<Rightarrow> byte list list" where
  "ack_text a acc serverip =
     [lit ''ACK sip:'' @ acc @ lit ''@'' @ serverip @ lit '' SIP/2.0'',
      lit ''Via:'' @ cstr (mess_via a), lit ''From:'' @ cstr (mess_from a), lit ''Max-Forwards: 70'',
      lit ''To:'' @ cstr (mess_to a), lit ''Contact:'' @ cstr (mess_contact a),
      lit ''Call-ID:'' @ cstr (mess_call_id a), lit ''CSeq:'' @ cstr (mess_cseq a),
      lit ''Content-Length:   '' @ show_int (mess_content_lenght a)]"

definition ok_text :: "SIP_message \<Rightarrow> byte list list" where
  "ok_text a =
     [lit ''SIP/2.0 200 OK'',
      lit ''Via:'' @ cstr (mess_via a), lit ''From:'' @ cstr (mess_from a),
      lit ''To:'' @ cstr (mess_to a), lit ''Contact:'' @ cstr (mess_contact a),
      lit ''Call-ID:'' @ cstr (mess_call_id a), lit ''CSeq:'' @ cstr (mess_cseq a),
      lit ''Content-Length:   '' @ show_int (mess_content_lenght a)]"

text \<open>All fields of a parsed message are strings.\<close>

definition fields_ok :: "SIP_message \<Rightarrow> bool" where
  "fields_ok a \<longleftrightarrow> (\<forall>f \<in> {mess_via a, mess_from a, mess_to a, mess_contact a, mess_call_id a, mess_cseq a}.
     0 \<in> set f)"

lemma ack_result:
  assumes "fields_ok (SIP_ans_mess g)" "0 \<in> set acc" "0 \<in> set serverip"
  shows "CreateAck g acc serverip =
    (let t = framed (ack_text (SIP_ans_mess g) (cstr acc) (cstr serverip)) @ crlf
     in if length t < BUFSIZE then Inr (g\<lparr>SIP_mess := filled t BUFSIZE\<rparr>) else Inl OutOfBounds)"
proof -
  have b: "0 < BUFSIZE" by (simp add: BUFSIZE_def)
  show ?thesis
    unfolding CreateAck_def Let_def
    by (subst emit_zero [OF _ b])
      (use assms in \<open>auto simp: fields_ok_def echo_lines_def ack_text_def fmt_text_def framed_def Let_def\<close>)
qed

lemma ok_result:
  assumes "fields_ok (SIP_ans_mess g)"
  shows "Create200 g =
    (let t = framed (ok_text (SIP_ans_mess g)) @ crlf
     in if length t < BUFSIZE then Inr (g\<lparr>SIP_mess := filled t BUFSIZE\<rparr>) else Inl OutOfBounds)"
proof -
  have b: "0 < BUFSIZE" by (simp add: BUFSIZE_def)
  show ?thesis
    unfolding Create200_def Let_def
    by (subst emit_zero [OF _ b])
      (use assms in \<open>auto simp: fields_ok_def echo_lines_def ok_text_def fmt_text_def framed_def Let_def\<close>)
qed

definition auth_text :: "byte list \<Rightarrow> byte list \<Rightarrow> byte list \<Rightarrow> byte list \<Rightarrow> byte list \<Rightarrow> byte list" where
  "auth_text own realm nonce uri response =
     lit ''Authorization: Digest username='' @ [34] @ own @ [34] @ lit '',realm='' @ [34] @ realm @ [34]
       @ lit '',nonce='' @ [34] @ nonce @ [34] @ lit '',uri='' @ [34] @ uri @ [34]
       @ lit '',response='' @ [34] @ response @ [34] @ lit '',algorithm=MD5''"

definition frame_ok :: "auth_frame \<Rightarrow> bool" where
  "frame_ok fr \<longleftrightarrow> length (buffer (f_ctx fr)) = 64 \<and> length (f_uri fr) = 255 \<and> length (f_HA1 fr) = 33
     \<and> length (f_HA2Hex fr) = 33 \<and> length (f_Response fr) = 33"

text \<open>The request digest of the short form, for an INVITE to \<open>uri\<close>.\<close>

definition invite_digest :: "byte list \<Rightarrow> byte list \<Rightarrow> byte list \<Rightarrow> byte list \<Rightarrow> byte list \<Rightarrow> byte list" where
  "invite_digest own realm pass nonce uri =
     to_hex (md5 (to_hex (md5 (own @ lit '':'' @ realm @ lit '':'' @ pass)) @ lit '':'' @ nonce @ lit '':''
       @ to_hex (md5 (lit ''INVITE:'' @ uri))))"

lemma word_args:
  "str_arg (cs ''MD5'')" "str_arg (cs '''')" "str_arg (cs ''00000001'')" "str_arg (cs ''INVITE'')"
  "cstr (cs ''MD5'') = lit ''MD5''" "cstr (cs '''') = []" "cstr (cs ''00000001'') = lit ''00000001''"
  "cstr (cs ''INVITE'') = lit ''INVITE''"
  by (simp_all add: str_arg_def cs_def md5_limit_def cstr_def)

text \<open>The two digests the authorisation computes.\<close>

lemma auth_digests:
  assumes fr: "frame_ok fr"
    and args: "str_arg own_acc" "str_arg own_pass" "str_arg (SIP_realm g)" "str_arg (SIP_nonce g)" "str_arg u"
  shows "\<exists>h. DigestCalcHA1 (f_ctx fr) (cs ''MD5'') own_acc (SIP_realm g) own_pass (SIP_nonce g) (cs '''') (f_HA1 fr) = Inr h
    \<and> DigestCalcResponse (f_ctx fr) h (SIP_nonce g) (cs ''00000001'') (cs '''') (cs '''') (cs ''INVITE'') u
        (bzero (HASHHEXLEN + 1)) (f_HA2Hex fr) (f_Response fr) =
      Inr (invite_digest (cstr own_acc) (cstr (SIP_realm g)) (cstr own_pass) (cstr (SIP_nonce g)) (cstr u) @ [0])"
proof -
  let ?h = "rfc_HA1 (lit ''MD5'') (cstr own_acc) (cstr (SIP_realm g)) (cstr own_pass) (cstr (SIP_nonce g)) []"
  let ?r = "rfc_response ?h (cstr (SIP_nonce g)) (lit ''00000001'') [] [] (lit ''INVITE'') (cstr u) (bzero 32)"
  have z: "0 \<in> set p" if "str_arg p" for p using that by (simp add: str_arg_def)
  have h: "DigestCalcHA1 (f_ctx fr) (cs ''MD5'') own_acc (SIP_realm g) own_pass (SIP_nonce g) (cs '''') (f_HA1 fr)
      = Inr (?h @ [0])"
    using HA1_correct [OF _ _ z [OF word_args(1)] args(1,3,2,4) word_args(2), of "f_ctx fr" "f_HA1 fr"] fr
    by (simp add: frame_ok_def md5_valid_def word_args del: lit_simps)
  have lh: "length ?h = 32" by (simp add: rfc_HA1_def Let_def)
  have bz: "bzero (HASHHEXLEN + 1) = bzero 32 @ [0]" by (simp add: bzero_def HASHHEXLEN_def numeral_eq_Suc)
  have "DigestCalcResponse (f_ctx fr) (?h @ [0]) (SIP_nonce g) (cs ''00000001'') (cs '''') (cs '''')
      (cs ''INVITE'') u (bzero (HASHHEXLEN + 1)) (f_HA2Hex fr) (f_Response fr) = Inr (?r @ [0])"
    unfolding bz
    using Response_correct [OF _ _ _ lh _ args(4) word_args(3,2,2,4) args(5), of "f_ctx fr" "f_HA2Hex fr"
        "f_Response fr" "bzero 32" "[0]" "[0]"] fr
    by (simp add: frame_ok_def md5_valid_def word_args del: lit_simps)
  moreover have "?r = invite_digest (cstr own_acc) (cstr (SIP_realm g)) (cstr own_pass) (cstr (SIP_nonce g)) (cstr u)"
    by (simp add: rfc_response_def rfc_HA1_def invite_digest_def tolower_def Let_def)
  ultimately show ?thesis using h by auto
qed

lemma auth_result:
  assumes fr: "frame_ok fr"
    and args: "str_arg own_acc" "str_arg own_pass" "str_arg acc" "str_arg serverip"
      "str_arg (SIP_realm g)" "str_arg (SIP_nonce g)"
  defines "uri \<equiv> lit ''sip:'' @ cstr acc @ lit ''@'' @ cstr serverip"
  defines "t \<equiv> auth_text (cstr own_acc) (cstr (SIP_realm g)) (cstr (SIP_nonce g)) uri
      (invite_digest (cstr own_acc) (cstr (SIP_realm g)) (cstr own_pass) (cstr (SIP_nonce g)) uri)"
  shows "CreateAuthString g fr own_acc own_pass acc serverip =
    (if length uri < FIELD_SIZE \<and> length t < FIELD_SIZE then Inr (g\<lparr>Auth_String := filled t FIELD_SIZE\<rparr>)
     else Inl OutOfBounds)"
proof -
  have z: "0 \<in> set p" if "str_arg p" for p using that by (simp add: str_arg_def)
  have nu: "0 \<notin> set uri" by (simp add: uri_def)
  have "fmt_out [Txt ''sip:'', Str acc, Txt ''@'', Str serverip] = Inr uri"
    by (simp add: z [OF args(3)] z [OF args(4)] read_str_ok uri_def)
  then have u: "sprintf (f_uri fr) 0 [Txt ''sip:'', Str acc, Txt ''@'', Str serverip] =
      (if length uri < FIELD_SIZE then Inr (uri @ 0 # drop (Suc (length uri)) (f_uri fr)) else Inl OutOfBounds)"
    using fr by (simp add: sprintf_def mem_write_def frame_ok_def FIELD_SIZE_def del: fmt_out.simps)
  show ?thesis
  proof (cases "length uri < FIELD_SIZE")
    case True
    let ?u = "uri @ 0 # drop (Suc (length uri)) (f_uri fr)"
    let ?r = "invite_digest (cstr own_acc) (cstr (SIP_realm g)) (cstr own_pass) (cstr (SIP_nonce g)) uri"
    have su: "str_arg ?u" using fr True by (simp add: str_arg_def frame_ok_def FIELD_SIZE_def md5_limit_def)
    have cu: "cstr ?u = uri" by (rule cstr_nul [OF nu])
    note d = auth_digests [OF fr args(1,2,5,6) su, unfolded cu]
    have rn: "0 \<notin> set ?r" by (simp add: invite_digest_def cstr_to_hex)
    let ?ps = "[Txt ''Authorization: Digest username='', quo, Str own_acc, quo,
               Txt '',realm='', quo, Str (SIP_realm g), quo,
               Txt '',nonce='', quo, Str (SIP_nonce g), quo,
               Txt '',uri='', quo, Str ?u, quo,
               Txt '',response='', quo, Str (?r @ [0]), quo, Txt '',algorithm=MD5'']"
    have ok: "\<forall>p \<in> set ?ps. part_ok p" by (simp add: z args)
    have tx: "fmt_text ?ps = t"
      unfolding t_def by (simp add: fmt_text_def auth_text_def cstr_nul nu rn del: lit_simps) simp
    have f: "0 < FIELD_SIZE" by (simp add: FIELD_SIZE_def)
    have "sprintf (bzero FIELD_SIZE) 0 ?ps = (if length t < FIELD_SIZE then Inr (filled t FIELD_SIZE) else Inl OutOfBounds)"
      using sprintf_filled [OF ok, of "[]" FIELD_SIZE] f unfolding tx by simp
    then show ?thesis
      using True d unfolding CreateAuthString_def u by (elim exE conjE) (simp only: bindR_Inr if_True, simp)
  qed (simp add: CreateAuthString_def u)
qed

section \<open>Properties\<close>

lemma invite_framed:
  assumes "line_arg own_acc" "line_arg acc" "line_arg ownip" "line_arg ownsipport" "line_arg serverip"
    and "line_arg ownrtpport" "line_arg auth"
    and "length (invite_text g rnd own_acc acc auth ownip ownsipport ownrtpport serverip) < BUFSIZE"
  shows "\<exists>g' hs body. CreateInvite g rnd own_acc acc auth ownip ownsipport ownrtpport serverip = Inr g'
    \<and> g'\<lparr>SIP_mess := SIP_mess g\<rparr> = g
    \<and> sip_split (cstr (SIP_mess g')) = Some (hs, body)
    \<and> hd hs = lit ''INVITE sip:'' @ cstr acc @ lit ''@'' @ cstr serverip @ lit '' SIP/2.0''
    \<and> lit ''CSeq: '' @ show_int (CSeq g) @ lit '' INVITE'' \<in> set hs
    \<and> lit ''Content-Length: '' @ show_int (int (length (sdp_text ownip ownrtpport))) \<in> set hs
    \<and> (cstr auth = [] \<longrightarrow> body = crlf @ sdp_text ownip ownrtpport)
    \<and> (cstr auth \<noteq> [] \<longrightarrow> last hs = cstr auth \<and> body = sdp_text ownip ownrtpport)"
proof -
  let ?t = "invite_text g rnd own_acc acc auth ownip ownsipport ownrtpport serverip"
  let ?hs = "invite_headers g rnd own_acc acc ownip ownsipport ownrtpport serverip"
  let ?sdp = "sdp_text ownip ownrtpport"
  note lines = invite_lines_ok [OF assms(1-5), of g rnd "length ?sdp"]
  have h: "\<forall>l \<in> set ?hs. l \<noteq> [] \<and> 10 \<notin> set l"
    unfolding invite_headers_def by (rule framed_headers(2) [OF lines])
  have n: "0 \<notin> set ?t"
  proof -
    have "0 \<notin> set ?sdp"
      unfolding sdp_text_def by (rule lines_no_nul [OF sdp_lines_ok [OF assms(3,6)]])
    moreover have "0 \<notin> set (framed ?hs)"
      unfolding invite_headers_def framed_headers(1) [OF lines, symmetric]
      by (rule lines_no_nul [OF framed_headers(3) [OF lines]])
    ultimately show ?thesis by (simp add: invite_text_def)
  qed
  have r: "CreateInvite g rnd own_acc acc auth ownip ownsipport ownrtpport serverip =
      Inr (g\<lparr>SIP_mess := filled ?t BUFSIZE\<rparr>)"
    using invite_result [OF assms(1-6), of auth g rnd] assms(7,8) by (simp add: line_arg_def)
  have c: "cstr (filled ?t BUFSIZE) = ?t" using assms(8) n by (simp add: filled_nul)
  have hd: "hd ?hs = lit ''INVITE sip:'' @ cstr acc @ lit ''@'' @ cstr serverip @ lit '' SIP/2.0''"
    by (simp add: invite_headers_def invite_lines_def header_text_def fmt_text_def del: lit_simps)
  have cl: "lit ''Content-Length: '' @ show_int (int (length ?sdp)) \<in> set ?hs"
    by (simp add: invite_headers_def invite_lines_def header_text_def fmt_text_def del: lit_simps)
  have cq: "lit ''CSeq: '' @ show_int (CSeq g) @ lit '' INVITE'' \<in> set ?hs"
    by (simp add: invite_headers_def invite_lines_def header_text_def fmt_text_def del: lit_simps)
  show ?thesis
  proof (cases "cstr auth = []")
    case True
    have "sip_split ?t = Some (?hs, crlf @ ?sdp)"
      using sip_split_framed [OF h, of "crlf @ ?sdp"] True by (simp add: invite_text_def)
    then show ?thesis unfolding r using c hd cl cq True by simp
  next
    case False
    have "sip_split (framed (?hs @ [cstr auth]) @ crlf @ ?sdp) = Some (?hs @ [cstr auth], ?sdp)"
      by (rule sip_split_framed) (use h False assms(7) in \<open>auto simp: line_arg_def\<close>)
    moreover have "framed (?hs @ [cstr auth]) @ crlf @ ?sdp = ?t"
      by (simp add: invite_text_def framed_def)
    ultimately have "sip_split ?t = Some (?hs @ [cstr auth], ?sdp)" by simp
    moreover have "?hs \<noteq> []" by (simp add: invite_headers_def invite_lines_def)
    ultimately show ?thesis unfolding r using c hd cl cq False by simp
  qed
qed


text \<open>
  C24: an INVITE that fits its buffer is framed as RFC 3261 asks: request line, the other
  headers, one of them the length of the session description, an empty line, the session
  description.  Without an authorisation string, though, a second empty line follows: the body
  then starts with CR LF and is two bytes longer than announced.
\<close>

theorem invite_framing:
  assumes "line_arg own_acc" "line_arg acc" "line_arg ownip" "line_arg ownsipport" "line_arg serverip"
    and "line_arg ownrtpport" "line_arg auth"
    and "length (invite_text g rnd own_acc acc auth ownip ownsipport ownrtpport serverip) < BUFSIZE"
  shows "\<exists>g' hs body. CreateInvite g rnd own_acc acc auth ownip ownsipport ownrtpport serverip = Inr g'
    \<and> g'\<lparr>SIP_mess := SIP_mess g\<rparr> = g
    \<and> sip_split (cstr (SIP_mess g')) = Some (hs, body)
    \<and> hd hs = lit ''INVITE sip:'' @ cstr acc @ lit ''@'' @ cstr serverip @ lit '' SIP/2.0''
    \<and> lit ''Content-Length: '' @ show_int (int (length (sdp_text ownip ownrtpport))) \<in> set hs
    \<and> (cstr auth = [] \<longrightarrow> body = crlf @ sdp_text ownip ownrtpport)
    \<and> (cstr auth \<noteq> [] \<longrightarrow> last hs = cstr auth \<and> body = sdp_text ownip ownrtpport)"
  using invite_framed [OF assms] by blast

definition demo_globals :: sip_globals where
  "demo_globals = \<lparr>SIP_mess = bzero 1024, SIP_field = bzero 255, SIP_realm = bzero 255, SIP_nonce = bzero 255,
     Auth_String = bzero 255, SIP_ans_mess = \<lparr>mess_code = 0, mess_command = bzero 20, mess_from = bzero 255,
       mess_via = bzero 255, mess_to = bzero 255, mess_call_id = bzero 255, mess_cseq = bzero 255,
       mess_server = bzero 255, mess_allow = bzero 255, mess_supported = bzero 255, mess_contact = bzero 255,
       mess_auth = bzero 255, mess_content_lenght = 0\<rparr>, CSeq = 1, CallID_addr = 0x21540\<rparr>"

lemma cstr_cs: "0 \<notin> set (lit s) \<Longrightarrow> cstr (cs s) = lit s"
  by (simp add: cs_def cstr_nul)

theorem invite_framing_witness:
  "\<exists>g' hs. CreateInvite demo_globals 1804289383 (cs ''215'') (cs ''212'') (bzero 255) (cs ''192.168.255.107'')
        (cs ''5060'') (cs ''22222'') (cs ''192.168.255.134'') = Inr g'
     \<and> sip_split (cstr (SIP_mess g'))
         = Some (hs, crlf @ sdp_text (cs ''192.168.255.107'') (cs ''22222''))"
proof -
  have c: "cstr (cs ''215'') = lit ''215''" "cstr (cs ''212'') = lit ''212''" "cstr (cs ''5060'') = lit ''5060''"
    "cstr (cs ''22222'') = lit ''22222''" "cstr (cs ''192.168.255.107'') = lit ''192.168.255.107''"
    "cstr (cs ''192.168.255.134'') = lit ''192.168.255.134''"
    by (rule cstr_cs; simp)+
  have sdp: "length (sdp_text (cs ''192.168.255.107'') (cs ''22222'')) = 225"
    by (simp add: sdp_text_def sdp_lines_def fmt_text_def c)
  have num: "show_int 1804289383 = lit ''1804289383''" "show_int 225 = lit ''225''" "show_int 1 = lit ''1''"
    "show_base 16 136512 = lit ''21540''"
    by (simp_all add: show_int_def show_base.simps)
  have g: "CallID_addr demo_globals = 0x21540" "CSeq demo_globals = 1" by (simp_all add: demo_globals_def)
  have args: "line_arg (cs ''215'')" "line_arg (cs ''212'')" "line_arg (cs ''5060'')" "line_arg (cs ''22222'')"
    "line_arg (cs ''192.168.255.107'')" "line_arg (cs ''192.168.255.134'')" "line_arg (bzero 255)"
    by (simp_all add: line_arg_def c) (simp_all add: cs_def)
  have len: "length (invite_text demo_globals 1804289383 (cs ''215'') (cs ''212'') (bzero 255) (cs ''192.168.255.107'')
      (cs ''5060'') (cs ''22222'') (cs ''192.168.255.134'')) < BUFSIZE"
    by (simp add: invite_text_def invite_headers_def invite_lines_def header_text_def fmt_text_def framed_def
        c sdp g num BUFSIZE_def del: lit_simps)
  show ?thesis
    using invite_framing [OF args(1,2,5,3,6,4,7) len] by auto
qed


lemma invite_small:
  assumes "line_arg own_acc" "line_arg acc" "line_arg ownip" "line_arg ownsipport" "line_arg serverip"
    and "line_arg ownrtpport" "0 \<in> set auth"
    and "length (cstr own_acc) \<le> 20" "length (cstr acc) \<le> 20" "length (cstr ownip) \<le> 15"
    and "length (cstr serverip) \<le> 15" "length (cstr ownsipport) \<le> 5" "length (cstr ownrtpport) \<le> 5"
    and "length auth = 255"
    and "0 \<le> rnd" "rnd < 2 ^ 31" "- (2 ^ 31) \<le> CSeq g" "CSeq g < 2 ^ 31"
  shows "length (invite_text g rnd own_acc acc auth ownip ownsipport ownrtpport serverip) < BUFSIZE"
proof -
  have sdp: "length (sdp_text ownip ownrtpport) = 190 + 2 * length (cstr ownip) + length (cstr ownrtpport)"
    by (simp add: sdp_text_def sdp_lines_def fmt_text_def)
  have a: "length (cstr auth) \<le> 254" using cstr_length [OF assms(7)] assms(14) by simp
  have r: "length (show_int rnd) \<le> 10" using show_int_length(2) [of rnd 10] assms(15,16) by simp
  have c: "length (show_int (CSeq g)) \<le> 11" using show_int_length(1) [of "CSeq g" 10] assms(17,18) by simp
  have l: "length (show_int (int (length (sdp_text ownip ownrtpport)))) \<le> 3"
    using show_int_length(2) [of "int (length (sdp_text ownip ownrtpport))" 3] assms(10,13) sdp by simp
  show ?thesis
    using a r c l show_addr_length [of "CallID_addr g"] assms(8-13)
    by (simp add: invite_text_def invite_headers_def invite_lines_def header_text_def fmt_text_def framed_def
        sdp BUFSIZE_def del: lit_simps)
qed

text \<open>
  With account names of at most 20 characters, dotted addresses, ports of at most five digits
  and any authorisation string the 255-byte array can hold, building an INVITE never leaves a
  buffer, whatever \<open>CSeq\<close>, the random number and the address of \<open>CallID\<close> are.
\<close>

lemma invite_never_overflows:
  assumes "line_arg own_acc" "line_arg acc" "line_arg ownip" "line_arg ownsipport" "line_arg serverip"
    and "line_arg ownrtpport" "0 \<in> set auth"
    and "length (cstr own_acc) \<le> 20" "length (cstr acc) \<le> 20" "length (cstr ownip) \<le> 15"
    and "length (cstr serverip) \<le> 15" "length (cstr ownsipport) \<le> 5" "length (cstr ownrtpport) \<le> 5"
    and "length auth = 255"
    and "0 \<le> rnd" "rnd < 2 ^ 31" "- (2 ^ 31) \<le> CSeq g" "CSeq g < 2 ^ 31"
  shows "\<exists>g'. CreateInvite g rnd own_acc acc auth ownip ownsipport ownrtpport serverip = Inr g'
    \<and> 0 \<in> set (SIP_mess g') \<and> length (SIP_mess g') = BUFSIZE"
  using invite_result [OF assms(1-7), of g rnd] invite_small [OF assms]
  by (simp add: filled_def bzero_def)

lemma invite_never_overflows_witness:
  "\<exists>g'. CreateInvite demo_globals 2147483647 (cs ''215'') (cs ''212'') (replicate 254 65 @ [0])
      (cs ''192.168.255.107'') (cs ''5060'') (cs ''22222'') (cs ''192.168.255.134'') = Inr g'
    \<and> 0 \<in> set (SIP_mess g')"
proof -
  have "line_arg (cs ''215'')" "line_arg (cs ''212'')" "line_arg (cs ''5060'')" "line_arg (cs ''22222'')"
    "line_arg (cs ''192.168.255.107'')" "line_arg (cs ''192.168.255.134'')"
    "length (cstr (cs ''215'')) = 3" "length (cstr (cs ''212'')) = 3" "length (cstr (cs ''5060'')) = 4"
    "length (cstr (cs ''22222'')) = 5" "length (cstr (cs ''192.168.255.107'')) = 15"
    "length (cstr (cs ''192.168.255.134'')) = 15"
    by (simp_all add: line_arg_def cs_def cstr_def)
  then show ?thesis
    using invite_never_overflows [of "cs ''215''" "cs ''212''" "cs ''192.168.255.107''" "cs ''5060''"
        "cs ''192.168.255.134''" "cs ''22222''" "replicate 254 65 @ [0]" 2147483647 demo_globals]
    by (auto simp: demo_globals_def)
qed

text \<open>
  C19: \<open>CreateAuthString\<close> prints the credentials with the digest that RFC 2617 asks for an INVITE
  without quality of protection, when the request address and the result fit their 255-byte
  arrays; otherwise it writes past one of them.
\<close>

theorem auth_string_digest:
  assumes "frame_ok fr" "str_arg own_acc" "str_arg own_pass" "str_arg acc" "str_arg serverip"
    and "str_arg (SIP_realm g)" "str_arg (SIP_nonce g)"
    and "uri = lit ''sip:'' @ cstr acc @ lit ''@'' @ cstr serverip"
    and "t = auth_text (cstr own_acc) (cstr (SIP_realm g)) (cstr (SIP_nonce g)) uri
      (invite_digest (cstr own_acc) (cstr (SIP_realm g)) (cstr own_pass) (cstr (SIP_nonce g)) uri)"
  shows "CreateAuthString g fr own_acc own_pass acc serverip =
    (if length uri < FIELD_SIZE \<and> length t < FIELD_SIZE then Inr (g\<lparr>Auth_String := filled t FIELD_SIZE\<rparr>)
     else Inl OutOfBounds)"
  unfolding assms(8,9) by (rule auth_result [OF assms(1-7)])

definition blank_frame :: auth_frame where
  "blank_frame = \<lparr>f_ctx = blank_ctx, f_uri = bzero 255, f_HA1 = bzero 33, f_HA2Hex = bzero 33, f_Response = bzero 33\<rparr>"

theorem auth_string_digest_witness:
  "CreateAuthString demo_globals blank_frame (cs ''215'') (cs ''215test'') (cs ''212'') (cs ''pbx'') =
     Inr (demo_globals\<lparr>Auth_String := filled
       (auth_text (lit ''215'') [] [] (lit ''sip:212@pbx'')
         (invite_digest (lit ''215'') [] (lit ''215test'') [] (lit ''sip:212@pbx''))) 255\<rparr>)"
proof -
  have l: "length (invite_digest a b c d e) = 32" for a b c d e by (simp add: invite_digest_def)
  have "str_arg (cs ''215'')" "str_arg (cs ''215test'')" "str_arg (cs ''212'')" "str_arg (cs ''pbx'')"
    "str_arg (SIP_realm demo_globals)" "str_arg (SIP_nonce demo_globals)" "frame_ok blank_frame"
    "cstr (cs ''215'') = lit ''215''" "cstr (cs ''215test'') = lit ''215test''" "cstr (cs ''212'') = lit ''212''"
    "cstr (cs ''pbx'') = lit ''pbx''" "cstr (SIP_realm demo_globals) = []" "cstr (SIP_nonce demo_globals) = []"
    by (simp_all add: str_arg_def cs_def cstr_def md5_limit_def demo_globals_def frame_ok_def blank_frame_def
        blank_ctx_def bzero_def)
  then show ?thesis
    using auth_string_digest [of blank_frame "cs ''215''" "cs ''215test''" "cs ''212''" "cs ''pbx''" demo_globals]
    by (simp add: auth_text_def l FIELD_SIZE_def)
qed

text \<open>The characters of the fields that are sent back.\<close>

definition echo_size :: "SIP_message \<Rightarrow> nat" where
  "echo_size a = length (cstr (mess_via a)) + length (cstr (mess_from a)) + length (cstr (mess_to a))
     + length (cstr (mess_contact a)) + length (cstr (mess_call_id a)) + length (cstr (mess_cseq a))"

text \<open>
  C37: \<open>CreateAck\<close> and \<open>Create200\<close> echo the header fields of the received message and their safety
  depends on its sender: they overflow \<open>SIP_mess\<close> exactly when the six fields, with the numbers and
  names printed beside them, exceed the space the fixed text leaves (919 and 940 characters).
\<close>

theorem echo_overflow:
  assumes "fields_ok (SIP_ans_mess g)" "0 \<in> set acc" "0 \<in> set serverip"
    and "n = echo_size (SIP_ans_mess g) + length (show_int (mess_content_lenght (SIP_ans_mess g)))"
  shows "(CreateAck g acc serverip = Inl OutOfBounds \<longleftrightarrow> 919 < n + length (cstr acc) + length (cstr serverip))
    \<and> (Create200 g = Inl OutOfBounds \<longleftrightarrow> 940 < n)"
proof -
  have "length (framed (ack_text (SIP_ans_mess g) (cstr acc) (cstr serverip)) @ crlf)
      = n + length (cstr acc) + length (cstr serverip) + 104"
    by (simp add: framed_def ack_text_def assms(4) echo_size_def del: lit_simps)
  then have "CreateAck g acc serverip = Inl OutOfBounds \<longleftrightarrow> 919 < n + length (cstr acc) + length (cstr serverip)"
    using ack_result [OF assms(1-3)] by (auto simp: BUFSIZE_def Let_def)
  moreover have "length (framed (ok_text (SIP_ans_mess g)) @ crlf) = n + 83"
    by (simp add: framed_def ok_text_def assms(4) echo_size_def del: lit_simps)
  then have "Create200 g = Inl OutOfBounds \<longleftrightarrow> 940 < n"
    using ok_result [OF assms(1)] by (auto simp: BUFSIZE_def Let_def)
  ultimately show ?thesis by blast
qed

definition long_answer :: SIP_message where
  "long_answer = (SIP_ans_mess demo_globals)\<lparr>mess_via := replicate 200 65 @ [0], mess_from := replicate 200 65 @ [0],
     mess_to := replicate 200 65 @ [0], mess_contact := replicate 200 65 @ [0],
     mess_call_id := replicate 100 65 @ [0], mess_cseq := replicate 20 65 @ [0]\<rparr>"

theorem echo_overflow_witness:
  "CreateAck (demo_globals\<lparr>SIP_ans_mess := long_answer\<rparr>) (cs ''212'') (cs ''pbx'') = Inl OutOfBounds
   \<and> Create200 (demo_globals\<lparr>SIP_ans_mess := long_answer\<rparr>) \<noteq> Inl OutOfBounds"
proof -
  have f: "fields_ok long_answer" "mess_content_lenght long_answer = 0"
    by (simp_all add: fields_ok_def long_answer_def demo_globals_def)
  have e: "echo_size long_answer = 920"
    by (simp add: echo_size_def long_answer_def cstr_nul)
  have n: "length (show_int 0) = 1" by (simp add: show_int_def show_base.simps)
  have c: "cstr (cs ''212'') = lit ''212''" "cstr (cs ''pbx'') = lit ''pbx''" "0 \<in> set (cs ''212'')" "0 \<in> set (cs ''pbx'')"
    by (simp_all add: cs_def cstr_def)
  show ?thesis
    using echo_overflow [of "demo_globals\<lparr>SIP_ans_mess := long_answer\<rparr>" "cs ''212''" "cs ''pbx''" 921] f e n c
    by simp
qed

text \<open>
  When they fit and the fields hold no line feed, the acknowledgement and the answer to BYE
  are messages without body whose header lines repeat Via, From, To, Contact, Call-ID and CSeq of
  the received message character by character.
\<close>

lemma echo_framing:
  assumes "fields_ok (SIP_ans_mess g)" "line_arg acc" "line_arg serverip"
    and "\<forall>f \<in> {mess_via a, mess_from a, mess_to a, mess_contact a, mess_call_id a, mess_cseq a}. 10 \<notin> set (cstr f)"
    and "a = SIP_ans_mess g"
    and "echo_size a + length (show_int (mess_content_lenght a)) + length (cstr acc) + length (cstr serverip) \<le> 919"
  shows "\<exists>g1 g2. CreateAck g acc serverip = Inr g1 \<and> Create200 g = Inr g2
    \<and> sip_split (cstr (SIP_mess g1)) = Some (ack_text a (cstr acc) (cstr serverip), [])
    \<and> sip_split (cstr (SIP_mess g2)) = Some (ok_text a, [])"
proof -
  have nl: "0 \<notin> set (show_int (mess_content_lenght a))" "10 \<notin> set (show_int (mess_content_lenght a))"
    using show_int_no show_int_chars [of 10] by (auto simp: hex_char_def)
  define s1 where "s1 = framed (ack_text a (cstr acc) (cstr serverip)) @ crlf"
  define s2 where "s2 = framed (ok_text a) @ crlf"
  have l: "length s1 < BUFSIZE" "length s2 < BUFSIZE"
    using assms(6) by (simp_all add: s1_def s2_def framed_def ack_text_def ok_text_def echo_size_def BUFSIZE_def del: lit_simps)
  have n: "0 \<notin> set s1" "0 \<notin> set s2"
    using nl by (simp_all add: s1_def s2_def framed_def ack_text_def ok_text_def)
  have sp: "sip_split s1 = Some (ack_text a (cstr acc) (cstr serverip), [])" "sip_split s2 = Some (ok_text a, [])"
    unfolding s1_def s2_def
    using sip_split_framed [of "ack_text a (cstr acc) (cstr serverip)" "[]"] sip_split_framed [of "ok_text a" "[]"] nl assms(2-4)
    by (auto simp: ack_text_def ok_text_def line_arg_def)
  have "CreateAck g acc serverip = Inr (g\<lparr>SIP_mess := filled s1 BUFSIZE\<rparr>)"
    "Create200 g = Inr (g\<lparr>SIP_mess := filled s2 BUFSIZE\<rparr>)"
    using ack_result [OF assms(1), of acc serverip] ok_result [OF assms(1)] assms(2,3,5) l
    by (simp_all add: line_arg_def s1_def s2_def Let_def)
  then show ?thesis using sp filled_nul(2) [OF l(1) n(1)] filled_nul(2) [OF l(2) n(2)] by simp
qed

lemma echo_framing_witness:
  "\<exists>g1. CreateAck demo_globals (cs ''212'') (cs ''pbx'') = Inr g1
    \<and> sip_split (cstr (SIP_mess g1)) = Some (ack_text (SIP_ans_mess demo_globals) (lit ''212'') (lit ''pbx''), [])"
proof -
  have f: "fields_ok (SIP_ans_mess demo_globals)" "echo_size (SIP_ans_mess demo_globals) = 0"
    "mess_content_lenght (SIP_ans_mess demo_globals) = 0"
    by (simp_all add: fields_ok_def echo_size_def demo_globals_def)
  have n: "length (show_int 0) = 1" by (simp add: show_int_def show_base.simps)
  have c: "cstr (cs ''212'') = lit ''212''" "cstr (cs ''pbx'') = lit ''pbx''" "line_arg (cs ''212'')" "line_arg (cs ''pbx'')"
    by (simp_all add: cs_def cstr_def line_arg_def)
  show ?thesis
    using echo_framing [of demo_globals "cs ''212''" "cs ''pbx''" "SIP_ans_mess demo_globals"] f n c
    by (simp add: demo_globals_def del: lit_simps) blast
qed

end
