(* ===== verification/Sip_Parser.thy ===== *)
theory Sip_Parser
  imports Sip_Msg
begin

text \<open>
  The parser of received SIP messages (\<open>app/linux/sip/src/sip_call.c\<close>): \<open>GetField\<close>,
  \<open>GetParam\<close> and \<open>SIP_parser\<close>.  It searches names anywhere in the buffer; the theorems say for
  which messages it finds the header fields, and what it does on the others.
\<close>

section \<open>Fields and parameters\<close>

text \<open>
  Where a search fails, the difference with the null pointer that follows makes the next access
  go to address 1 (second search) or copies more than 2 GB (third search).
\<close>

definition GetField :: "sip_globals \<Rightarrow> byte list \<Rightarrow> byte list \<Rightarrow> sip_globals res" where
  "GetField g m FName =
     bindR (strstr m FName) (\<lambda>r1.
     case r1 of
       None \<Rightarrow> Inr (g\<lparr>SIP_field := bzero FIELD_SIZE\<rparr>)
     | Some k \<Rightarrow>
         (let n1 = k + 1 in
          bindR (strstr (drop n1 m) (lit '':'')) (\<lambda>r2.
          case r2 of
            None \<Rightarrow> Inl NullPointer
          | Some j \<Rightarrow>
              (let n2 = j + 1 in
               bindR (strstr (drop (n1 + n2) m) [13]) (\<lambda>r3.
               case r3 of
                 None \<Rightarrow> Inl OutOfBounds
               | Some i \<Rightarrow>
                   (let n3 = i + 1 in
                    bindR (strncpy (bzero FIELD_SIZE) (drop (n1 + n2) m) n3) (\<lambda>d.
                    Inr (g\<lparr>SIP_field := d\<rparr>))))))))"

definition GetParam :: "sip_globals \<Rightarrow> byte list \<Rightarrow> byte list \<Rightarrow> sip_globals res" where
  "GetParam g m PName =
     bindR (strstr m PName) (\<lambda>r1.
     case r1 of
       None \<Rightarrow> Inr (g\<lparr>SIP_field := bzero FIELD_SIZE\<rparr>)
     | Some k \<Rightarrow>
         (let n1 = k + 1 in
          bindR (strstr (drop n1 m) [34]) (\<lambda>r2.
          case r2 of
            None \<Rightarrow> Inl NullPointer
          | Some j \<Rightarrow>
              (let n2 = j + 1 in
               bindR (strstr (drop (n1 + n2) m) [34]) (\<lambda>r3.
               case r3 of
                 None \<Rightarrow> Inl OutOfBounds
               | Some i \<Rightarrow>
                   (let n3 = i in
                    bindR (strncpy (bzero FIELD_SIZE) (drop (n1 + n2) m) n3) (\<lambda>d.
                    Inr (g\<lparr>SIP_field := d\<rparr>))))))))"

section \<open>The parser\<close>

definition blank_answer :: SIP_message where
  "blank_answer = \<lparr>mess_code = 0, mess_command = bzero 20, mess_from = bzero FIELD_SIZE, mess_via = bzero FIELD_SIZE,
     mess_to = bzero FIELD_SIZE, mess_call_id = bzero FIELD_SIZE, mess_cseq = bzero FIELD_SIZE,
     mess_server = bzero FIELD_SIZE, mess_allow = bzero FIELD_SIZE, mess_supported = bzero FIELD_SIZE,
     mess_contact = bzero FIELD_SIZE, mess_auth = bzero FIELD_SIZE, mess_content_lenght = 0\<rparr>"

definition MESS_CODE_LEN :: nat where "MESS_CODE_LEN = 3"

text \<open>\<open>SIPField = GetField(mess, name); strcpy(SIP_ans_mess.mess_..., SIPField)\<close>\<close>

definition copy_field ::
  "sip_globals \<Rightarrow> byte list \<Rightarrow> string \<Rightarrow> (byte list \<Rightarrow> SIP_message \<Rightarrow> SIP_message) \<Rightarrow> sip_globals res" where
  "copy_field g m name upd =
     bindR (GetField g m (lit name)) (\<lambda>g'.
     bindR (strcpy (bzero FIELD_SIZE) (SIP_field g')) (\<lambda>d.
     Inr (g'\<lparr>SIP_ans_mess := upd d (SIP_ans_mess g')\<rparr>)))"

text \<open>
  The status code is read from an array of three characters without terminating NUL: \<open>after\<close> is
  what the stack holds behind it.
\<close>

definition SIP_parser :: "sip_globals \<Rightarrow> byte list \<Rightarrow> byte list \<Rightarrow> sip_globals res" where
  "SIP_parser g m after =
     bindR (strstr m (lit ''SIP'')) (\<lambda>r.
     let g = g\<lparr>SIP_ans_mess := blank_answer\<rparr> in
     case r of
       None \<Rightarrow> Inr g
     | Some _ \<Rightarrow>
         bindR (strstr m (lit '' '')) (\<lambda>r.
         case r of
           None \<Rightarrow> Inl NullPointer
         | Some k \<Rightarrow>
             (let n = k + 1 in
              bindR (strncpy (bzero 3) (drop n m) MESS_CODE_LEN) (\<lambda>mcode.
              bindR (atoi (mcode @ after)) (\<lambda>code.
              bindR (if code = 0 then strncpy (bzero 20) m (n - 1) else Inr (bzero 20)) (\<lambda>cmd.
              let g = g\<lparr>SIP_ans_mess := blank_answer\<lparr>mess_code := code, mess_command := cmd\<rparr>\<rparr> in
              bindR (copy_field g m ''Via'' (\<lambda>d. mess_via_update (\<lambda>_. d))) (\<lambda>g.
              bindR (copy_field g m ''From'' (\<lambda>d. mess_from_update (\<lambda>_. d))) (\<lambda>g.
              bindR (copy_field g m ''To'' (\<lambda>d. mess_to_update (\<lambda>_. d))) (\<lambda>g.
              bindR (copy_field g m ''Call-ID'' (\<lambda>d. mess_call_id_update (\<lambda>_. d))) (\<lambda>g.
              bindR (copy_field g m ''Server'' (\<lambda>d. mess_server_update (\<lambda>_. d))) (\<lambda>g.
              bindR (copy_field g m ''CSeq'' (\<lambda>d. mess_cseq_update (\<lambda>_. d))) (\<lambda>g.
              bindR (copy_field g m ''Allow'' (\<lambda>d. mess_allow_update (\<lambda>_. d))) (\<lambda>g.
              bindR (copy_field g m ''Supported'' (\<lambda>d. mess_supported_update (\<lambda>_. d))) (\<lambda>g.
              bindR (copy_field g m ''Contact'' (\<lambda>d. mess_contact_update (\<lambda>_. d))) (\<lambda>g.
              bindR (copy_field g m ''WWW-Authenticate'' (\<lambda>d. mess_auth_update (\<lambda>_. d))) (\<lambda>g.
              bindR (GetField g m (lit ''Content-Lenght'')) (\<lambda>g.
              bindR (atoi (SIP_field g)) (\<lambda>n.
              Inr (g\<lparr>SIP_ans_mess := (SIP_ans_mess g)\<lparr>mess_content_lenght := n\<rparr>\<rparr>)))))))))))))))))))"

section \<open>Searching\<close>

text \<open>A name without separator characters never straddles a separator.\<close>

lemma prefix_sep:
  "c \<notin> set pat \<Longrightarrow> prefix pat (a @ c # s) \<longleftrightarrow> prefix pat a"
proof (induction a arbitrary: pat)
  case Nil
  then show ?case by (cases pat) auto
next
  case (Cons b a)
  then show ?case by (cases pat) auto
qed

lemma find_sub_sep:
  assumes "c \<notin> set pat" "pat \<noteq> []" "find_sub a pat = None"
  shows "find_sub (a @ c # s) pat = map_option ((+) (Suc (length a))) (find_sub s pat)"
  using assms(3)
proof (induction a)
  case Nil
  have "\<not> prefix pat (c # s)" using prefix_sep [OF assms(1), of "[]" s] assms(2) by simp
  then show ?case by (cases "find_sub s pat") auto
next
  case (Cons b a)
  then have "\<not> prefix pat (b # a)" "find_sub a pat = None" by (auto split: if_splits)
  then show ?case
    using Cons.IH prefix_sep [OF assms(1), of "b # a" s] by (cases "find_sub s pat") auto
qed

lemma find_char: "c \<notin> set a \<Longrightarrow> find_sub (a @ c # s) [c] = Some (length a)"
  using find_sub_first [of "[c]" a "c # s"] by simp

text \<open>A found field: the value with the carriage return behind it.\<close>

definition field_value :: "byte list \<Rightarrow> byte list" where
  "field_value v = v @ [13] @ bzero (FIELD_SIZE - length v - 1)"

lemma GetField_found:
  assumes "find_sub s (c # name) = Some k" "s = pre @ (c # name) @ mid @ 58 # v @ 13 # post" "length pre = k"
    and "58 \<notin> set name" "58 \<notin> set mid" "13 \<notin> set v" "0 \<notin> set s"
  shows "GetField g (s @ 0 # t) (c # name) =
    (if length v < FIELD_SIZE then Inr (g\<lparr>SIP_field := field_value v\<rparr>) else Inl OutOfBounds)"
proof -
  have n: "0 \<notin> set name" "0 \<notin> set mid" "0 \<notin> set v" "0 \<notin> set post" using assms(2,7) by auto
  have d1: "drop (k + 1) (s @ 0 # t) = (name @ mid @ 58 # v @ 13 # post) @ 0 # t"
    using assms(2,3) by simp
  have f1: "find_sub (name @ mid @ 58 # v @ 13 # post) [58] = Some (length (name @ mid))"
    using find_char [of 58 "name @ mid" "v @ 13 # post"] assms(4,5) by simp
  have d2: "drop (k + 1 + (length (name @ mid) + 1)) (s @ 0 # t) = (v @ 13 # post) @ 0 # t"
    using assms(2,3) by simp
  have f2: "find_sub (v @ 13 # post) [13] = Some (length v)" using find_char assms(6) by simp
  have c: "cstr ((v @ 13 # post) @ 0 # t) = v @ 13 # post" by (rule cstr_nul) (use n in simp)
  have st: "strncpy (bzero FIELD_SIZE) ((v @ 13 # post) @ 0 # t) (length v + 1) =
      (if length v < FIELD_SIZE then Inr (field_value v) else Inl OutOfBounds)"
    unfolding strncpy_def c by (simp add: mem_write_def field_value_def bzero_def)
  have r: "read_str (s @ 0 # t) = Inr s" using assms(7) by simp
  have r1: "read_str ((name @ mid @ 58 # v @ 13 # post) @ 0 # t) = Inr (name @ mid @ 58 # v @ 13 # post)"
    by (rule read_str_nul) (use n in simp)
  have r2: "read_str ((v @ 13 # post) @ 0 # t) = Inr (v @ 13 # post)"
    by (rule read_str_nul) (use n in simp)
  have colon: "lit '':'' = [58]" by simp
  show ?thesis
    unfolding GetField_def strstr_def r bindR_Inr assms(1) option.case Let_def d1 r1
    by (simp only: colon f1 bindR_Inr option.case d2 r2 f2 st) simp
qed

section \<open>Messages of header lines\<close>

definition header :: "byte list \<times> byte list \<Rightarrow> byte list" where
  "header h = fst h @ 58 # snd h @ 13 # [10]"

definition headers_text :: "(byte list \<times> byte list) list \<Rightarrow> byte list" where
  "headers_text hs = concat (map header hs)"

text \<open>A whole message: start line, header lines, and the body from the empty line on.\<close>

definition message :: "byte list \<Rightarrow> (byte list \<times> byte list) list \<Rightarrow> byte list \<Rightarrow> byte list" where
  "message start hs body = start @ crlf @ headers_text hs @ body"

text \<open>
  A name that occurs in the message nowhere but as the name of a header; behind the header lines, where
  remains of earlier messages may be, it may occur when one of the lines has it.
\<close>

definition name_ok :: "byte list \<Rightarrow> bool" where
  "name_ok pat \<longleftrightarrow> pat \<noteq> [] \<and> 58 \<notin> set pat \<and> 13 \<notin> set pat \<and> 10 \<notin> set pat"

definition only_header :: "byte list \<Rightarrow> byte list \<Rightarrow> (byte list \<times> byte list) list \<Rightarrow> byte list \<Rightarrow> bool" where
  "only_header pat start hs body \<longleftrightarrow> name_ok pat \<and> find_sub start pat = None
     \<and> (map_of hs pat = None \<longrightarrow> find_sub body pat = None)
     \<and> (\<forall>(n, v) \<in> set hs. find_sub v pat = None \<and> (n \<noteq> pat \<longrightarrow> find_sub n pat = None))"

lemma map_of_split:
  "map_of hs k = Some v \<Longrightarrow> \<exists>hs1 hs2. hs = hs1 @ (k, v) # hs2 \<and> k \<notin> fst ` set hs1"
proof (induction hs)
  case (Cons h hs)
  show ?case
  proof (cases "fst h = k")
    case True
    then show ?thesis using Cons.prems by (cases h) (auto intro: exI [of _ "[]"])
  next
    case False
    then obtain hs1 hs2 where "hs = hs1 @ (k, v) # hs2" "k \<notin> fst ` set hs1"
      using Cons by (cases h) auto
    then have "h # hs = (h # hs1) @ (k, v) # hs2" "k \<notin> fst ` set (h # hs1)" using False by auto
    then show ?thesis by blast
  qed
qed simp

lemma find_headers:
  assumes "name_ok pat" "\<forall>(n, v) \<in> set hs. find_sub v pat = None \<and> find_sub n pat = None"
  shows "find_sub (headers_text hs @ s) pat = map_option ((+) (length (headers_text hs))) (find_sub s pat)"
  using assms(2)
proof (induction hs)
  case Nil
  show ?case by (cases "find_sub s pat") (auto simp: headers_text_def)
next
  case (Cons h hs)
  obtain n v where h: "h = (n, v)" by (cases h)
  have seps: "58 \<notin> set pat" "13 \<notin> set pat" "10 \<notin> set pat" "pat \<noteq> []"
    using assms(1) by (auto simp: name_ok_def)
  let ?r = "headers_text hs @ s"
  have "find_sub (10 # ?r) pat = map_option Suc (find_sub ?r pat)"
    using find_sub_sep [OF seps(3,4), of "[]" ?r] seps(4) by (cases "find_sub ?r pat") auto
  then have "find_sub (v @ 13 # 10 # ?r) pat = map_option ((+) (length v + 2)) (find_sub ?r pat)"
    using find_sub_sep [OF seps(2,4), of v "10 # ?r"] Cons.prems h by (cases "find_sub ?r pat") auto
  then have "find_sub (n @ 58 # v @ 13 # 10 # ?r) pat = map_option ((+) (length n + length v + 3)) (find_sub ?r pat)"
    using find_sub_sep [OF seps(1,4), of n "v @ 13 # 10 # ?r"] Cons.prems h by (cases "find_sub ?r pat") auto
  then show ?case
    using Cons.IH Cons.prems h by (cases "find_sub s pat") (auto simp: headers_text_def header_def)
qed

lemma find_start:
  assumes "name_ok pat" "find_sub start pat = None"
  shows "find_sub (start @ crlf @ s) pat = map_option ((+) (length start + 2)) (find_sub s pat)"
proof -
  have seps: "13 \<notin> set pat" "10 \<notin> set pat" "pat \<noteq> []" using assms(1) by (auto simp: name_ok_def)
  have "find_sub (10 # s) pat = map_option Suc (find_sub s pat)"
    using find_sub_sep [OF seps(2,3), of "[]" s] seps(3) by (cases "find_sub s pat") auto
  then show ?thesis
    using find_sub_sep [OF seps(1,3) assms(2), of "10 # s"] by (cases "find_sub s pat") auto
qed

definition field_of :: "(byte list \<times> byte list) list \<Rightarrow> string \<Rightarrow> byte list" where
  "field_of hs name = (case map_of hs (lit name) of None \<Rightarrow> bzero FIELD_SIZE | Some v \<Rightarrow> field_value v)"

lemma GetField_message:
  assumes only: "only_header pat start hs body"
    and vals: "\<forall>(n, v) \<in> set hs. 13 \<notin> set v" and nul: "0 \<notin> set (message start hs body)"
  shows "GetField g (message start hs body @ 0 # t) pat =
    (case map_of hs pat of
       None \<Rightarrow> Inr (g\<lparr>SIP_field := bzero FIELD_SIZE\<rparr>)
     | Some v \<Rightarrow> if length v < FIELD_SIZE then Inr (g\<lparr>SIP_field := field_value v\<rparr>) else Inl OutOfBounds)"
proof (cases "map_of hs pat")
  case None
  then have "\<forall>(n, v) \<in> set hs. find_sub v pat = None \<and> find_sub n pat = None"
    using only by (fastforce simp: only_header_def map_of_eq_None_iff image_iff)
  then have "find_sub (message start hs body) pat = None"
    using find_headers [of pat hs body] find_start [of pat start "headers_text hs @ body"] only None
    by (simp add: message_def only_header_def)
  then show ?thesis using None nul by (simp add: GetField_def strstr_def)
next
  case (Some v)
  then obtain hs1 hs2 where hs: "hs = hs1 @ (pat, v) # hs2" "pat \<notin> fst ` set hs1"
    using map_of_split by metis
  have n: "name_ok pat" "find_sub start pat = None" using only by (simp_all add: only_header_def)
  obtain c name where pat: "pat = c # name" using n(1) by (cases pat) (auto simp: name_ok_def)
  have h1: "\<forall>(n, v) \<in> set hs1. find_sub v pat = None \<and> find_sub n pat = None"
    using only hs by (fastforce simp: only_header_def image_iff)
  let ?pre = "start @ crlf @ headers_text hs1" and ?post = "10 # headers_text hs2 @ body"
  have s: "message start hs body = ?pre @ pat @ [] @ 58 # v @ 13 # ?post"
    by (simp add: message_def hs(1) headers_text_def header_def)
  have "find_sub (pat @ 58 # v @ 13 # ?post) pat = Some 0" by (rule find_sub_here) simp
  then have f: "find_sub (message start hs body) pat = Some (length ?pre)"
    unfolding s using find_headers [OF n(1) h1] find_start [OF n] by simp
  have v: "13 \<notin> set v" using vals hs(1) by auto
  show ?thesis
    using GetField_found [of "message start hs body" c name "length ?pre" ?pre "[]" v ?post g t] f s pat n(1) v nul Some
    by (auto simp: name_ok_def)
qed

section \<open>The result of the parser\<close>

lemma copy_field_message:
  assumes "only_header (lit name) start hs body" "\<forall>(n, v) \<in> set hs. 13 \<notin> set v \<and> length v \<le> 253"
    and "0 \<notin> set (message start hs body)"
  shows "copy_field g (message start hs body @ 0 # t) name upd =
    Inr (g\<lparr>SIP_field := field_of hs name, SIP_ans_mess := upd (field_of hs name) (SIP_ans_mess g)\<rparr>)"
proof (cases "map_of hs (lit name)")
  case None
  have z: "strcpy (bzero FIELD_SIZE) (bzero FIELD_SIZE) = Inr (bzero FIELD_SIZE)"
    by (simp add: strcpy_ok FIELD_SIZE_def) (simp add: bzero_def numeral_eq_Suc)
  have "GetField g (message start hs body @ 0 # t) (lit name) = Inr (g\<lparr>SIP_field := bzero FIELD_SIZE\<rparr>)"
    using GetField_message [OF assms(1) _ assms(3), of g t] assms(2) None by auto
  then show ?thesis using None z by (simp add: copy_field_def field_of_def)
next
  case (Some v)
  then have m: "(lit name, v) \<in> set hs" by (rule map_of_SomeD)
  then have v: "13 \<notin> set v" "length v \<le> 253" using assms(2) by auto
  have nul: "0 \<notin> set v"
    using m assms(3) by (auto simp: message_def headers_text_def header_def dest!: split_list)
  have f: "field_value v = (v @ [13]) @ 0 # bzero (FIELD_SIZE - length v - 2)"
    using v(2) by (cases "FIELD_SIZE - length v - 1") (auto simp: field_value_def bzero_def FIELD_SIZE_def)
  have "cstr (field_value v) = v @ [13]" unfolding f by (rule cstr_nul) (use nul in simp)
  then have "strcpy (bzero FIELD_SIZE) (field_value v) = Inr (v @ [13] @ 0 # drop (length v + 2) (bzero FIELD_SIZE))"
    using v(2) f by (simp add: strcpy_ok FIELD_SIZE_def)
  then have s: "strcpy (bzero FIELD_SIZE) (field_value v) = Inr (field_value v)"
    unfolding f by (simp add: bzero_def)
  have "GetField g (message start hs body @ 0 # t) (lit name) = Inr (g\<lparr>SIP_field := field_value v\<rparr>)"
    using GetField_message [OF assms(1) _ assms(3), of g t] assms(2) Some v by (auto simp: FIELD_SIZE_def)
  then show ?thesis using Some s by (simp add: copy_field_def field_of_def)
qed

text \<open>The names the parser looks for.\<close>

definition field_names :: "string list" where
  "field_names = [''Via'', ''From'', ''To'', ''Call-ID'', ''Server'', ''CSeq'', ''Allow'', ''Supported'', ''Contact'',
     ''WWW-Authenticate'', ''Content-Lenght'']"

definition parsed :: "int \<Rightarrow> byte list \<Rightarrow> (byte list \<times> byte list) list \<Rightarrow> SIP_message" where
  "parsed code cmd hs = \<lparr>mess_code = code, mess_command = cmd, mess_from = field_of hs ''From'',
     mess_via = field_of hs ''Via'', mess_to = field_of hs ''To'', mess_call_id = field_of hs ''Call-ID'',
     mess_cseq = field_of hs ''CSeq'', mess_server = field_of hs ''Server'', mess_allow = field_of hs ''Allow'',
     mess_supported = field_of hs ''Supported'', mess_contact = field_of hs ''Contact'',
     mess_auth = field_of hs ''WWW-Authenticate'', mess_content_lenght = 0\<rparr>"

definition well_formed :: "byte list \<Rightarrow> (byte list \<times> byte list) list \<Rightarrow> byte list \<Rightarrow> bool" where
  "well_formed start hs body \<longleftrightarrow> (\<forall>name \<in> set field_names. only_header (lit name) start hs body)
     \<and> (\<forall>(n, v) \<in> set hs. n \<noteq> lit ''Content-Lenght'' \<and> 13 \<notin> set v \<and> length v \<le> 253)
     \<and> 0 \<notin> set (message start hs body)"

text \<open>What the parser finds in the start line: the mark, the first space, and the words around it.\<close>

lemma start_line:
  assumes wf: "well_formed start hs body"
    and start: "start = w @ 32 # r" "32 \<notin> set w" "find_sub start (lit ''SIP'') \<noteq> None" "3 \<le> length r"
    and m: "m = message start hs body @ 0 # t"
  shows "\<exists>k. strstr m (lit ''SIP'') = Inr (Some k)"
    "strstr m (lit '' '') = Inr (Some (length w))"
    "strncpy (bzero 3) (drop (length w + 1) m) MESS_CODE_LEN = Inr (take 3 r)"
    "length w \<le> 20 \<Longrightarrow> strncpy (bzero 20) m (length w) = Inr (w @ bzero (20 - length w))"
proof -
  let ?m = "message start hs body" and ?r = "r @ crlf @ headers_text hs @ body"
  have nul: "0 \<notin> set ?m" using wf by (simp add: well_formed_def)
  have mr: "?m = w @ 32 # ?r" by (simp add: message_def start(1))
  obtain k where k: "find_sub start (lit ''SIP'') = Some k" using start(3) by auto
  then have "prefix (lit ''SIP'') (drop k start)" "k \<le> length start" by (simp_all only: find_sub_Some)
  then have "prefix (lit ''SIP'') (drop k ?m)" by (simp add: message_def)
  then have "find_sub ?m (lit ''SIP'') \<noteq> None"
    using sublist_drop [of k ?m] unfolding find_sub_None
    by (meson prefix_imp_sublist sublist_order.dual_order.trans)
  then show "\<exists>k. strstr m (lit ''SIP'') = Inr (Some k)"
    using nul by (auto simp: m strstr_def simp del: lit_simps)
  have "read_str m = Inr ?m" using nul by (simp add: m)
  then show "strstr m (lit '' '') = Inr (Some (length w))"
    using find_char [OF start(2), of ?r] by (simp add: strstr_def mr)
  have d: "drop (length w + 1) m = ?r @ 0 # t" by (simp add: m mr)
  have "cstr (?r @ 0 # t) = ?r" by (rule cstr_nul) (use nul in \<open>simp add: mr\<close>)
  then show "strncpy (bzero 3) (drop (length w + 1) m) MESS_CODE_LEN = Inr (take 3 r)"
    unfolding d strncpy_def using start(4) by (simp add: MESS_CODE_LEN_def mem_write_def bzero_def)
  have "cstr m = ?m" unfolding m using nul by (rule cstr_nul)
  moreover have "length w \<le> length m" by (simp add: m mr)
  ultimately show "strncpy (bzero 20) m (length w) = Inr (w @ bzero (20 - length w))" if "length w \<le> 20"
    using that by (simp add: mr strncpy_def mem_write_def bzero_def)
qed

lemma parser_result:
  assumes wf: "well_formed start hs body"
    and start: "start = w @ 32 # r" "32 \<notin> set w" "find_sub start (lit ''SIP'') \<noteq> None" "3 \<le> length r"
    and code: "atoi (take 3 r @ after) = Inr code" and cmd: "code = 0 \<Longrightarrow> length w \<le> 20"
  shows "SIP_parser g (message start hs body @ 0 # t) after =
    Inr (g\<lparr>SIP_field := bzero FIELD_SIZE,
      SIP_ans_mess := parsed code (if code = 0 then w @ bzero (20 - length w) else bzero 20) hs\<rparr>)"
proof -
  let ?m = "message start hs body"
  note line = start_line [OF wf start refl, where t = t]
  have nul: "0 \<notin> set ?m" using wf by (simp add: well_formed_def)
  have vals: "\<forall>(n, v) \<in> set hs. 13 \<notin> set v \<and> length v \<le> 253" using wf by (auto simp: well_formed_def)
  have only: "only_header (lit name) start hs body" if "name \<in> set field_names" for name
    using that wf by (simp add: well_formed_def)
  have cl: "GetField g' (?m @ 0 # t) (lit ''Content-Lenght'') = Inr (g'\<lparr>SIP_field := bzero FIELD_SIZE\<rparr>)" for g'
  proof -
    have "map_of hs (lit ''Content-Lenght'') = None"
      using wf by (fastforce simp: well_formed_def map_of_eq_None_iff image_iff simp del: lit_simps)
    moreover have "only_header (lit ''Content-Lenght'') start hs body" by (rule only) (simp add: field_names_def)
    ultimately show ?thesis using GetField_message [OF _ _ nul, of "lit ''Content-Lenght''" g' t] vals by auto
  qed
  have at: "atoi (bzero FIELD_SIZE) = Inr 0" by (simp add: bzero_def FIELD_SIZE_def numeral_eq_Suc)
  have cf: "copy_field g' (?m @ 0 # t) name upd =
      Inr (g'\<lparr>SIP_field := field_of hs name, SIP_ans_mess := upd (field_of hs name) (SIP_ans_mess g')\<rparr>)"
    if "name \<in> set field_names" for g' name upd
    by (rule copy_field_message [OF only [OF that] vals nul])
  obtain k where k: "strstr (?m @ 0 # t) (lit ''SIP'') = Inr (Some k)" using line(1) by blast
  show ?thesis
    unfolding SIP_parser_def k line(2) bindR_Inr option.case Let_def line(3) code
    by (cases "code = 0")
      (simp_all add: line(4) [OF cmd] cf field_names_def cl at parsed_def blank_answer_def del: lit_simps)
qed

lemma code_range:
  fixes x y z u :: int
  assumes "48 < x" "48 \<le> y" "48 \<le> z"
  shows "100 \<le> 100 * (x - 48) + 10 * (y - 48) + (z - 48)"
    and "48 \<le> u \<Longrightarrow> 1000 \<le> 10 * (100 * (x - 48) + 10 * (y - 48) + (z - 48)) + (u - 48)"
proof -
  have "49 \<le> x" using assms(1) by simp
  then show "100 \<le> 100 * (x - 48) + 10 * (y - 48) + (z - 48)"
    and "48 \<le> u \<Longrightarrow> 1000 \<le> 10 * (100 * (x - 48) + 10 * (y - 48) + (z - 48)) + (u - 48)"
    using assms(2,3) by simp_all
qed

lemma atoi_code:
  assumes "is_digit d1" "is_digit d2" "is_digit d3"
  defines "n \<equiv> 100 * (uint d1 - 48) + 10 * (uint d2 - 48) + (uint d3 - 48)"
  shows "\<not> is_digit a \<Longrightarrow> atoi (d1 # d2 # d3 # a # after) = Inr n"
    and "is_digit a \<Longrightarrow> \<not> is_digit b \<Longrightarrow> atoi (d1 # d2 # d3 # a # b # after) = Inr (10 * n + (uint a - 48))"
    and "0 \<le> n" "n \<le> 999"
proof -
  have r: "48 \<le> uint d \<and> uint d \<le> 57" if "is_digit d" for d
    using that by (simp add: is_digit_def word_le_def)
  have d1: "\<not> is_space d1" "d1 \<noteq> 45" "d1 \<noteq> 43"
    using r [OF assms(1)] by (auto simp: is_space_def word_le_def)
  show "0 \<le> n" "n \<le> 999"
    using r [OF assms(1)] r [OF assms(2)] r [OF assms(3)] by (simp_all add: n_def)
  then show "\<not> is_digit a \<Longrightarrow> atoi (d1 # d2 # d3 # a # after) = Inr n"
    using assms(1-3) d1 by (simp add: atoi_def n_def algebra_simps)
  have "- 2147483648 \<le> 10 * n + (uint a - 48) \<and> 10 * n + (uint a - 48) \<le> 2147483647" if "is_digit a"
    using r [OF that] \<open>0 \<le> n\<close> \<open>n \<le> 999\<close> by simp
  then show "is_digit a \<Longrightarrow> \<not> is_digit b \<Longrightarrow> atoi (d1 # d2 # d3 # a # b # after) = Inr (10 * n + (uint a - 48))"
    using assms(1-3) d1 by (simp add: atoi_def n_def algebra_simps)
qed

text \<open>The value of the first header of a name, with the carriage return the parser keeps.\<close>

definition hdr :: "(byte list \<times> byte list) list \<Rightarrow> string \<Rightarrow> byte list" where
  "hdr hs name = (case map_of hs (lit name) of None \<Rightarrow> [] | Some v \<Rightarrow> v @ [13])"

lemma cstr_field:
  assumes "well_formed start hs body"
  shows "cstr (field_of hs name) = hdr hs name" "0 \<in> set (field_of hs name)" "length (field_of hs name) = FIELD_SIZE"
proof -
  have v: "length v \<le> 253 \<and> 0 \<notin> set v" if "map_of hs (lit name) = Some v" for v
    using assms map_of_SomeD [OF that]
    by (auto simp: well_formed_def message_def headers_text_def header_def dest!: split_list)
  have f: "field_value v = (v @ [13]) @ 0 # bzero (FIELD_SIZE - length v - 2)" if "length v \<le> 253" for v
    using that by (cases "FIELD_SIZE - length v - 1") (auto simp: field_value_def bzero_def FIELD_SIZE_def)
  have c: "cstr (field_value v) = v @ [13]" if "length v \<le> 253" "0 \<notin> set v" for v
    unfolding f [OF that(1)] by (rule cstr_nul) (use that(2) in simp)
  show "cstr (field_of hs name) = hdr hs name" "0 \<in> set (field_of hs name)" "length (field_of hs name) = FIELD_SIZE"
    using v f c by (auto simp: field_of_def hdr_def FIELD_SIZE_def split: option.splits)
qed

section \<open>Properties\<close>

text \<open>The fields of an answer, header by header.\<close>

definition reads_headers :: "SIP_message \<Rightarrow> (byte list \<times> byte list) list \<Rightarrow> bool" where
  "reads_headers a hs \<longleftrightarrow> cstr (mess_via a) = hdr hs ''Via'' \<and> cstr (mess_from a) = hdr hs ''From''
     \<and> cstr (mess_to a) = hdr hs ''To'' \<and> cstr (mess_call_id a) = hdr hs ''Call-ID''
     \<and> cstr (mess_server a) = hdr hs ''Server'' \<and> cstr (mess_cseq a) = hdr hs ''CSeq''
     \<and> cstr (mess_allow a) = hdr hs ''Allow'' \<and> cstr (mess_supported a) = hdr hs ''Supported''
     \<and> cstr (mess_contact a) = hdr hs ''Contact'' \<and> cstr (mess_auth a) = hdr hs ''WWW-Authenticate''
     \<and> mess_content_lenght a = 0"

lemma parsed_reads: "well_formed start hs body \<Longrightarrow> reads_headers (parsed code cmd hs) hs"
  by (simp add: reads_headers_def parsed_def cstr_field)


text \<open>
  The status code is read past the end of its array: when the byte behind it happens to be a
  digit, a three-digit code becomes a number of at least 1000, which no branch of the call expects.
\<close>

lemma status_code_reads_stack:
  assumes "well_formed start hs body" "start = lit ''SIP/2.0 '' @ [d1, d2, d3] @ 32 # reason"
    and "is_digit d1" "is_digit d2" "is_digit d3" "d1 \<noteq> 48" "is_digit a" "\<not> is_digit b"
  shows "\<exists>g'. SIP_parser g (message start hs body @ 0 # t) (a # b # after) = Inr g'
    \<and> 1000 \<le> mess_code (SIP_ans_mess g')"
proof -
  let ?n = "100 * (uint d1 - 48) + 10 * (uint d2 - 48) + (uint d3 - 48)"
  let ?k = "10 * ?n + (uint a - 48)"
  have s: "start = lit ''SIP/2.0'' @ 32 # (d1 # d2 # d3 # 32 # reason)" using assms(2) by simp
  have c: "atoi (take 3 (d1 # d2 # d3 # 32 # reason) @ a # b # after) = Inr ?k"
    using atoi_code(2) [OF assms(3-5,7,8)] by (simp add: numeral_eq_Suc)
  have "48 < uint d1" using assms(3,6) by (auto simp: is_digit_def word_le_def word_uint_eq_iff)
  moreover have "48 \<le> uint d2" "48 \<le> uint d3" "48 \<le> uint a"
    using assms(4,5,7) by (simp_all add: is_digit_def word_le_def)
  ultimately have n: "1000 \<le> ?k" by (rule code_range(2))
  have "find_sub start (lit ''SIP'') \<noteq> None" by (simp add: assms(2))
  then have "SIP_parser g (message start hs body @ 0 # t) (a # b # after) =
      Inr (g\<lparr>SIP_field := bzero FIELD_SIZE, SIP_ans_mess := parsed ?k (bzero 20) hs\<rparr>)"
    using parser_result [OF assms(1) s _ _ _ c, of g t] n by simp
  then show ?thesis using n by (simp add: parsed_def)
qed

definition demo_headers :: "(byte list \<times> byte list) list" where
  "demo_headers = [(lit ''Via'', lit '' sip:pbx''), (lit ''CSeq'', lit '' 1 INVITE''), (lit ''Via'', lit '' other'')]"

lemma demo_well_formed:
  "well_formed (lit ''SIP/2.0 200 OK'') demo_headers crlf"
  by (simp add: well_formed_def demo_headers_def field_names_def only_header_def name_ok_def message_def
      headers_text_def header_def)


lemma status_code_reads_stack_witness:
  "\<exists>g'. SIP_parser demo_globals (message (lit ''SIP/2.0 200 OK'') demo_headers crlf @ [0]) [55, 0] = Inr g'
    \<and> 1000 \<le> mess_code (SIP_ans_mess g')"
  using status_code_reads_stack [OF demo_well_formed, of 50 48 48 "lit ''OK''" 55 0 demo_globals "[]" "[]"]
  by (auto simp: is_digit_def)

text \<open>
  From a request the parser takes the method, up to the first space, as the command, reports
  code 0 and reads the header fields as in a response.
\<close>

lemma parser_reads_request:
  assumes "well_formed start hs body" "start = method @ lit '' sip:'' @ uri @ lit '' SIP/2.0''"
    and "32 \<notin> set method" "length method < 20" "after \<noteq> []"
  shows "\<exists>g'. SIP_parser g (message start hs body @ 0 # t) after = Inr g'
    \<and> mess_code (SIP_ans_mess g') = 0 \<and> cstr (mess_command (SIP_ans_mess g')) = method
    \<and> reads_headers (SIP_ans_mess g') hs"
proof -
  have s: "start = method @ 32 # (lit ''sip:'' @ uri @ lit '' SIP/2.0'')" using assms(2) by simp
  have c: "atoi (take 3 (lit ''sip:'' @ uri @ lit '' SIP/2.0'') @ after) = Inr 0"
  proof -
    have "take 3 (lit ''sip:'' @ uri @ lit '' SIP/2.0'') = [115, 105, 112]" by (simp add: numeral_eq_Suc)
    then show ?thesis by (simp only:) (simp add: atoi_def is_space_def is_digit_def)
  qed
  have "sublist (lit ''SIP'') start"
    unfolding assms(2) sublist_def
    by (rule exI [of _ "method @ lit '' sip:'' @ uri @ lit '' ''"], rule exI [of _ "lit ''/2.0''"]) simp
  then have "find_sub start (lit ''SIP'') \<noteq> None" by (simp only: find_sub_None not_not)
  then have r: "SIP_parser g (message start hs body @ 0 # t) after =
      Inr (g\<lparr>SIP_field := bzero FIELD_SIZE, SIP_ans_mess := parsed 0 (method @ bzero (20 - length method)) hs\<rparr>)"
    using parser_result [OF assms(1) s assms(3) _ _ c, of g t] assms(4) by simp
  have "0 \<notin> set method" using assms(1,2) by (auto simp: well_formed_def message_def)
  moreover have "bzero (20 - length method) = 0 # bzero (19 - length method)"
    using assms(4) by (cases "20 - length method") (auto simp: bzero_def)
  ultimately have "cstr (method @ bzero (20 - length method)) = method" by (simp add: cstr_nul)
  then show ?thesis using r parsed_reads [OF assms(1)] by (simp add: parsed_def)
qed

lemma parser_reads_request_witness:
  "\<exists>g'. SIP_parser demo_globals (message (lit ''BYE sip:215 SIP/2.0'') demo_headers crlf @ [0]) [0] = Inr g'
    \<and> cstr (mess_command (SIP_ans_mess g')) = lit ''BYE''"
proof -
  have "well_formed (lit ''BYE sip:215 SIP/2.0'') demo_headers crlf"
    by (simp add: well_formed_def demo_headers_def field_names_def only_header_def name_ok_def message_def
        headers_text_def header_def)
  then show ?thesis
    using parser_reads_request [of "lit ''BYE sip:215 SIP/2.0''" demo_headers crlf "lit ''BYE''" "lit ''215''" "[0]"
        demo_globals "[]"] by auto
qed

text \<open>
  The length of a header value decides over the 255-byte arrays: up to 253 characters it is
  stored, with 254 the copy has no end and the next \<open>strcpy\<close> runs on, and longer values are written
  past \<open>SIP_field\<close>.
\<close>

lemma field_length_limits:
  assumes "only_header (lit name) start hs body" "\<forall>(n, v) \<in> set hs. 13 \<notin> set v"
    and "0 \<notin> set (message start hs body)" "map_of hs (lit name) = Some v"
  shows "case copy_field g (message start hs body @ 0 # t) name upd of
      Inr g' \<Rightarrow> length v \<le> 253 \<and> cstr (SIP_field g') = v @ [13]
    | Inl OutOfBounds \<Rightarrow> 255 \<le> length v
    | Inl e \<Rightarrow> e = Unterminated \<and> length v = 254"
proof -
  have nv: "0 \<notin> set v"
    using map_of_SomeD [OF assms(4)] assms(3) by (auto simp: message_def headers_text_def header_def dest!: split_list)
  have gf: "GetField g (message start hs body @ 0 # t) (lit name) =
      (if length v < FIELD_SIZE then Inr (g\<lparr>SIP_field := field_value v\<rparr>) else Inl OutOfBounds)"
    using GetField_message [OF assms(1,2,3), of g t] assms(4) by simp
  consider "length v \<le> 253" | "length v = 254" | "255 \<le> length v" by linarith
  then show ?thesis
  proof cases
    case 1
    have f: "field_value v = (v @ [13]) @ 0 # bzero (FIELD_SIZE - length v - 2)"
      using 1 by (cases "FIELD_SIZE - length v - 1") (auto simp: field_value_def bzero_def FIELD_SIZE_def)
    have c: "cstr (field_value v) = v @ [13]" unfolding f by (rule cstr_nul) (use nv in simp)
    have "\<exists>d. strcpy (bzero FIELD_SIZE) (field_value v) = Inr d"
      using 1 c f by (simp add: strcpy_ok FIELD_SIZE_def)
    then show ?thesis using gf 1 c by (auto simp: copy_field_def FIELD_SIZE_def)
  next
    case 2
    then have "field_value v = v @ [13]" by (simp add: field_value_def FIELD_SIZE_def bzero_def)
    then have "strcpy (bzero FIELD_SIZE) (field_value v) = Inl Unterminated"
      using nv by (simp add: strcpy_def read_str_fault)
    then show ?thesis using gf 2 by (simp add: copy_field_def FIELD_SIZE_def)
  next
    case 3
    then show ?thesis using gf by (simp add: copy_field_def FIELD_SIZE_def)
  qed
qed

lemma field_length_limits_witness:
  "copy_field demo_globals (message [] [(lit ''Via'', replicate 300 65)] crlf @ [0]) ''Via'' (\<lambda>d. mess_via_update (\<lambda>_. d))
     = Inl OutOfBounds"
proof -
  have f: "find_sub (replicate k 65) (lit ''Via'') = None" for k by (induction k) auto
  let ?r = "copy_field demo_globals (message [] [(lit ''Via'', replicate 300 65)] crlf @ [0]) ''Via''
      (\<lambda>d. mess_via_update (\<lambda>_. d))"
  have "only_header (lit ''Via'') [] [(lit ''Via'', replicate 300 65)] crlf"
    using f by (simp add: only_header_def name_ok_def)
  then have "case ?r of Inr g' \<Rightarrow> length (replicate 300 (65 :: byte)) \<le> 253 \<and> cstr (SIP_field g') = replicate 300 65 @ [13]
    | Inl OutOfBounds \<Rightarrow> 255 \<le> length (replicate 300 (65 :: byte))
    | Inl e \<Rightarrow> e = Unterminated \<and> length (replicate 300 (65 :: byte)) = 254"
    using field_length_limits [of "''Via''" "[]" "[(lit ''Via'', replicate 300 65)]" crlf "replicate 300 65" demo_globals "[]"
        "\<lambda>d. mess_via_update (\<lambda>_. d)"]
    by (simp add: message_def headers_text_def header_def)
  then show ?thesis by (auto split: sum.splits ub.splits)
qed

text \<open>
  The parser ignores the length of the datagram and nothing clears the buffer: when a datagram
  that ends with a line end and lacks a header has overwritten the front of the buffer, the field is
  taken from what an earlier message left behind it.
\<close>

lemma stale_header:
  assumes "name_ok (lit name)" "find_sub d (lit name) = None" "find_sub old (lit name) = Some (length pre)"
    and "old = pre @ lit name @ 58 # v @ 13 # post"
    and "13 \<notin> set v" "length v < FIELD_SIZE" "0 \<notin> set (d @ [10] @ old)"
  shows "GetField g ((d @ [10] @ old) @ 0 # t) (lit name) = Inr (g\<lparr>SIP_field := field_value v\<rparr>)"
proof -
  have p: "lit name \<noteq> []" "58 \<notin> set (lit name)" "10 \<notin> set (lit name)" using assms(1) by (simp_all add: name_ok_def)
  obtain c n where cn: "lit name = c # n" using p(1) by (cases "lit name") auto
  have f: "find_sub (d @ [10] @ old) (lit name) = Some (length (d @ [10] @ pre))"
    using find_sub_sep [OF p(3,1) assms(2), of old] assms(3) by simp
  show ?thesis
    using GetField_found [of "d @ [10] @ old" c n "length (d @ [10] @ pre)" "d @ [10] @ pre" "[]" v post g t]
      f assms(4-7) p(2) cn by simp
qed

lemma stale_header_witness:
  "GetField demo_globals ((lit ''SIP/2.0 180 Ringing'' @ [13] @ [10] @ lit ''Contact:old'' @ [13]) @ 0 # []) (lit ''Contact'')
     = Inr (demo_globals\<lparr>SIP_field := field_value (lit ''old'')\<rparr>)"
  using stale_header [of "''Contact''" "lit ''SIP/2.0 180 Ringing'' @ [13]" "lit ''Contact:old'' @ [13]" "[]" "lit ''old''" "[]"
      demo_globals "[]"]
  by (simp add: name_ok_def FIELD_SIZE_def)

text \<open>The answer to BYE as a message of header lines.\<close>

definition ok_headers :: "SIP_message \<Rightarrow> (byte list \<times> byte list) list" where
  "ok_headers a = [(lit ''Via'', cstr (mess_via a)), (lit ''From'', cstr (mess_from a)), (lit ''To'', cstr (mess_to a)),
     (lit ''Contact'', cstr (mess_contact a)), (lit ''Call-ID'', cstr (mess_call_id a)), (lit ''CSeq'', cstr (mess_cseq a)),
     (lit ''Content-Length'', lit ''   '' @ show_int (mess_content_lenght a))]"

lemma ok_text_message:
  "framed (ok_text a) @ crlf = message (lit ''SIP/2.0 200 OK'') (ok_headers a) crlf"
  by (simp add: framed_def ok_text_def ok_headers_def message_def headers_text_def header_def)

definition echo_ok :: "byte list \<Rightarrow> bool" where
  "echo_ok f \<longleftrightarrow> 0 \<in> set f \<and> 13 \<notin> set (cstr f) \<and> length (cstr f) \<le> 130
     \<and> (\<forall>name \<in> set field_names. find_sub (cstr f) (lit name) = None)"

lemma find_sub_hd: "c \<notin> set s \<Longrightarrow> find_sub s (c # p) = None"
  by (induction s) auto

definition echo_names :: "string list" where
  "echo_names = [''Via'', ''From'', ''To'', ''Contact'', ''Call-ID'', ''CSeq'', ''Content-Length'']"

definition echo_fields :: "SIP_message \<Rightarrow> byte list list" where
  "echo_fields a = [mess_via a, mess_from a, mess_to a, mess_contact a, mess_call_id a, mess_cseq a]"

lemma field_names_ok:
  assumes "name \<in> set field_names"
  shows "name_ok (lit name)" "find_sub (lit ''SIP/2.0 200 OK'') (lit name) = None" "find_sub crlf (lit name) = None"
    "n \<in> set echo_names \<Longrightarrow>
       lit n \<noteq> lit name \<longrightarrow> find_sub (lit n) (lit name) = None"
proof -
  have "\<forall>name \<in> set field_names. name_ok (lit name)" by (simp add: field_names_def name_ok_def)
  then show "name_ok (lit name)" using assms by blast
  have "\<forall>name \<in> set field_names. find_sub (lit ''SIP/2.0 200 OK'') (lit name) = None \<and> find_sub crlf (lit name) = None"
    by (simp add: field_names_def)
  then show "find_sub (lit ''SIP/2.0 200 OK'') (lit name) = None" "find_sub crlf (lit name) = None" using assms by blast+
  have "\<forall>n \<in> set echo_names. \<forall>name \<in> set field_names.
      lit n \<noteq> lit name \<longrightarrow> find_sub (lit n) (lit name) = None"
    by (simp add: field_names_def echo_names_def)
  then show "n \<in> set echo_names \<Longrightarrow>
      lit n \<noteq> lit name \<longrightarrow> find_sub (lit n) (lit name) = None" using assms by blast
qed

lemma ok_headers_cases:
  assumes "(n, v) \<in> set (ok_headers a)"
  obtains n' where "n' \<in> set echo_names" "n = lit n'"
    "v = lit ''   '' @ show_int (mess_content_lenght a)
      \<or> (\<exists>f \<in> set (echo_fields a). v = cstr f)"
  using assms unfolding ok_headers_def echo_names_def echo_fields_def by (auto simp del: lit_simps)

text \<open>The answer 200 is a well-formed message when the fields it repeats are plain.\<close>

lemma ok_message:
  assumes "\<forall>f \<in> set (echo_fields a). echo_ok f" "\<bar>mess_content_lenght a\<bar> < 2 ^ 31"
  shows "well_formed (lit ''SIP/2.0 200 OK'') (ok_headers a) crlf"
    "length (message (lit ''SIP/2.0 200 OK'') (ok_headers a) crlf) < BUFSIZE"
proof -
  let ?s = "message (lit ''SIP/2.0 200 OK'') (ok_headers a) crlf"
  let ?cl = "show_int (mess_content_lenght a)"
  have cl: "length ?cl \<le> 11" using show_int_length(1) [of "mess_content_lenght a" 10] assms(2) by simp
  have clc: "c \<notin> set ?cl" if "65 \<le> c" "c \<le> 90" for c
    using show_int_chars [of c "mess_content_lenght a"] that by (auto simp: hex_char_def word_le_def)
  have cln: "find_sub (lit ''   '' @ ?cl) (lit name) = None" if "name \<in> set field_names" for name
    using that clc by (auto simp: field_names_def intro!: find_sub_hd)
  show "length ?s < BUFSIZE"
    using assms(1) cl by (simp add: message_def headers_text_def header_def ok_headers_def echo_ok_def echo_fields_def BUFSIZE_def)
  have nul: "0 \<notin> set ?s"
    using show_int_no(1) by (simp add: message_def headers_text_def header_def ok_headers_def)
  show "well_formed (lit ''SIP/2.0 200 OK'') (ok_headers a) crlf"
    unfolding well_formed_def
  proof (intro conjI nul ballI)
    show "only_header (lit name) (lit ''SIP/2.0 200 OK'') (ok_headers a) crlf" if "name \<in> set field_names" for name
    proof -
      have "find_sub v (lit name) = None \<and> (n \<noteq> lit name \<longrightarrow> find_sub n (lit name) = None)"
        if "(n, v) \<in> set (ok_headers a)" for n v
        using that
      proof (cases rule: ok_headers_cases)
        case (1 n')
        then have "find_sub v (lit name) = None"
          using assms(1) cln [OF \<open>name \<in> set field_names\<close>] \<open>name \<in> set field_names\<close> unfolding echo_ok_def
          by (elim disjE bexE) (simp_all del: lit_simps)
        then show ?thesis using field_names_ok(4) [OF \<open>name \<in> set field_names\<close> 1(1)] 1(2) by simp
      qed
      then show ?thesis using field_names_ok(1-3) [OF that] unfolding only_header_def by blast
    qed
    show "case h of (n, v) \<Rightarrow> n \<noteq> lit ''Content-Lenght'' \<and> 13 \<notin> set v \<and> length v \<le> 253"
      if "h \<in> set (ok_headers a)" for h
    proof -
      obtain n v where h: "h = (n, v)" by (cases h)
      have ne: "\<forall>n \<in> set echo_names. lit n \<noteq> lit ''Content-Lenght''" by (simp add: echo_names_def)
      have c: "13 \<notin> set (lit ''   '' @ ?cl)" "length (lit ''   '' @ ?cl) \<le> 253" using cl show_int_no(2) by simp_all
      have "(n, v) \<in> set (ok_headers a)" using that h by simp
      then show ?thesis
      proof (cases rule: ok_headers_cases)
        case (1 n')
        then have "13 \<notin> set v \<and> length v \<le> 253" using c assms(1) by (force simp: echo_ok_def simp del: lit_simps)
        then show ?thesis using 1(1,2) ne h by simp
      qed
    qed
  qed
qed



end
