(* ===== verification/Sip_Call.thy ===== *)
theory Sip_Call
  imports Sip_Parser
begin

text \<open>
  One call of the SIP client (\<open>app/linux/sip/src/sip_call.c\<close>, \<open>inc/sip_call.h\<close>): the session
  state machine \<open>Vyzov_sip\<close>, the life of a call \<open>main_sip_call\<close> and the loop
  \<open>main_sip_call_Helen\<close>.  Everything the operating system returns during one pass is an input.
\<close>

section \<open>Data\<close>

datatype VYZOV_STATE = VYZOV_STATE_INIT | VYZOV_STATE_START | VYZOV_STATE_CLOSE | VYZOV_STATE_END

datatype SIP_SESSION_STATE =
    SIP_SESSION_STATE_START
  | SIP_SESSION_STATE_INVITE_SENDED
  | SIP_SESSION_STATE_INVITE_COMPLETED
  | SIP_SESSION_STATE_BYE_SENDED
  | SIP_SESSION_STATE_BYE_COMPLETED

text \<open>A \<open>FILE *\<close>: null, open, or closed (the pointer dangles).\<close>

datatype FILE = NoFile | OpenFile | ClosedFile

record sockaddr_in =
  sin_port :: u16
  sin_addr :: u32

record sip_call =
  REMOTE_SIP_IPADDR :: "byte list"      \<comment> \<open>char[20]\<close>
  LOCAL_SIP_PORT :: int
  LOCAL_RTP_PORT :: int
  REMOTE_SIP_PORT :: int
  V :: VYZOV_STATE
  sip_state :: SIP_SESSION_STATE
  call_end :: int
  sudp :: int
  RTP_data_sock :: int
  ifile :: FILE
  buf_point :: int
  mess_trans :: int
  return_code :: int

text \<open>What the program does to the outside.\<close>

datatype sip_event =
    Bind int sockaddr_in
  | Connect int sockaddr_in
  | NonBlock int
  | SipSend int "byte list"
  | RtpSend int "byte list"
  | FilePut byte
  | Close int

record sip_app =
  glob :: sip_globals
  buf :: "byte list"                    \<comment> \<open>char[1024]\<close>
  payload_buf :: "byte list"
  filebuf :: "byte list"                \<comment> \<open>char[512000]\<close>
  OFilename :: "byte list"
  IFilename :: "byte list"
  CallID :: "byte list"
  ofile :: FILE
  rtppacket :: "byte list"              \<comment> \<open>char[1024]\<close>
  rtpPacketHeader :: "byte list"        \<comment> \<open>char[12]\<close>
  g_bytes :: int                        \<comment> \<open>\<open>bytes\<close>\<close>
  g_c :: int                            \<comment> \<open>\<open>c\<close>\<close>
  g_y :: int                            \<comment> \<open>\<open>y\<close>\<close>
  fsize :: int
  trace :: "sip_event list"

record sip_args =
  ownnumber :: "byte list"
  ownpass :: "byte list"
  ownip :: "byte list"
  ownsipport :: "byte list"
  ownrtpport :: "byte list"
  serverip :: "byte list"
  serversipport :: "byte list"
  phonenum :: "byte list"
  ofname :: "byte list"
  ifname :: "byte list"

text \<open>
  The inputs of one pass: the file that an attempt to open \<open>ofname\<close> finds, whether \<open>ifname\<close> can be
  created, the datagrams waiting on the two sockets, the results of \<open>send\<close> and \<open>random\<close>, and the
  contents of the stack the parser and the authorisation see.
\<close>

record sip_input =
  in_file :: "nat \<Rightarrow> byte list option"
  in_create :: bool
  in_sip :: "byte list option"
  in_rtp :: "byte list option"
  in_sent :: int
  in_random :: int
  in_after :: "byte list"
  in_frame :: auth_frame

definition FILEBUFSIZE :: nat where "FILEBUFSIZE = 512000"
definition WAV_HEADER :: int where "WAV_HEADER = 54"

section \<open>Steps of the session\<close>

text \<open>\<open>strcpy(buf, SIP_mess); bytes = send(sudp, buf, strlen(buf), 0)\<close>\<close>

definition send_mess :: "sip_input \<Rightarrow> int \<Rightarrow> sip_app \<Rightarrow> sip_app res" where
  "send_mess inp sock s =
     bindR (strcpy (buf s) (SIP_mess (glob s))) (\<lambda>b.
     bindR (read_str b) (\<lambda>d.
     Inr (s\<lparr>buf := b, g_bytes := in_sent inp, trace := trace s @ [SipSend sock d]\<rparr>)))"

definition send_invite :: "sip_args \<Rightarrow> sip_input \<Rightarrow> int \<Rightarrow> byte list \<Rightarrow> sip_app \<Rightarrow> sip_app res" where
  "send_invite a inp sock auth s =
     bindR (CreateInvite (glob s) (in_random inp) (ownnumber a) (phonenum a) auth (ownip a) (ownsipport a)
              (ownrtpport a) (serverip a)) (\<lambda>g.
     send_mess inp sock (s\<lparr>glob := g\<rparr>))"

definition send_ack :: "sip_args \<Rightarrow> sip_input \<Rightarrow> int \<Rightarrow> sip_app \<Rightarrow> sip_app res" where
  "send_ack a inp sock s =
     bindR (CreateAck (glob s) (phonenum a) (serverip a)) (\<lambda>g.
     send_mess inp sock (s\<lparr>buf := bzero BUFSIZE, glob := g\<rparr>))"

text \<open>\<open>recv\<close> overwrites the front of the buffer; without a datagram it returns -1.\<close>

definition recv_sip :: "sip_input \<Rightarrow> sip_app \<Rightarrow> sip_app" where
  "recv_sip inp s =
     (case in_sip inp of
        None \<Rightarrow> s\<lparr>g_bytes := - 1\<rparr>
      | Some d \<Rightarrow> (let p = take BUFSIZE d in s\<lparr>buf := p @ drop (length p) (buf s), g_bytes := int (length p)\<rparr>))"

definition parse_buf :: "sip_input \<Rightarrow> sip_app \<Rightarrow> sip_app res" where
  "parse_buf inp s = bindR (SIP_parser (glob s) (buf s) (in_after inp)) (\<lambda>g. Inr (s\<lparr>glob := g\<rparr>))"

text \<open>The answer to a challenge: \<open>realm\<close> and \<open>nonce\<close> are taken over and a new INVITE is sent.\<close>

definition take_param :: "string \<Rightarrow> byte list \<Rightarrow> sip_globals \<Rightarrow> (byte list \<times> sip_globals) res" where
  "take_param name dst g =
     bindR (GetParam g (mess_auth (SIP_ans_mess g)) (lit name)) (\<lambda>g.
     bindR (strcpy dst (SIP_field g)) (\<lambda>d. Inr (d, g)))"

definition answer_challenge :: "sip_args \<Rightarrow> sip_input \<Rightarrow> int \<Rightarrow> sip_app \<Rightarrow> sip_app res" where
  "answer_challenge a inp sock s =
     (let g = (glob s)\<lparr>CSeq := CSeq (glob s) + 1\<rparr> in
      bindR (take_param ''realm'' (SIP_realm g) g) (\<lambda>(d, g).
      bindR (take_param ''nonce'' (SIP_nonce g) (g\<lparr>SIP_realm := d\<rparr>)) (\<lambda>(d, g).
      bindR (CreateAuthString (g\<lparr>SIP_nonce := d\<rparr>) (in_frame inp) (ownnumber a) (ownpass a) (phonenum a) (serverip a))
        (\<lambda>g. send_invite a inp sock (Auth_String g) (s\<lparr>glob := g\<rparr>)))))"

definition invite_sended :: "sip_args \<Rightarrow> sip_input \<Rightarrow> sip_app \<Rightarrow> sip_call \<Rightarrow> (sip_app \<times> sip_call) res" where
  "invite_sended a inp s sc =
     (let s = recv_sip inp s in
      if g_bytes s < 0 then Inr (s, sc)
      else
        bindR (parse_buf inp s) (\<lambda>s.
        let code = mess_code (SIP_ans_mess (glob s)) in
        if code = 100 then Inr (s, sc)
        else if code = 180 then Inr (s, sc)
        else if code = 401 then bindR (answer_challenge a inp (sudp sc) s) (\<lambda>s. Inr (s, sc))
        else if code = 486 then
          bindR (send_ack a inp (sudp sc) s) (\<lambda>s.
          Inr (s, sc\<lparr>sip_state := SIP_SESSION_STATE_BYE_COMPLETED, return_code := 2\<rparr>))
        else if code = 200 then
          bindR (strcpy (IFilename s) (ifname a)) (\<lambda>fn.
          bindR (send_ack a inp (sudp sc) (s\<lparr>IFilename := fn, g_y := 0\<rparr>)) (\<lambda>s.
          Inr (s, sc\<lparr>ifile := (if in_create inp then OpenFile else NoFile),
                     sip_state := SIP_SESSION_STATE_INVITE_COMPLETED\<rparr>)))
        else
          bindR (send_ack a inp (sudp sc) s) (\<lambda>s.
          Inr (s, sc\<lparr>sip_state := SIP_SESSION_STATE_BYE_COMPLETED, return_code := 2\<rparr>))))"

definition idx_read :: "byte list \<Rightarrow> int \<Rightarrow> byte list res" where
  "idx_read m i = (if i < 0 then Inl OutOfBounds else mem_read (nat i) 1 m)"

text \<open>The payload of an outgoing packet is taken from the file buffer.\<close>

function stream_loop :: "byte list \<Rightarrow> int \<Rightarrow> int \<Rightarrow> nat \<Rightarrow> byte list \<Rightarrow> (int \<times> nat \<times> byte list) res" where
  "stream_loop fb fsz bp y pkt =
     (if bp < fsz \<and> y < 160 then
        bindR (idx_read fb (bp + 1)) (\<lambda>v.
        bindR (mem_write (12 + y) v pkt) (\<lambda>pkt.
        stream_loop fb fsz (bp + 1) (Suc y) pkt))
      else Inr (bp, y, pkt))"
  by pat_completeness auto
termination by (relation "measure (\<lambda>(fb, fsz, bp, y, pkt). 160 - y)") auto

declare stream_loop.simps [simp del]

text \<open>The payload of an incoming packet is written to the file.\<close>

function record_loop :: "byte list \<Rightarrow> nat \<Rightarrow> int \<Rightarrow> sip_event list \<Rightarrow> (int \<times> sip_event list) res" where
  "record_loop pkt y bp tr =
     (if y < 160 then
        bindR (mem_read (12 + y) 1 pkt) (\<lambda>v. record_loop pkt (Suc y) (uint (hd v)) (tr @ [FilePut (hd v)]))
      else Inr (bp, tr))"
  by pat_completeness auto
termination by (relation "measure (\<lambda>(pkt, y, bp, tr). 160 - y)") auto

declare record_loop.simps [simp del]

definition rtp_exchange :: "sip_input \<Rightarrow> sip_app \<Rightarrow> sip_call \<Rightarrow> (sip_app \<times> sip_call) res" where
  "rtp_exchange inp s sc =
     (case in_rtp inp of
        None \<Rightarrow> Inr (s\<lparr>payload_buf := bzero BUFSIZE, g_bytes := - 1\<rparr>, sc)
      | Some d \<Rightarrow>
          (let p = take BUFSIZE d;
               s = s\<lparr>payload_buf := bzero BUFSIZE, rtppacket := p @ drop (length p) (rtppacket s),
                     g_bytes := int (length p)\<rparr> in
           if 0 < g_bytes s \<and> mess_trans sc = 0 then
             bindR (mem_read 0 12 (rtppacket s)) (\<lambda>h.
             bindR (mem_write 0 h (bzero BUFSIZE)) (\<lambda>pkt.
             bindR (stream_loop (filebuf s) (fsize s) (buf_point sc) 0 pkt) (\<lambda>(bp, y, pkt).
             bindR (mem_read 0 172 pkt) (\<lambda>out.
             Inr (s\<lparr>rtpPacketHeader := h, rtppacket := pkt, g_y := int y,
                    trace := trace s @ [RtpSend (RTP_data_sock sc) out]\<rparr>,
                  sc\<lparr>buf_point := bp, mess_trans := (if bp = fsize s then 1 else mess_trans sc)\<rparr>)))))
           else if 0 < g_bytes s \<and> mess_trans sc = 1 then
             (if ifile sc = OpenFile then
                bindR (record_loop (rtppacket s) 0 (buf_point sc) []) (\<lambda>(bp, tr).
                Inr (s\<lparr>g_y := 160, trace := trace s @ tr\<rparr>, sc\<lparr>buf_point := bp\<rparr>))
              else Inl NullPointer)
           else Inr (s, sc)))"

definition invite_completed :: "sip_input \<Rightarrow> sip_app \<Rightarrow> sip_call \<Rightarrow> (sip_app \<times> sip_call) res" where
  "invite_completed inp s sc =
     bindR (rtp_exchange inp s sc) (\<lambda>(s, sc).
     let s = recv_sip inp s in
     if g_bytes s < 0 then Inr (s, sc)
     else
       bindR (parse_buf inp s) (\<lambda>s.
       bindR (read_str (mess_command (SIP_ans_mess (glob s)))) (\<lambda>cmd.
       Inr (s, if cmd = lit ''BYE'' then sc\<lparr>sip_state := SIP_SESSION_STATE_BYE_SENDED\<rparr> else sc))))"

definition bye_sended :: "sip_input \<Rightarrow> sip_app \<Rightarrow> sip_call \<Rightarrow> (sip_app \<times> sip_call) res" where
  "bye_sended inp s sc =
     (if ifile sc = OpenFile then
        bindR (Create200 (glob s)) (\<lambda>g.
        bindR (send_mess inp (sudp sc) (s\<lparr>buf := bzero BUFSIZE, glob := g\<rparr>)) (\<lambda>s.
        Inr (s, (if 0 < g_bytes s then sc\<lparr>ifile := ClosedFile, sip_state := SIP_SESSION_STATE_BYE_COMPLETED\<rparr>
                 else sc\<lparr>ifile := ClosedFile\<rparr>))))
      else Inl NullPointer)"

definition Vyzov_sip :: "sip_args \<Rightarrow> sip_input \<Rightarrow> sip_app \<Rightarrow> sip_call \<Rightarrow> (sip_app \<times> sip_call) res" where
  "Vyzov_sip a inp s sc =
     (case sip_state sc of
        SIP_SESSION_STATE_START \<Rightarrow>
          bindR (send_invite a inp (sudp sc) (Auth_String (glob s)) s) (\<lambda>s.
          Inr (s, if 0 < g_bytes s then sc\<lparr>sip_state := SIP_SESSION_STATE_INVITE_SENDED\<rparr> else sc))
      | SIP_SESSION_STATE_INVITE_SENDED \<Rightarrow> invite_sended a inp s sc
      | SIP_SESSION_STATE_INVITE_COMPLETED \<Rightarrow> invite_completed inp s sc
      | SIP_SESSION_STATE_BYE_SENDED \<Rightarrow> bye_sended inp s sc
      | SIP_SESSION_STATE_BYE_COMPLETED \<Rightarrow>
          Inr (s\<lparr>trace := trace s @ [Close (sudp sc), Close (RTP_data_sock sc)]\<rparr>, sc\<lparr>call_end := 1\<rparr>))"

section \<open>The life of a call\<close>

text \<open>Up to six attempts to open the file; the result is the file found and the value of \<open>y\<close>.\<close>

function open_loop :: "(nat \<Rightarrow> byte list option) \<Rightarrow> nat \<Rightarrow> byte list option \<times> nat" where
  "open_loop try y =
     (case try y of
        Some f \<Rightarrow> (Some f, y)
      | None \<Rightarrow> if y < 5 then open_loop try (Suc y) else (None, y))"
  by pat_completeness auto
termination by (relation "measure (\<lambda>(try, y). 5 - y)") auto

declare open_loop.simps [simp del]

text \<open>The file is read character by character, the end mark included.\<close>

fun read_loop :: "byte list \<Rightarrow> byte list \<Rightarrow> nat \<Rightarrow> (byte list \<times> nat) res" where
  "read_loop [] fb y = bindR (mem_write y [0xFF] fb) (\<lambda>fb. Inr (fb, Suc y))"
| "read_loop (b # f) fb y = bindR (mem_write y [b] fb) (\<lambda>fb. read_loop f fb (Suc y))"

definition call_init :: "sip_args \<Rightarrow> sip_input \<Rightarrow> sip_app \<Rightarrow> sip_call \<Rightarrow> (sip_app \<times> sip_call) res" where
  "call_init a inp s sc =
     bindR (strcpy (OFilename s) (ofname a)) (\<lambda>fn.
     let (file, y) = open_loop (in_file inp) 0;
         s = s\<lparr>OFilename := fn, g_y := int y\<rparr>;
         sc = sc\<lparr>return_code := 0\<rparr> in
     case file of
       None \<Rightarrow> Inl NullPointer
     | Some f \<Rightarrow>
         (let s = s\<lparr>fsize := int (length f), g_c := 0, g_y := 0\<rparr> in
          bindR
            (if fsize s > WAV_HEADER then
               bindR (read_loop f (filebuf s) 0) (\<lambda>(fb, y).
               Inr (s\<lparr>filebuf := fb, g_y := int y, g_c := - 1\<rparr>, sc))
             else Inr (s, sc\<lparr>return_code := 1\<rparr>))
            (\<lambda>(s, sc).
             bindR (strcpy (CallID s) (cs ''loniis'')) (\<lambda>ci.
             Inr (s\<lparr>ofile := ClosedFile, CallID := ci\<rparr>,
                  sc\<lparr>call_end := 0, mess_trans := 0, V := VYZOV_STATE_START\<rparr>)))))"

definition main_sip_call :: "sip_args \<Rightarrow> sip_input \<Rightarrow> sip_app \<Rightarrow> sip_call \<Rightarrow> ((sip_app \<times> sip_call) \<times> bool) res" where
  "main_sip_call a inp s sc =
     (case V sc of
        VYZOV_STATE_INIT \<Rightarrow> bindR (call_init a inp s sc) (\<lambda>r. Inr (r, False))
      | VYZOV_STATE_START \<Rightarrow>
          if call_end sc \<noteq> 1 then bindR (Vyzov_sip a inp s sc) (\<lambda>r. Inr (r, False))
          else Inr ((s, sc\<lparr>V := VYZOV_STATE_CLOSE\<rparr>), False)
      | VYZOV_STATE_CLOSE \<Rightarrow> Inr ((s, sc\<lparr>V := VYZOV_STATE_END\<rparr>), False)
      | VYZOV_STATE_END \<Rightarrow> Inr ((s, sc), True))"

text \<open>The polling loop, on a stream of inputs; it may run forever.\<close>

partial_function (option) helen_loop ::
  "sip_args \<Rightarrow> (nat \<Rightarrow> sip_input) \<Rightarrow> nat \<Rightarrow> sip_app \<times> sip_call \<Rightarrow> (sip_app \<times> sip_call) res option" where
  "helen_loop a inp n st =
     (case main_sip_call a (inp n) (fst st) (snd st) of
        Inl e \<Rightarrow> Some (Inl e)
      | Inr (st', fStop) \<Rightarrow> if fStop then Some (Inr st') else helen_loop a inp (Suc n) st')"

section \<open>The order of the states\<close>

fun session_rank :: "SIP_SESSION_STATE \<Rightarrow> nat" where
  "session_rank SIP_SESSION_STATE_START = 0"
| "session_rank SIP_SESSION_STATE_INVITE_SENDED = 1"
| "session_rank SIP_SESSION_STATE_INVITE_COMPLETED = 2"
| "session_rank SIP_SESSION_STATE_BYE_SENDED = 3"
| "session_rank SIP_SESSION_STATE_BYE_COMPLETED = 4"

fun life_rank :: "VYZOV_STATE \<Rightarrow> nat" where
  "life_rank VYZOV_STATE_INIT = 0"
| "life_rank VYZOV_STATE_START = 1"
| "life_rank VYZOV_STATE_CLOSE = 2"
| "life_rank VYZOV_STATE_END = 3"

lemma session_rank_eq: "session_rank x = session_rank y \<Longrightarrow> x = y"
  by (cases x; cases y; simp)

lemma life_rank_eq: "life_rank x = life_rank y \<Longrightarrow> x = y"
  by (cases x; cases y; simp)

instantiation SIP_SESSION_STATE :: linorder
begin

definition less_eq_SIP_SESSION_STATE :: "SIP_SESSION_STATE \<Rightarrow> SIP_SESSION_STATE \<Rightarrow> bool" where
  "less_eq_SIP_SESSION_STATE x y \<longleftrightarrow> session_rank x \<le> session_rank y"

definition less_SIP_SESSION_STATE :: "SIP_SESSION_STATE \<Rightarrow> SIP_SESSION_STATE \<Rightarrow> bool" where
  "less_SIP_SESSION_STATE x y \<longleftrightarrow> session_rank x < session_rank y"

instance
  by standard (auto simp: less_eq_SIP_SESSION_STATE_def less_SIP_SESSION_STATE_def intro: session_rank_eq)

end

instantiation VYZOV_STATE :: linorder
begin

definition less_eq_VYZOV_STATE :: "VYZOV_STATE \<Rightarrow> VYZOV_STATE \<Rightarrow> bool" where
  "less_eq_VYZOV_STATE x y \<longleftrightarrow> life_rank x \<le> life_rank y"

definition less_VYZOV_STATE :: "VYZOV_STATE \<Rightarrow> VYZOV_STATE \<Rightarrow> bool" where
  "less_VYZOV_STATE x y \<longleftrightarrow> life_rank x < life_rank y"

instance
  by standard (auto simp: less_eq_VYZOV_STATE_def less_VYZOV_STATE_def intro: life_rank_eq)

end

lemmas state_order = less_eq_SIP_SESSION_STATE_def less_SIP_SESSION_STATE_def
  less_eq_VYZOV_STATE_def less_VYZOV_STATE_def

section \<open>What a pass can change\<close>

fun is_close :: "sip_event \<Rightarrow> bool" where
  "is_close (Close fd) \<longleftrightarrow> True"
| "is_close e \<longleftrightarrow> False"

definition closes :: "sip_app \<Rightarrow> sip_event list" where
  "closes s = filter is_close (trace s)"

lemma closes_upd [simp]:
  "closes (s\<lparr>glob := g\<rparr>) = closes s" "closes (s\<lparr>buf := b\<rparr>) = closes s" "closes (s\<lparr>IFilename := b\<rparr>) = closes s"
  "closes (s\<lparr>OFilename := b\<rparr>) = closes s" "closes (s\<lparr>g_y := i\<rparr>) = closes s" "closes (s\<lparr>g_c := i\<rparr>) = closes s"
  "closes (s\<lparr>g_bytes := i\<rparr>) = closes s" "closes (s\<lparr>fsize := i\<rparr>) = closes s" "closes (s\<lparr>payload_buf := b\<rparr>) = closes s"
  "closes (s\<lparr>filebuf := b\<rparr>) = closes s" "closes (s\<lparr>CallID := b\<rparr>) = closes s" "closes (s\<lparr>ofile := h\<rparr>) = closes s"
  "closes (s\<lparr>rtppacket := b\<rparr>) = closes s" "closes (s\<lparr>rtpPacketHeader := b\<rparr>) = closes s"
  by (simp_all add: closes_def)

lemma bindR_InrE:
  assumes "bindR m f = Inr y"
  obtains x where "m = Inr x" "f x = Inr y"
  using assms by (cases m) auto

named_theorems no_close "operations that close no socket"

lemma send_mess_closes [no_close]: "send_mess inp sock s = Inr s' \<Longrightarrow> closes s' = closes s"
  by (auto simp: send_mess_def bindR_eq_Inr closes_def)

lemma send_invite_closes [no_close]: "send_invite a inp sock auth s = Inr s' \<Longrightarrow> closes s' = closes s"
  by (auto simp: send_invite_def bindR_eq_Inr closes_def dest!: send_mess_closes)

lemma send_ack_closes [no_close]: "send_ack a inp sock s = Inr s' \<Longrightarrow> closes s' = closes s"
  by (auto simp: send_ack_def bindR_eq_Inr closes_def dest!: send_mess_closes)

lemma recv_closes [simp]: "closes (recv_sip inp s) = closes s"
  by (simp add: recv_sip_def closes_def Let_def split: option.splits)

lemma parse_closes [no_close]: "parse_buf inp s = Inr s' \<Longrightarrow> closes s' = closes s"
  by (auto simp: parse_buf_def bindR_eq_Inr closes_def)

lemma challenge_closes [no_close]: "answer_challenge a inp sock s = Inr s' \<Longrightarrow> closes s' = closes s"
  by (auto simp: answer_challenge_def bindR_eq_Inr closes_def Let_def dest!: send_invite_closes split: prod.splits)

lemma record_loop_puts:
  "record_loop pkt y bp tr = Inr (bp', tr') \<Longrightarrow> filter is_close tr = [] \<Longrightarrow> filter is_close tr' = []"
proof (induction pkt y bp tr rule: record_loop.induct)
  case (1 pkt y bp tr)
  show ?case
  proof (cases "y < 160")
    case True
    then obtain v where "mem_read (12 + y) 1 pkt = Inr v"
      "record_loop pkt (Suc y) (uint (hd v)) (tr @ [FilePut (hd v)]) = Inr (bp', tr')"
      using 1(2) by (subst (asm) record_loop.simps) (auto simp: bindR_eq_Inr)
    then show ?thesis using 1(1) [OF True] 1(3) by auto
  next
    case False
    then show ?thesis using 1(2,3) by (subst (asm) record_loop.simps) simp
  qed
qed

lemma closes_trace [simp]:
  "closes (s\<lparr>trace := trace s @ tr\<rparr>) = closes s @ filter is_close tr"
  by (simp add: closes_def)

lemma rtp_exchange_frame:
  assumes "rtp_exchange inp s sc = Inr (s', sc')"
  shows "closes s' = closes s" "glob s' = glob s" "buf s' = buf s" "filebuf s' = filebuf s" "fsize s' = fsize s"
    "sip_state sc' = sip_state sc" "V sc' = V sc" "call_end sc' = call_end sc" "return_code sc' = return_code sc"
    "sudp sc' = sudp sc" "RTP_data_sock sc' = RTP_data_sock sc" "ifile sc' = ifile sc"
  using assms unfolding rtp_exchange_def Let_def
  by (auto elim!: bindR_InrE dest!: record_loop_puts split: option.splits if_splits prod.splits simp: closes_def)

text \<open>The successors of a session state.\<close>

fun next_states :: "SIP_SESSION_STATE \<Rightarrow> SIP_SESSION_STATE set" where
  "next_states SIP_SESSION_STATE_START = {SIP_SESSION_STATE_START, SIP_SESSION_STATE_INVITE_SENDED}"
| "next_states SIP_SESSION_STATE_INVITE_SENDED =
     {SIP_SESSION_STATE_INVITE_SENDED, SIP_SESSION_STATE_INVITE_COMPLETED, SIP_SESSION_STATE_BYE_COMPLETED}"
| "next_states SIP_SESSION_STATE_INVITE_COMPLETED =
     {SIP_SESSION_STATE_INVITE_COMPLETED, SIP_SESSION_STATE_BYE_SENDED}"
| "next_states SIP_SESSION_STATE_BYE_SENDED = {SIP_SESSION_STATE_BYE_SENDED, SIP_SESSION_STATE_BYE_COMPLETED}"
| "next_states SIP_SESSION_STATE_BYE_COMPLETED = {SIP_SESSION_STATE_BYE_COMPLETED}"

lemma next_states_up: "x' \<in> next_states x \<Longrightarrow> x \<le> x'"
  by (cases x) (auto simp: state_order)

lemma invite_sended_frame:
  assumes "invite_sended a inp s sc = Inr (s', sc')"
  shows "closes s' = closes s" "V sc' = V sc" "call_end sc' = call_end sc" "sudp sc' = sudp sc"
    "RTP_data_sock sc' = RTP_data_sock sc"
    "sip_state sc' \<in> {sip_state sc, SIP_SESSION_STATE_INVITE_COMPLETED, SIP_SESSION_STATE_BYE_COMPLETED}"
    "sip_state sc' = SIP_SESSION_STATE_BYE_COMPLETED \<longrightarrow> sip_state sc = SIP_SESSION_STATE_BYE_COMPLETED \<or> return_code sc' = 2"
    "return_code sc' = return_code sc \<or> return_code sc' = 2 \<and> sip_state sc' = SIP_SESSION_STATE_BYE_COMPLETED"
  using assms unfolding invite_sended_def Let_def
  by (auto elim!: bindR_InrE dest!: no_close split: if_splits)

lemma recv_sip_frame [simp]:
  "glob (recv_sip inp s) = glob s" "filebuf (recv_sip inp s) = filebuf s" "fsize (recv_sip inp s) = fsize s"
  by (simp_all add: recv_sip_def Let_def split: option.splits)

lemma invite_completed_frame:
  assumes "invite_completed inp s sc = Inr (s', sc')"
  shows "closes s' = closes s" "V sc' = V sc" "call_end sc' = call_end sc" "sudp sc' = sudp sc"
    "RTP_data_sock sc' = RTP_data_sock sc" "return_code sc' = return_code sc"
    "sip_state sc' \<in> {sip_state sc, SIP_SESSION_STATE_BYE_SENDED}"
proof -
  obtain s1 sc1 where r: "rtp_exchange inp s sc = Inr (s1, sc1)"
    and q: "(let s = recv_sip inp s1 in if g_bytes s < 0 then Inr (s, sc1)
       else bindR (parse_buf inp s) (\<lambda>s. bindR (read_str (mess_command (SIP_ans_mess (glob s)))) (\<lambda>cmd.
         Inr (s, if cmd = lit ''BYE'' then sc1\<lparr>sip_state := SIP_SESSION_STATE_BYE_SENDED\<rparr> else sc1)))) = Inr (s', sc')"
    using assms unfolding invite_completed_def by (auto elim!: bindR_InrE)
  note f = rtp_exchange_frame [OF r]
  show "closes s' = closes s" "V sc' = V sc" "call_end sc' = call_end sc" "sudp sc' = sudp sc"
    "RTP_data_sock sc' = RTP_data_sock sc" "return_code sc' = return_code sc"
    "sip_state sc' \<in> {sip_state sc, SIP_SESSION_STATE_BYE_SENDED}"
    using q f unfolding Let_def by (auto elim!: bindR_InrE dest!: no_close simp del: lit_simps split: if_splits)
qed

lemma bye_sended_frame:
  assumes "bye_sended inp s sc = Inr (s', sc')"
  shows "closes s' = closes s" "V sc' = V sc" "call_end sc' = call_end sc" "sudp sc' = sudp sc"
    "RTP_data_sock sc' = RTP_data_sock sc" "return_code sc' = return_code sc"
    "sip_state sc' \<in> {sip_state sc, SIP_SESSION_STATE_BYE_COMPLETED}"
  using assms unfolding bye_sended_def by (auto elim!: bindR_InrE dest!: no_close split: if_splits)

text \<open>One step of the session: where it can lead, and what it leaves alone.\<close>

lemma Vyzov_sip_frame:
  assumes "Vyzov_sip a inp s sc = Inr (s', sc')"
  shows "sip_state sc' \<in> next_states (sip_state sc)" "V sc' = V sc" "sudp sc' = sudp sc"
    "RTP_data_sock sc' = RTP_data_sock sc"
    "sip_state sc \<noteq> SIP_SESSION_STATE_BYE_COMPLETED \<Longrightarrow> closes s' = closes s \<and> call_end sc' = call_end sc"
    "sip_state sc = SIP_SESSION_STATE_BYE_COMPLETED \<Longrightarrow>
       closes s' = closes s @ [Close (sudp sc), Close (RTP_data_sock sc)] \<and> call_end sc' = 1"
    "return_code sc' = return_code sc \<or> return_code sc' = 2 \<and> sip_state sc' = SIP_SESSION_STATE_BYE_COMPLETED"
proof (atomize(full), cases "sip_state sc", goal_cases)
  case 1
  then show ?case using assms unfolding Vyzov_sip_def by (auto elim!: bindR_InrE dest!: no_close split: if_splits)
next
  case 2
  then have "invite_sended a inp s sc = Inr (s', sc')" using assms by (simp add: Vyzov_sip_def)
  from invite_sended_frame [OF this] 2 show ?case by auto
next
  case 3
  then have "invite_completed inp s sc = Inr (s', sc')" using assms by (simp add: Vyzov_sip_def)
  from invite_completed_frame [OF this] 3 show ?case by auto
next
  case 4
  then have "bye_sended inp s sc = Inr (s', sc')" using assms by (simp add: Vyzov_sip_def)
  from bye_sended_frame [OF this] 4 show ?case by auto
next
  case 5
  then show ?case using assms by (auto simp: Vyzov_sip_def)
qed

lemma call_init_frame:
  assumes "call_init a inp s sc = Inr (s', sc')"
  shows "closes s' = closes s" "V sc' = VYZOV_STATE_START" "call_end sc' = 0" "sip_state sc' = sip_state sc"
    "sudp sc' = sudp sc" "RTP_data_sock sc' = RTP_data_sock sc" "mess_trans sc' = 0" "buf_point sc' = buf_point sc"
    "return_code sc' \<in> {0, 1}"
  using assms unfolding call_init_def Let_def
  by (auto elim!: bindR_InrE split: option.splits if_splits prod.splits)

section \<open>Runs\<close>

inductive call_run :: "sip_args \<Rightarrow> sip_app \<times> sip_call \<Rightarrow> sip_app \<times> sip_call \<Rightarrow> bool" for a st0 where
  start: "call_run a st0 st0"
| pass: "call_run a st0 st \<Longrightarrow> main_sip_call a inp (fst st) (snd st) = Inr (st', fStop) \<Longrightarrow> call_run a st0 st'"

inductive_cases pass_elim: "call_run a st0 st"

text \<open>The state in which a call is begun.\<close>

definition fresh_call :: "sip_app \<times> sip_call \<Rightarrow> bool" where
  "fresh_call st \<longleftrightarrow> V (snd st) = VYZOV_STATE_INIT \<and> sip_state (snd st) = SIP_SESSION_STATE_START
     \<and> call_end (snd st) = 0 \<and> closes (fst st) = []"

definition call_inv :: "sip_app \<times> sip_call \<Rightarrow> bool" where
  "call_inv st \<longleftrightarrow> (case st of (s, sc) \<Rightarrow>
     call_end sc \<in> {0, 1}
     \<and> (call_end sc = 1 \<longrightarrow> sip_state sc = SIP_SESSION_STATE_BYE_COMPLETED)
     \<and> (V sc = VYZOV_STATE_INIT \<longrightarrow> call_end sc = 0 \<and> sip_state sc = SIP_SESSION_STATE_START)
     \<and> (V sc > VYZOV_STATE_START \<longrightarrow> call_end sc = 1)
     \<and> closes s = (if call_end sc = 1 then [Close (sudp sc), Close (RTP_data_sock sc)] else [])
     \<and> (V sc > VYZOV_STATE_INIT \<longrightarrow> return_code sc \<in> {0, 1, 2})
     \<and> (V sc > VYZOV_STATE_INIT \<and> return_code sc = 2 \<longrightarrow> sip_state sc = SIP_SESSION_STATE_BYE_COMPLETED))"

lemma call_inv_pass:
  assumes inv: "call_inv (s, sc)" and step: "main_sip_call a inp s sc = Inr ((s', sc'), fStop)"
  shows "call_inv (s', sc')" "V sc \<le> V sc'" "sip_state sc \<le> sip_state sc'"
    "sudp sc' = sudp sc \<and> RTP_data_sock sc' = RTP_data_sock sc" "fStop \<longleftrightarrow> V sc = VYZOV_STATE_END"
proof (atomize(full), cases "V sc", goal_cases)
  case 1
  then have "call_init a inp s sc = Inr (s', sc')" "\<not> fStop"
    using step by (auto simp: main_sip_call_def elim!: bindR_InrE)
  from call_init_frame [OF this(1)] this(2) 1 inv show ?case by (auto simp: call_inv_def state_order)
next
  case 2
  show ?case
  proof (cases "call_end sc = 1")
    case True
    then show ?thesis using 2 inv step by (auto simp: main_sip_call_def call_inv_def state_order)
  next
    case False
    then have v: "Vyzov_sip a inp s sc = Inr (s', sc')" "\<not> fStop"
      using 2 step by (auto simp: main_sip_call_def elim!: bindR_InrE)
    note f = Vyzov_sip_frame [OF v(1)]
    show ?thesis
      using f(1-4) f(7) f(5,6) next_states_up [OF f(1)] v(2) 2 inv False
      by (cases "sip_state sc") (auto simp: call_inv_def state_order)
  qed
next
  case 3
  then show ?case using inv step by (auto simp: main_sip_call_def call_inv_def state_order)
next
  case 4
  then show ?case using inv step by (auto simp: main_sip_call_def call_inv_def state_order)
qed

section \<open>Properties\<close>

lemma call_run_inv: "call_run a st0 st \<Longrightarrow> fresh_call st0 \<Longrightarrow> call_inv st"
proof (induction rule: call_run.induct)
  case start
  then show ?case by (cases st0) (auto simp: fresh_call_def call_inv_def state_order)
next
  case (pass st inp st' fStop)
  then show ?case using call_inv_pass(1) by (cases st; cases st') auto
qed

text \<open>
  C11: in every run of a call, whatever the network delivers and the file system answers, the two state
  machines only move forward, the polling loop is told to stop exactly in the end state, that state is
  reached only through the last session state, and the two sockets are closed there, once, in order.
\<close>

theorem session_order:
  assumes "call_run a st0 (s, sc)" "fresh_call st0" "main_sip_call a inp s sc = Inr ((s', sc'), fStop)"
  shows "V sc \<le> V sc' \<and> sip_state sc \<le> sip_state sc' \<and> (fStop \<longleftrightarrow> V sc = VYZOV_STATE_END)
    \<and> (V sc > VYZOV_STATE_START \<longrightarrow> sip_state sc = SIP_SESSION_STATE_BYE_COMPLETED
        \<and> closes s = [Close (sudp sc), Close (RTP_data_sock sc)])
    \<and> (sip_state sc < SIP_SESSION_STATE_BYE_COMPLETED \<longrightarrow> closes s = [])
    \<and> (sip_state sc' > SIP_SESSION_STATE_START \<longrightarrow> return_code sc' \<in> {0, 1, 2})"
proof -
  have inv: "call_inv (s, sc)" using call_run_inv [OF assms(1,2)] .
  note p = call_inv_pass [OF inv assms(3)]
  show ?thesis using p inv by (cases "V sc"; cases "V sc'") (auto simp: call_inv_def state_order)
qed

definition demo_call :: sip_call where
  "demo_call = \<lparr>REMOTE_SIP_IPADDR = bzero 20, LOCAL_SIP_PORT = 5060, LOCAL_RTP_PORT = 22222, REMOTE_SIP_PORT = 5060,
     V = VYZOV_STATE_INIT, sip_state = SIP_SESSION_STATE_START, call_end = 0, sudp = 3, RTP_data_sock = 4,
     ifile = NoFile, buf_point = 0, mess_trans = 0, return_code = - 1\<rparr>"

definition demo_app :: sip_app where
  "demo_app = \<lparr>glob = demo_globals, buf = bzero 1024, payload_buf = bzero 1024, filebuf = bzero 512000,
     OFilename = bzero 255, IFilename = bzero 255, CallID = bzero 255, ofile = NoFile, rtppacket = bzero 1024,
     rtpPacketHeader = bzero 12, g_bytes = 0, g_c = 0, g_y = 0, fsize = 0, trace = []\<rparr>"

definition demo_args :: sip_args where
  "demo_args = \<lparr>ownnumber = cs ''215'', ownpass = cs ''215test'', ownip = cs ''192.168.255.107'',
     ownsipport = cs ''5060'', ownrtpport = cs ''22222'', serverip = cs ''192.168.255.134'',
     serversipport = cs ''5060'', phonenum = cs ''212'', ofname = cs ''bu811.wav'', ifname = cs ''input1.wav''\<rparr>"

definition demo_input :: sip_input where
  "demo_input = \<lparr>in_file = (\<lambda>n. Some (replicate 10 65)), in_create = True, in_sip = None, in_rtp = None, in_sent = 500,
     in_random = 1804289383, in_after = [0], in_frame = blank_frame\<rparr>"

lemma demo_init:
  "main_sip_call demo_args demo_input demo_app demo_call = Inr ((demo_app\<lparr>OFilename := filled (lit ''bu811.wav'') 255,
     CallID := filled (lit ''loniis'') 255, ofile := ClosedFile, fsize := 10\<rparr>,
     demo_call\<lparr>return_code := 1, V := VYZOV_STATE_START\<rparr>), False)"
proof -
  have f: "strcpy (bzero 255) (cs ''bu811.wav'') = Inr (filled (lit ''bu811.wav'') 255)"
    "strcpy (bzero 255) (cs ''loniis'') = Inr (filled (lit ''loniis'') 255)"
    by (simp_all add: strcpy_ok cs_def cstr_def filled_def) (simp_all add: bzero_def numeral_eq_Suc)
  show ?thesis
    by (simp add: main_sip_call_def call_init_def demo_call_def demo_args_def demo_input_def demo_app_def
        open_loop.simps WAV_HEADER_def f)
qed

theorem session_order_witness:
  "closes demo_app = [] \<and> sip_state demo_call \<le> SIP_SESSION_STATE_START \<and> VYZOV_STATE_INIT \<le> VYZOV_STATE_START"
  using session_order [OF call_run.start [of demo_args "(demo_app, demo_call)"] _ demo_init]
  by (simp add: fresh_call_def closes_def demo_app_def demo_call_def state_order)

text \<open>What is sent, byte for byte, when it fits.\<close>

lemma send_filled:
  assumes "SIP_mess (glob s) = filled t BUFSIZE" "length t < BUFSIZE" "0 \<notin> set t" "buf s = bzero BUFSIZE"
  shows "send_mess inp sock s =
    Inr (s\<lparr>buf := filled t BUFSIZE, g_bytes := in_sent inp, trace := trace s @ [SipSend sock t]\<rparr>)"
proof -
  have f: "t @ 0 # drop (Suc (length t)) (bzero BUFSIZE) = filled t BUFSIZE"
    using assms(2) by (cases "BUFSIZE - length t") (auto simp: filled_def bzero_def)
  have "strcpy (bzero BUFSIZE) (filled t BUFSIZE) = Inr (filled t BUFSIZE)"
    using filled_nul [OF assms(2,3)] assms(2) by (simp add: strcpy_ok f)
  then show ?thesis using filled_nul [OF assms(2,3)] assms(1,4) by (simp add: send_mess_def read_str_ok)
qed

lemma send_ack_result:
  assumes "fields_ok (SIP_ans_mess (glob s))" "0 \<in> set (phonenum a)" "0 \<in> set (serverip a)"
    and "ack = framed (ack_text (SIP_ans_mess (glob s)) (cstr (phonenum a)) (cstr (serverip a))) @ crlf" "length ack < BUFSIZE"
  shows "send_ack a inp sock s = Inr (s\<lparr>buf := filled ack BUFSIZE, glob := (glob s)\<lparr>SIP_mess := filled ack BUFSIZE\<rparr>,
    g_bytes := in_sent inp, trace := trace s @ [SipSend sock ack]\<rparr>)"
proof -
  have nul: "0 \<notin> set ack" using assms(1) show_int_no(1) by (simp add: assms(4) framed_def ack_text_def)
  have "CreateAck (glob s) (phonenum a) (serverip a) = Inr ((glob s)\<lparr>SIP_mess := filled ack BUFSIZE\<rparr>)"
    using ack_result [OF assms(1-3)] assms(4,5) by (simp add: Let_def)
  then show ?thesis using nul assms(5) by (simp add: send_ack_def send_filled)
qed

lemma send_ok_result:
  assumes "fields_ok (SIP_ans_mess (glob s))" "t = framed (ok_text (SIP_ans_mess (glob s))) @ crlf" "length t < BUFSIZE"
  shows "Create200 (glob s) = Inr ((glob s)\<lparr>SIP_mess := filled t BUFSIZE\<rparr>)"
    "send_mess inp sock (s\<lparr>buf := bzero BUFSIZE, glob := (glob s)\<lparr>SIP_mess := filled t BUFSIZE\<rparr>\<rparr>) =
      Inr (s\<lparr>buf := filled t BUFSIZE, glob := (glob s)\<lparr>SIP_mess := filled t BUFSIZE\<rparr>, g_bytes := in_sent inp,
        trace := trace s @ [SipSend sock t]\<rparr>)"
proof -
  have "0 \<notin> set t" using assms(1) show_int_no(1) by (simp add: assms(2) framed_def ok_text_def)
  then show "send_mess inp sock (s\<lparr>buf := bzero BUFSIZE, glob := (glob s)\<lparr>SIP_mess := filled t BUFSIZE\<rparr>\<rparr>) =
      Inr (s\<lparr>buf := filled t BUFSIZE, glob := (glob s)\<lparr>SIP_mess := filled t BUFSIZE\<rparr>, g_bytes := in_sent inp,
        trace := trace s @ [SipSend sock t]\<rparr>)"
    using assms(3) by (simp add: send_filled)
  show "Create200 (glob s) = Inr ((glob s)\<lparr>SIP_mess := filled t BUFSIZE\<rparr>)"
    using ok_result [OF assms(1)] assms(2,3) by (simp add: Let_def)
qed

lemma parse_trace: "parse_buf inp s = Inr s' \<Longrightarrow> trace s' = trace s"
  by (auto simp: parse_buf_def elim!: bindR_InrE)

lemma recv_trace [simp]: "trace (recv_sip inp s) = trace s"
  by (simp add: recv_sip_def Let_def split: option.splits)

lemma answer_dispatch:
  assumes "in_sip inp \<noteq> None" "parse_buf inp (recv_sip inp s) = Inr s1" "m = SIP_ans_mess (glob s1)"
    and "fields_ok m" "0 \<in> set (phonenum a)" "0 \<in> set (serverip a)" "0 \<in> set (ifname a)"
    and "ack = framed (ack_text m (cstr (phonenum a)) (cstr (serverip a))) @ crlf" "length ack < BUFSIZE"
    and "length (cstr (ifname a)) < length (IFilename s1)"
  shows "(mess_code m \<in> {100, 180} \<longrightarrow> invite_sended a inp s sc = Inr (s1, sc))
    \<and> (mess_code m = 200 \<longrightarrow> (\<exists>s'. invite_sended a inp s sc =
         Inr (s', sc\<lparr>ifile := (if in_create inp then OpenFile else NoFile),
                     sip_state := SIP_SESSION_STATE_INVITE_COMPLETED\<rparr>)
         \<and> trace s' = trace s @ [SipSend (sudp sc) ack]))
    \<and> (mess_code m \<notin> {100, 180, 200, 401} \<longrightarrow> (\<exists>s'. invite_sended a inp s sc =
         Inr (s', sc\<lparr>sip_state := SIP_SESSION_STATE_BYE_COMPLETED, return_code := 2\<rparr>)
         \<and> trace s' = trace s @ [SipSend (sudp sc) ack]))"
proof -
  have n: "\<not> g_bytes (recv_sip inp s) < 0" using assms(1) by (auto simp: recv_sip_def Let_def)
  have tr: "trace s1 = trace s" using parse_trace [OF assms(2)] by simp
  have ack: "\<exists>s'. send_ack a inp (sudp sc) t = Inr s' \<and> trace s' = trace t @ [SipSend (sudp sc) ack]"
    if "SIP_ans_mess (glob t) = m" for t
    using send_ack_result [of t a ack] assms(4-6,8,9) that by simp
  obtain s2 where s2: "send_ack a inp (sudp sc) s1 = Inr s2" "trace s2 = trace s @ [SipSend (sudp sc) ack]"
    using ack [of s1] assms(3) tr by auto
  obtain fn s3 where s3: "strcpy (IFilename s1) (ifname a) = Inr fn"
    "send_ack a inp (sudp sc) (s1\<lparr>IFilename := fn, g_y := 0\<rparr>) = Inr s3" "trace s3 = trace s @ [SipSend (sudp sc) ack]"
    using strcpy_ok [OF assms(7,10)] ack [of "s1\<lparr>IFilename := fn, g_y := 0\<rparr>" for fn] assms(3) tr by fastforce
  show ?thesis
    using n assms(2) s2 s3 unfolding invite_sended_def by (auto simp: Let_def assms(3))
qed


definition busy :: "byte list" where
  "busy = message (lit ''SIP/2.0 486 Busy Here'') [] crlf"

text \<open>What a 486 without headers leaves of the state, for a call that waits for an answer.\<close>

lemma busy_parsed:
  assumes "\<exists>x. in_after inp = 0 # x" "\<exists>t. buf (recv_sip inp s) = busy @ 0 # t"
  shows "parse_buf inp (recv_sip inp s) = Inr ((recv_sip inp s)\<lparr>glob := (glob s)\<lparr>SIP_field := bzero FIELD_SIZE,
    SIP_ans_mess := parsed 486 (bzero 20) []\<rparr>\<rparr>)"
proof -
  have wf: "well_formed (lit ''SIP/2.0 486 Busy Here'') [] crlf"
    by (simp add: well_formed_def field_names_def only_header_def name_ok_def message_def headers_text_def)
  have s: "lit ''SIP/2.0 486 Busy Here'' = lit ''SIP/2.0'' @ 32 # lit ''486 Busy Here''" by simp
  have d: "is_digit 52" "is_digit 56" "is_digit 54" by (simp_all add: is_digit_def)
  obtain x where x: "in_after inp = 0 # x" using assms(1) by blast
  have nd: "\<not> is_digit 0" by (simp add: is_digit_def)
  have at: "atoi (take 3 (lit ''486 Busy Here'') @ 0 # x) = Inr 486"
    using atoi_code(1) [OF d nd, of x] by simp
  have n: "find_sub (lit ''SIP/2.0 486 Busy Here'') (lit ''SIP'') \<noteq> None" by simp
  obtain t where b: "buf (recv_sip inp s) = busy @ 0 # t" using assms(2) by blast
  have "SIP_parser (glob s) (busy @ 0 # t) (0 # x) = Inr ((glob s)\<lparr>SIP_field := bzero FIELD_SIZE,
      SIP_ans_mess := parsed 486 (bzero 20) []\<rparr>)"
    unfolding busy_def using parser_result [OF wf s _ n _ at, of "glob s" t] by simp
  then show ?thesis by (simp add: parse_buf_def b x)
qed

lemma busy_received:
  assumes "in_sip inp = Some busy" "drop 25 (buf s) = bzero (Suc n)"
  shows "\<exists>t. buf (recv_sip inp s) = busy @ 0 # t"
proof -
  have l: "length busy = 25" by (simp add: busy_def message_def headers_text_def)
  have "bzero (Suc n) = 0 # bzero n" unfolding bzero_def by (rule replicate_Suc)
  then show ?thesis using assms l by (simp add: recv_sip_def Let_def BUFSIZE_def)
qed


end
