(* ===== verification/Sip_Media.thy ===== *)
theory Sip_Media
  imports Sip_Call
begin

text \<open>
  What a call does with the answers of its peers: the response to an authentication challenge, from the
  header of the 401 to the digest in the next INVITE, and the voice packets, which carry the file
  that was read when the call began.
\<close>

section \<open>Challenges\<close>

lemma GetParam_found:
  assumes "find_sub s (c # name) = Some k" "s = pre @ (c # name) @ mid @ 34 # v @ 34 # post" "length pre = k"
    and "34 \<notin> set name" "34 \<notin> set mid" "34 \<notin> set v" "0 \<notin> set s" "length v \<le> FIELD_SIZE"
  shows "GetParam g (s @ 0 # t) (c # name) = Inr (g\<lparr>SIP_field := v @ bzero (FIELD_SIZE - length v)\<rparr>)"
proof -
  have n: "0 \<notin> set name" "0 \<notin> set mid" "0 \<notin> set v" "0 \<notin> set post" using assms(2,7) by auto
  have d1: "drop (k + 1) (s @ 0 # t) = (name @ mid @ 34 # v @ 34 # post) @ 0 # t"
    using assms(2,3) by simp
  have f1: "find_sub (name @ mid @ 34 # v @ 34 # post) [34] = Some (length (name @ mid))"
    using find_char [of 34 "name @ mid" "v @ 34 # post"] assms(4,5) by simp
  have d2: "drop (k + 1 + (length (name @ mid) + 1)) (s @ 0 # t) = (v @ 34 # post) @ 0 # t"
    using assms(2,3) by simp
  have f2: "find_sub (v @ 34 # post) [34] = Some (length v)" using find_char assms(6) by simp
  have c: "cstr ((v @ 34 # post) @ 0 # t) = v @ 34 # post" by (rule cstr_nul) (use n in simp)
  have st: "strncpy (bzero FIELD_SIZE) ((v @ 34 # post) @ 0 # t) (length v) = Inr (v @ bzero (FIELD_SIZE - length v))"
    unfolding strncpy_def c using assms(8) by (simp add: mem_write_def bzero_def)
  have r: "read_str (s @ 0 # t) = Inr s" using assms(7) by simp
  have r1: "read_str ((name @ mid @ 34 # v @ 34 # post) @ 0 # t) = Inr (name @ mid @ 34 # v @ 34 # post)"
    by (rule read_str_nul) (use n in simp)
  have r2: "read_str ((v @ 34 # post) @ 0 # t) = Inr (v @ 34 # post)"
    by (rule read_str_nul) (use n in simp)
  show ?thesis
    unfolding GetParam_def strstr_def r bindR_Inr assms(1) option.case Let_def d1 r1
    by (simp only: f1 bindR_Inr option.case d2 r2 f2 st)
qed

text \<open>\<open>h\<close> holds \<open>name="v"\<close>, and the name nowhere before.\<close>

definition has_param :: "byte list \<Rightarrow> string \<Rightarrow> byte list \<Rightarrow> bool" where
  "has_param h name v \<longleftrightarrow> (\<exists>pre post. h = pre @ lit name @ [61, 34] @ v @ [34] @ post
     \<and> find_sub h (lit name) = Some (length pre))"

lemma has_param_chars: "has_param h name v \<Longrightarrow> c \<notin> set h \<Longrightarrow> c \<notin> set v"
  by (auto simp: has_param_def)

lemma take_param_ok:
  assumes "has_param h name v" "name \<noteq> []" "34 \<notin> set (lit name)" "34 \<notin> set v" "0 \<notin> set h" "length v < FIELD_SIZE"
    and "mess_auth (SIP_ans_mess g) = h @ 0 # t" "length dst = FIELD_SIZE"
  shows "\<exists>d. take_param name dst g = Inr (d, g\<lparr>SIP_field := v @ bzero (FIELD_SIZE - length v)\<rparr>)
    \<and> cstr d = v \<and> length d = FIELD_SIZE \<and> 0 \<in> set d"
proof -
  obtain pre post where h: "h = pre @ lit name @ [61, 34] @ v @ [34] @ post" "find_sub h (lit name) = Some (length pre)"
    using assms(1) by (auto simp: has_param_def)
  obtain c n where cn: "lit name = c # n" using assms(2) by (cases name) auto
  have g: "GetParam g (h @ 0 # t) (lit name) = Inr (g\<lparr>SIP_field := v @ bzero (FIELD_SIZE - length v)\<rparr>)"
    using GetParam_found [of h c n "length pre" pre "[61]" v post g t] h assms(3-6) cn by simp
  have nv: "0 \<notin> set v" using assms(5) h(1) by simp
  have f: "v @ bzero (FIELD_SIZE - length v) = v @ 0 # bzero (FIELD_SIZE - length v - 1)"
    using assms(6) by (cases "FIELD_SIZE - length v") (auto simp: bzero_def)
  have z: "0 \<in> set (v @ bzero (FIELD_SIZE - length v))" using assms(6) by simp
  have cv: "cstr (v @ bzero (FIELD_SIZE - length v)) = v" unfolding f by (rule cstr_nul [OF nv])
  obtain d where d: "strcpy dst (v @ bzero (FIELD_SIZE - length v)) = Inr d"
    using strcpy_ok [OF z, of dst] cv assms(6,8) by auto
  have "cstr d = v" "length d = FIELD_SIZE" "0 \<in> set d" using strcpy_Inr [OF d] cv assms(8) by auto
  then show ?thesis using g d assms(7) by (simp add: take_param_def)
qed

text \<open>Arguments of dialling size.\<close>

definition args_ok :: "sip_args \<Rightarrow> bool" where
  "args_ok a \<longleftrightarrow> (\<forall>p \<in> set [ownnumber a, phonenum a, ownip a, ownsipport a, serverip a, ownrtpport a].
       line_arg p \<and> length p < md5_limit)
     \<and> str_arg (ownpass a)
     \<and> length (cstr (ownnumber a)) \<le> 20 \<and> length (cstr (phonenum a)) \<le> 20 \<and> length (cstr (ownip a)) \<le> 15
     \<and> length (cstr (serverip a)) \<le> 15 \<and> length (cstr (ownsipport a)) \<le> 5 \<and> length (cstr (ownrtpport a)) \<le> 5"

lemma send_invite_ok:
  assumes a: "args_ok a" and auth: "line_arg auth" "length auth = 255"
    and r: "0 \<le> in_random inp" "in_random inp < 2 ^ 31" and c: "- (2 ^ 31) \<le> CSeq (glob s)" "CSeq (glob s) < 2 ^ 31"
    and b: "length (buf s) = BUFSIZE"
  shows "\<exists>s' msg hs body. send_invite a inp sock auth s = Inr s' \<and> trace s' = trace s @ [SipSend sock msg]
    \<and> g_bytes s' = in_sent inp \<and> length (buf s') = BUFSIZE \<and> CSeq (glob s') = CSeq (glob s)
    \<and> sip_split msg = Some (hs, body)
    \<and> lit ''CSeq: '' @ show_int (CSeq (glob s)) @ lit '' INVITE'' \<in> set hs
    \<and> (cstr auth \<noteq> [] \<longrightarrow> last hs = cstr auth \<and> body = sdp_text (ownip a) (ownrtpport a))"
proof -
  let ?t = "invite_text (glob s) (in_random inp) (ownnumber a) (phonenum a) auth (ownip a) (ownsipport a) (ownrtpport a) (serverip a)"
  have l: "line_arg (ownnumber a)" "line_arg (phonenum a)" "line_arg (ownip a)" "line_arg (ownsipport a)"
    "line_arg (serverip a)" "line_arg (ownrtpport a)" "0 \<in> set auth"
    using a auth(1) by (auto simp: args_ok_def line_arg_def)
  have len: "length ?t < BUFSIZE"
    by (rule invite_small [OF l]) (use a auth(2) r c in \<open>auto simp: args_ok_def\<close>)
  obtain g' hs body where g': "CreateInvite (glob s) (in_random inp) (ownnumber a) (phonenum a) auth (ownip a)
      (ownsipport a) (ownrtpport a) (serverip a) = Inr g'"
    and gg: "g'\<lparr>SIP_mess := SIP_mess (glob s)\<rparr> = glob s"
    and hs: "sip_split (cstr (SIP_mess g')) = Some (hs, body)"
      "lit ''CSeq: '' @ show_int (CSeq (glob s)) @ lit '' INVITE'' \<in> set hs"
      "cstr auth \<noteq> [] \<longrightarrow> last hs = cstr auth \<and> body = sdp_text (ownip a) (ownrtpport a)"
    using invite_framed [OF l(1-6) auth(1) len] by blast
  have m: "SIP_mess g' = filled ?t BUFSIZE"
    using g' invite_result [OF l, of "glob s" "in_random inp"] len by auto
  have nz: "0 \<in> set (SIP_mess g')" using len by (simp add: m filled_def)
  have lm: "length (cstr (SIP_mess g')) < length (buf s)"
    using cstr_length [OF nz] len b unfolding m by simp
  obtain bb where bb: "strcpy (buf s) (SIP_mess g') = Inr bb" using strcpy_ok [OF nz lm] by blast
  have cq: "CSeq g' = CSeq (glob s)" using gg by (metis sip_globals.select_convs(7) sip_globals.surjective sip_globals.update_convs(1))
  have "send_invite a inp sock auth s = Inr (s\<lparr>glob := g', buf := bb, g_bytes := in_sent inp,
      trace := trace s @ [SipSend sock (cstr (SIP_mess g'))]\<rparr>)"
    using strcpy_Inr [OF bb] by (simp add: send_invite_def g' send_mess_def bb read_str_ok)
  then show ?thesis using hs strcpy_Inr(1) [OF bb] b cq by auto
qed


lemma auth_text_chars:
  "0 \<notin> set own \<Longrightarrow> 0 \<notin> set r \<Longrightarrow> 0 \<notin> set n \<Longrightarrow> 0 \<notin> set u \<Longrightarrow> 0 \<notin> set d \<Longrightarrow> 0 \<notin> set (auth_text own r n u d)"
  "10 \<notin> set own \<Longrightarrow> 10 \<notin> set r \<Longrightarrow> 10 \<notin> set n \<Longrightarrow> 10 \<notin> set u \<Longrightarrow> 10 \<notin> set d \<Longrightarrow> 10 \<notin> set (auth_text own r n u d)"
  by (simp_all add: auth_text_def)

lemma invite_digest_chars: "0 \<notin> set (invite_digest a b c d e)" "10 \<notin> set (invite_digest a b c d e)"
  using hex_char_to_hex by (force simp: invite_digest_def hex_char_def)+

text \<open>Both parameters of a challenge are copied out, one after the other.\<close>

lemma params_taken:
  assumes "has_param h ''realm'' realm" "has_param h ''nonce'' nonce" "34 \<notin> set realm" "34 \<notin> set nonce" "0 \<notin> set h"
    and "length realm + length nonce < 255" "mess_auth (SIP_ans_mess g) = h @ 0 # t"
    and "length (SIP_realm g) = 255" "length (SIP_nonce g) = 255"
  shows "\<exists>d1 d2. take_param ''realm'' (SIP_realm g) g = Inr (d1, g\<lparr>SIP_field := realm @ bzero (FIELD_SIZE - length realm)\<rparr>)
    \<and> take_param ''nonce'' (SIP_nonce g) (g\<lparr>SIP_field := realm @ bzero (FIELD_SIZE - length realm), SIP_realm := d1\<rparr>)
      = Inr (d2, g\<lparr>SIP_realm := d1, SIP_field := nonce @ bzero (FIELD_SIZE - length nonce)\<rparr>)
    \<and> str_arg d1 \<and> str_arg d2 \<and> cstr d1 = realm \<and> cstr d2 = nonce"
proof -
  obtain d1 where d1: "take_param ''realm'' (SIP_realm g) g = Inr (d1, g\<lparr>SIP_field := realm @ bzero (FIELD_SIZE - length realm)\<rparr>)"
    "cstr d1 = realm" "length d1 = FIELD_SIZE" "0 \<in> set d1"
    using take_param_ok [OF assms(1) _ _ assms(3,5) _ assms(7), of "SIP_realm g"] assms(6,8) by (auto simp: FIELD_SIZE_def)
  define g1 where "g1 = g\<lparr>SIP_field := realm @ bzero (FIELD_SIZE - length realm), SIP_realm := d1\<rparr>"
  have m1: "mess_auth (SIP_ans_mess g1) = h @ 0 # t" using assms(7) by (simp add: g1_def)
  obtain d2 where d2: "take_param ''nonce'' (SIP_nonce g) g1 = Inr (d2, g1\<lparr>SIP_field := nonce @ bzero (FIELD_SIZE - length nonce)\<rparr>)"
    "cstr d2 = nonce" "length d2 = FIELD_SIZE" "0 \<in> set d2"
    using take_param_ok [OF assms(2) _ _ assms(4,5) _ m1, of "SIP_nonce g"] assms(6,9) by (auto simp: FIELD_SIZE_def)
  have "str_arg d1" "str_arg d2" using d1 d2 by (simp_all add: str_arg_def FIELD_SIZE_def md5_limit_def)
  moreover have "g1\<lparr>SIP_field := nonce @ bzero (FIELD_SIZE - length nonce)\<rparr>
      = g\<lparr>SIP_realm := d1, SIP_field := nonce @ bzero (FIELD_SIZE - length nonce)\<rparr>" by (simp add: g1_def)
  ultimately show ?thesis using d1(1,2) d2(1,2) unfolding g1_def by metis
qed


definition challenge_header :: "byte list" where
  "challenge_header = lit '' Digest realm='' @ [34] @ lit ''pbx'' @ [34] @ lit '', nonce='' @ [34] @ lit ''4f2a'' @ [34, 13]"

definition challenged :: sip_app where
  "challenged = demo_app\<lparr>glob := demo_globals\<lparr>SIP_ans_mess :=
     (SIP_ans_mess demo_globals)\<lparr>mess_auth := challenge_header @ bzero 215\<rparr>\<rparr>\<rparr>"

lemma demo_args_ok: "args_ok demo_args" "frame_ok (in_frame demo_input)"
  by (simp_all add: args_ok_def demo_args_def line_arg_def cs_def cstr_def str_arg_def md5_limit_def
      frame_ok_def demo_input_def blank_frame_def blank_ctx_def)


section \<open>Voice packets\<close>

lemma stream_loop_ok:
  assumes "0 \<le> bp" "bp \<le> int L" "L < length fb" "length fb < 2 ^ 32" "y \<le> 160" "length pkt = 1024"
  shows "stream_loop fb (int L) bp y pkt =
    (let n = min (L - nat bp) (160 - y)
     in Inr (bp + int n, y + n, take (12 + y) pkt @ take n (drop (Suc (nat bp)) fb) @ drop (12 + y + n) pkt))"
  using assms
proof (induction "160 - y" arbitrary: bp y pkt)
  case 0
  then show ?case by (simp add: stream_loop.simps)
next
  case (Suc k)
  show ?case
  proof (cases "bp < int L")
    case False
    then have "nat bp = L" using Suc.prems by auto
    then show ?thesis using False by (subst stream_loop.simps) simp
  next
    case True
    then have y: "y < 160" and b: "Suc (nat bp) \<le> L" using Suc by auto
    let ?v = "fb ! Suc (nat bp)"
    have n1: "nat (bp + 1) = Suc (nat bp)" using Suc.prems(1) by simp
    have r: "idx_read fb (bp + 1) = Inr [?v]"
      using Suc.prems(1,3,4) b by (simp add: idx_read_def n1 mem_read_def take_Suc_conv_app_nth hd_drop_conv_nth take_Suc)
    let ?pkt = "take (12 + y) pkt @ [?v] @ drop (Suc (12 + y)) pkt"
    have w: "mem_write (12 + y) [?v] pkt = Inr ?pkt" using y Suc.prems(6) by (simp add: mem_write_ok)
    have IH: "stream_loop fb (int L) (bp + 1) (Suc y) ?pkt =
      (let n = min (L - nat (bp + 1)) (160 - Suc y)
       in Inr (bp + 1 + int n, Suc y + n, take (12 + Suc y) ?pkt @ take n (drop (Suc (nat (bp + 1))) fb) @ drop (12 + Suc y + n) ?pkt))"
      by (rule Suc.hyps(1)) (use Suc True y in auto)
    define n where "n = min (L - Suc (nat bp)) (159 - y)"
    have n: "min (L - nat bp) (160 - y) = Suc n" "min (L - nat (bp + 1)) (160 - Suc y) = n"
    proof -
      have "L - nat bp = Suc (L - Suc (nat bp))" "160 - y = Suc (159 - y)" using b y by simp_all
      then show "min (L - nat bp) (160 - y) = Suc n" by (simp only: min_Suc_Suc n_def)
      show "min (L - nat (bp + 1)) (160 - Suc y) = n" by (simp add: n_def n1)
    qed
    have d: "drop (Suc (nat bp)) fb = ?v # drop (Suc (Suc (nat bp))) fb"
      using b Suc.prems(3) by (simp add: Cons_nth_drop_Suc)
    have p1: "take (12 + Suc y) ?pkt = take (12 + y) pkt @ [?v]" using y Suc.prems(6) by simp
    have p2: "drop (12 + Suc y + n) ?pkt = drop (12 + y + Suc n) pkt" using y Suc.prems(6) by (simp add: ac_simps)
    have "stream_loop fb (int L) bp y pkt = stream_loop fb (int L) (bp + 1) (Suc y) ?pkt"
      using True y by (subst stream_loop.simps) (simp only: r w bindR_Inr, simp)
    also have "\<dots> = Inr (bp + 1 + int n, Suc y + n, (take (12 + y) pkt @ [?v]) @ take n (drop (Suc (Suc (nat bp))) fb)
        @ drop (12 + y + Suc n) pkt)"
      unfolding IH Let_def n(2) unfolding n1 p1 p2 ..
    finally show ?thesis unfolding n Let_def d by simp
  qed
qed

text \<open>The payload that starts at offset \<open>b + 1\<close>, padded with zeros.\<close>

definition payload :: "byte list \<Rightarrow> nat \<Rightarrow> nat \<Rightarrow> byte list" where
  "payload f b m = take m (drop (Suc b) (f @ [0xFF]) @ replicate m 0)"

lemma length_pad: "length (take m (x @ replicate m z)) = m"
  by simp

lemma length_payload [simp]: "length (payload f b m) = m"
  unfolding payload_def by (rule length_pad)

lemma take_pad: "take m (x @ replicate (k + m) z) = take m (x @ replicate m z)"
proof -
  have "min (m - length x) (k + m) = min (m - length x) m" by linarith
  then show ?thesis by (simp only: take_append take_replicate)
qed

lemma take_pad_split:
  assumes "160 \<le> length x"
  shows "take (160 + m) (x @ replicate (160 + m) z) = take 160 (x @ replicate 160 z) @ take m (drop 160 x @ replicate m z)"
proof -
  have "take (160 + m) (x @ replicate (160 + m) z) = take 160 x @ take m (drop 160 x @ replicate (160 + m) z)"
    using assms by (simp only: take_add take_append drop_append) simp
  then show ?thesis using assms by (simp only: take_pad) simp
qed

lemma chunk_pad:
  assumes "n = min (length x) 160"
  shows "take n x @ bzero (160 - n) = take 160 (x @ replicate 160 0)"
  using assms by (cases "length x \<le> 160") (auto simp: bzero_def)

lemma payload_split:
  assumes "b + 160 < length f"
  shows "payload f b (160 + m) = payload f b 160 @ payload f (b + 160) m"
proof -
  have "160 \<le> length (drop (Suc b) (f @ [0xFF :: byte]))" using assms by simp
  moreover have "drop 160 (drop (Suc b) (f @ [0xFF :: byte])) = drop (Suc (b + 160)) (f @ [0xFF])"
    by (simp only: drop_drop) (simp add: add.commute)
  ultimately show ?thesis unfolding payload_def using take_pad_split by metis
qed

lemma payload_start: "f \<noteq> [] \<Longrightarrow> payload f 0 m = take m (tl f @ [0xFF] @ replicate m 0)"
  by (cases f) (simp_all add: payload_def)

text \<open>The packet one exchange builds.\<close>

lemma stream_packet:
  assumes "b < length f" "fb = f @ [0xFF] @ junk" "length fb = FILEBUFSIZE" "length h = 12"
  shows "\<exists>y pkt. stream_loop fb (int (length f)) (int b) 0 (h @ bzero 1012) = Inr (int (min (b + 160) (length f)), y, pkt)
    \<and> length pkt = BUFSIZE \<and> take 172 pkt = h @ payload f b 160"
proof -
  define n where "n = min (length f - b) 160"
  let ?q = "h @ bzero 1012" and ?chunk = "take n (drop (Suc b) fb)"
  have fb: "length f < length fb" "length fb < 2 ^ 32" using assms(2,3) by (simp_all add: FILEBUFSIZE_def)
  have n: "n \<le> 160" "int b + int n = int (min (b + 160) (length f))" using assms(1) by (simp_all add: n_def)
  have sl: "stream_loop fb (int (length f)) (int b) 0 ?q = Inr (int b + int n, n, take 12 ?q @ ?chunk @ drop (12 + n) ?q)"
    using stream_loop_ok [of "int b" "length f" fb 0 ?q] assms(1,4) fb by (simp add: Let_def n_def)
  have lc: "length ?chunk = n" using fb(1) assms(1) by (simp add: n_def)
  have ch: "?chunk = take n (drop (Suc b) (f @ [0xFF]))"
  proof -
    have "n \<le> length (drop (Suc b) (f @ [0xFF :: byte]))" "Suc b \<le> length (f @ [0xFF :: byte])"
      using assms(1) by (simp_all add: n_def)
    moreover have "drop (Suc b) fb = drop (Suc b) (f @ [0xFF]) @ junk"
      unfolding assms(2) using calculation(2) drop_append [of "Suc b" "f @ [0xFF]" junk] by simp
    ultimately show ?thesis by simp
  qed
  have "take 172 (h @ ?chunk @ bzero (1012 - n)) = h @ ?chunk @ bzero (160 - n)"
    using assms(4) lc n(1) by (simp add: bzero_def)
  also have "?chunk @ bzero (160 - n) = payload f b 160"
    unfolding ch payload_def by (rule chunk_pad) (use assms(1) in \<open>auto simp: n_def\<close>)
  finally have out: "take 172 (h @ ?chunk @ bzero (1012 - n)) = h @ payload f b 160" .
  have "take 12 ?q @ ?chunk @ drop (12 + n) ?q = h @ ?chunk @ bzero (1012 - n)"
    using assms(4) by (simp add: bzero_def)
  moreover have "length (h @ ?chunk @ bzero (1012 - n)) = BUFSIZE" using assms(4) lc n(1) by (simp add: BUFSIZE_def)
  ultimately show ?thesis using sl out n(2) by metis
qed

text \<open>One exchange while the file is being sent.\<close>

lemma exchange_sends:
  assumes d: "in_rtp inp = Some d" "d \<noteq> []"
    and mt: "mess_trans sc = 0" and bp: "buf_point sc = int b" "b < length f"
    and s: "filebuf s = f @ [0xFF] @ junk" "length (filebuf s) = FILEBUFSIZE" "fsize s = int (length f)"
    and r: "length (rtppacket s) = BUFSIZE"
  shows "\<exists>s' out. rtp_exchange inp s sc = Inr (s', sc\<lparr>buf_point := int (min (b + 160) (length f)),
      mess_trans := (if length f \<le> b + 160 then 1 else 0)\<rparr>)
    \<and> trace s' = trace s @ [RtpSend (RTP_data_sock sc) out] \<and> filebuf s' = filebuf s \<and> fsize s' = fsize s
    \<and> length (rtppacket s') = BUFSIZE \<and> out = take 12 out @ payload f b 160
    \<and> (12 \<le> length d \<longrightarrow> take 12 out = take 12 d) \<and> length out = 172"
proof -
  define p where "p = take BUFSIZE d"
  have p: "0 < length p" "length p \<le> BUFSIZE" using d(2) by (simp_all add: p_def BUFSIZE_def)
  define pk where "pk = p @ drop (length p) (rtppacket s)"
  have pk: "length pk = 1024" using p r by (simp add: pk_def BUFSIZE_def)
  define h where "h = take 12 pk"
  have h: "length h = 12" "mem_read 0 12 pk = Inr h" using pk by (simp_all add: h_def mem_read_def)
  have q: "mem_write 0 h (bzero BUFSIZE) = Inr (h @ bzero 1012)"
    using h(1) by (simp add: mem_write_ok BUFSIZE_def bzero_def)
  obtain y pkt where sl: "stream_loop (filebuf s) (fsize s) (buf_point sc) 0 (h @ bzero 1012) =
      Inr (int (min (b + 160) (length f)), y, pkt)" "length pkt = BUFSIZE" "take 172 pkt = h @ payload f b 160"
    using stream_packet [OF bp(2) s(1,2) h(1)] bp(1) s(3) by auto
  have rd: "mem_read 0 172 pkt = Inr (h @ payload f b 160)" using sl(2,3) by (simp add: mem_read_def BUFSIZE_def)
  have mt': "(if int (min (b + 160) (length f)) = fsize s then 1 else mess_trans sc) = (if length f \<le> b + 160 then 1 else 0)"
    using s(3) mt by auto
  have "rtp_exchange inp s sc = Inr (s\<lparr>payload_buf := bzero BUFSIZE, g_bytes := int (length p), rtpPacketHeader := h,
      rtppacket := pkt, g_y := int y, trace := trace s @ [RtpSend (RTP_data_sock sc) (h @ payload f b 160)]\<rparr>,
      sc\<lparr>buf_point := int (min (b + 160) (length f)), mess_trans := (if length f \<le> b + 160 then 1 else 0)\<rparr>)"
    unfolding rtp_exchange_def d(1) option.case Let_def p_def [symmetric] pk_def [symmetric]
    using p(1) mt mt' by (simp add: h(2) q sl(1) rd)
  moreover have "h = take 12 d" if "12 \<le> length d"
    using that by (simp add: h_def pk_def p_def BUFSIZE_def min_def)
  ultimately show ?thesis using sl(2) h(1) by simp
qed

text \<open>Any number of exchanges.\<close>

fun exchanges :: "sip_input list \<Rightarrow> sip_app \<Rightarrow> sip_call \<Rightarrow> (sip_app \<times> sip_call) res" where
  "exchanges [] s sc = Inr (s, sc)"
| "exchanges (inp # inps) s sc = bindR (rtp_exchange inp s sc) (\<lambda>(s, sc). exchanges inps s sc)"

lemma exchanges_send:
  assumes "\<forall>inp \<in> set inps. \<exists>d. in_rtp inp = Some d \<and> 12 \<le> length d" "inps \<noteq> []"
    and "mess_trans sc = 0" "buf_point sc = int b" "b + 160 * (length inps - 1) < length f"
    and "filebuf s = f @ [0xFF] @ junk" "length (filebuf s) = FILEBUFSIZE" "fsize s = int (length f)"
    and "length (rtppacket s) = BUFSIZE"
  shows "\<exists>s' sc' outs. exchanges inps s sc = Inr (s', sc')
    \<and> trace s' = trace s @ map (RtpSend (RTP_data_sock sc)) outs
    \<and> (\<forall>out \<in> set outs. length out = 172)
    \<and> map (take 12) outs = map (\<lambda>inp. take 12 (the (in_rtp inp))) inps
    \<and> concat (map (drop 12) outs) = payload f b (160 * length inps)
    \<and> (mess_trans sc' = 1 \<longleftrightarrow> length f \<le> b + 160 * length inps)"
  using assms
proof (induction inps arbitrary: s sc b)
  case (Cons inp inps)
  obtain d where d: "in_rtp inp = Some d" "12 \<le> length d" using Cons.prems(1) by auto
  then have ne: "d \<noteq> []" by auto
  have b: "b < length f" using Cons.prems(5) by simp
  let ?sc = "sc\<lparr>buf_point := int (min (b + 160) (length f)), mess_trans := (if length f \<le> b + 160 then 1 else 0)\<rparr>"
  obtain s1 out where e: "rtp_exchange inp s sc = Inr (s1, ?sc)"
    "trace s1 = trace s @ [RtpSend (RTP_data_sock sc) out]" "filebuf s1 = filebuf s" "fsize s1 = fsize s"
    "length (rtppacket s1) = BUFSIZE" "out = take 12 out @ payload f b 160" "take 12 out = take 12 d" "length out = 172"
    using exchange_sends [OF d(1) ne Cons.prems(3,4) b Cons.prems(6-9)] d(2) by auto
  have dr: "drop 12 out = payload f b 160"
    using e(6) e(8) by (metis append_take_drop_id same_append_eq)
  show ?case
  proof (cases "inps = []")
    case True
    then show ?thesis
      using e d dr by (intro exI [of _ s1] exI [of _ ?sc] exI [of _ "[out]"]) simp
  next
    case False
    then have lt: "b + 160 < length f" "b + 160 + 160 * (length inps - 1) < length f"
      using Cons.prems(5) by (cases inps; simp)+
    have pre: "\<forall>inp \<in> set inps. \<exists>d. in_rtp inp = Some d \<and> 12 \<le> length d" "mess_trans ?sc = 0"
      "buf_point ?sc = int (b + 160)" "filebuf s1 = f @ [0xFF] @ junk" "length (filebuf s1) = FILEBUFSIZE"
      "fsize s1 = int (length f)"
      using Cons.prems lt e(3,4) by simp_all
    obtain s' sc' outs where IH: "exchanges inps s1 ?sc = Inr (s', sc')"
      "trace s' = trace s1 @ map (RtpSend (RTP_data_sock ?sc)) outs" "\<forall>out \<in> set outs. length out = 172"
      "map (take 12) outs = map (\<lambda>inp. take 12 (the (in_rtp inp))) inps"
      "concat (map (drop 12) outs) = payload f (b + 160) (160 * length inps)"
      "mess_trans sc' = 1 \<longleftrightarrow> length f \<le> b + 160 + 160 * length inps"
      using Cons.IH [OF pre(1) False pre(2,3) lt(2) pre(4-6) e(5)] by blast
    have "payload f b (160 * length (inp # inps)) = payload f b 160 @ payload f (b + 160) (160 * length inps)"
      using payload_split [OF lt(1), of "160 * length inps"] by simp
    then show ?thesis
      using IH e d dr by (intro exI [of _ s'] exI [of _ sc'] exI [of _ "out # outs"]) (simp add: ac_simps)
  qed
qed simp

text \<open>
  C13: while the file lasts every received voice packet is answered with one packet of 172 bytes that
  repeats its RTP header; together these packets carry the file from its second byte on, then the
  byte FF that marked the end of the file, then zeros, and after them the call turns to recording.
\<close>

theorem stream_sends_file:
  assumes "\<forall>inp \<in> set inps. \<exists>d. in_rtp inp = Some d \<and> 12 \<le> length d" "inps \<noteq> []"
    and "mess_trans sc = 0" "buf_point sc = 0" "160 * (length inps - 1) < length f"
    and "filebuf s = f @ [0xFF] @ junk" "length (filebuf s) = FILEBUFSIZE" "fsize s = int (length f)"
    and "length (rtppacket s) = BUFSIZE"
  shows "\<exists>s' sc' outs. exchanges inps s sc = Inr (s', sc')
    \<and> trace s' = trace s @ map (RtpSend (RTP_data_sock sc)) outs
    \<and> (\<forall>out \<in> set outs. length out = 172)
    \<and> map (take 12) outs = map (\<lambda>inp. take 12 (the (in_rtp inp))) inps
    \<and> concat (map (drop 12) outs) = take (160 * length inps) (tl f @ [0xFF] @ replicate (160 * length inps) 0)
    \<and> (mess_trans sc' = 1 \<longleftrightarrow> length f \<le> 160 * length inps)"
proof -
  have "f \<noteq> []" using assms(5) by auto
  then show ?thesis
    using exchanges_send [OF assms(1,2,3) _ _ assms(6-9), of 0] assms(4,5) payload_start [of f] by simp
qed

definition packet_input :: sip_input where
  "packet_input = demo_input\<lparr>in_rtp := Some (replicate 172 7)\<rparr>"

definition voice_app :: sip_app where
  "voice_app = demo_app\<lparr>filebuf := replicate 100 65 @ [0xFF] @ bzero 511899, fsize := 100\<rparr>"

theorem stream_sends_file_witness:
  "\<exists>s' sc' outs. exchanges [packet_input] voice_app demo_call = Inr (s', sc')
    \<and> trace s' = map (RtpSend 4) outs
    \<and> concat (map (drop 12) outs) = replicate 99 65 @ [0xFF] @ replicate 60 0 \<and> mess_trans sc' = 1"
proof -
  let ?f = "replicate 100 65 :: byte list"
  have t: "take 160 (tl ?f @ [0xFF] @ replicate 160 0) = replicate 99 65 @ [0xFF] @ replicate 60 0"
    by simp
  have p: "\<forall>inp \<in> set [packet_input]. \<exists>d. in_rtp inp = Some d \<and> 12 \<le> length d" "[packet_input] \<noteq> []"
    "160 * (length [packet_input] - 1) < length ?f"
    by (simp_all add: packet_input_def)
  have c: "mess_trans demo_call = 0" "buf_point demo_call = 0" "RTP_data_sock demo_call = 4"
    by (simp_all add: demo_call_def)
  have v: "filebuf voice_app = ?f @ [0xFF] @ bzero 511899" "length (filebuf voice_app) = FILEBUFSIZE"
    "fsize voice_app = int (length ?f)" "length (rtppacket voice_app) = BUFSIZE" "trace voice_app = []"
    by (simp_all add: voice_app_def demo_app_def FILEBUFSIZE_def BUFSIZE_def)
  show ?thesis
    using stream_sends_file [OF p(1,2) c(1,2) p(3) v(1-4)] t c(3) v(5) by auto
qed

end
