(* ===== verification/Sip_App.thy ===== *)
theory Sip_App
  imports Sip_Media
begin

text \<open>
  The programs around a call: \<open>main_sip_call_Helen\<close> (\<open>sip_call.c\<close>), which opens the sockets and
  polls until the call is over, the test \<open>start_sip_test\<close> (\<open>Abarm_sip_test_app.c\<close>) and the client
  \<open>main\<close> (\<open>Abarm_app_main.c\<close>), which polls forever.
\<close>

section \<open>Setting up\<close>

text \<open>The target is little-endian.\<close>

definition htons :: "int \<Rightarrow> u16" where
  "htons p = (let w = of_int p in push_bit 8 w OR drop_bit 8 w)"

text \<open>
  \<open>inet\<close> stands for \<open>inet_addr\<close>, \<open>fd1\<close> and \<open>fd2\<close> for the results of \<open>socket\<close>, which may be -1;
  the results of \<open>bind\<close>, \<open>connect\<close> and \<open>fcntl\<close> are not looked at.
\<close>

definition helen_setup ::
  "sip_args \<Rightarrow> (byte list \<Rightarrow> u32) \<Rightarrow> int \<Rightarrow> int \<Rightarrow> sip_app \<Rightarrow> sip_call \<Rightarrow> (sip_app \<times> sip_call) res" where
  "helen_setup a inet fd1 fd2 s sc =
     (let sc = sc\<lparr>return_code := - 1, V := VYZOV_STATE_INIT, sip_state := SIP_SESSION_STATE_START,
                  buf_point := 0, call_end := 0\<rparr> in
      bindR (strcpy (REMOTE_SIP_IPADDR sc) (serverip a)) (\<lambda>remote.
      bindR (atoi (ownsipport a)) (\<lambda>lsip.
      bindR (atoi (ownrtpport a)) (\<lambda>lrtp.
      bindR (atoi (serversipport a)) (\<lambda>rsip.
      bindR (read_str (ownip a)) (\<lambda>own.
      bindR (read_str remote) (\<lambda>server.
      Inr (s\<lparr>trace := trace s @
               [Bind fd1 \<lparr>sin_port = htons lsip, sin_addr = inet own\<rparr>, NonBlock fd1,
                Connect fd1 \<lparr>sin_port = htons rsip, sin_addr = inet server\<rparr>,
                Bind fd2 \<lparr>sin_port = htons lrtp, sin_addr = inet own\<rparr>, NonBlock fd2]\<rparr>,
           sc\<lparr>REMOTE_SIP_IPADDR := remote, LOCAL_SIP_PORT := lsip, LOCAL_RTP_PORT := lrtp,
              REMOTE_SIP_PORT := rsip, sudp := fd1, RTP_data_sock := fd2\<rparr>))))))))"

definition main_sip_call_Helen ::
  "sip_args \<Rightarrow> (byte list \<Rightarrow> u32) \<Rightarrow> int \<Rightarrow> int \<Rightarrow> (nat \<Rightarrow> sip_input) \<Rightarrow> sip_app \<Rightarrow> sip_call
     \<Rightarrow> (sip_app \<times> int) res option" where
  "main_sip_call_Helen a inet fd1 fd2 inp s sc =
     (case helen_setup a inet fd1 fd2 s sc of
        Inl e \<Rightarrow> Some (Inl e)
      | Inr st \<Rightarrow> map_option (\<lambda>r. bindR r (\<lambda>(s, sc). Inr (s, return_code sc))) (helen_loop a inp 0 st))"

text \<open>
  The set-up the two programs share: any local address; \<open>err("socket")\<close> passes a string where the exit
  status is expected and no format.
\<close>

definition test_setup ::
  "byte list \<Rightarrow> int \<Rightarrow> (byte list \<Rightarrow> u32) \<Rightarrow> int \<Rightarrow> int \<Rightarrow> sip_app \<Rightarrow> sip_call \<Rightarrow> (sip_app \<times> sip_call) res" where
  "test_setup server lrtp inet fd1 fd2 s sc =
     (let sc = sc\<lparr>V := VYZOV_STATE_INIT, sip_state := SIP_SESSION_STATE_START, buf_point := 0, call_end := 0\<rparr> in
      bindR (strcpy (REMOTE_SIP_IPADDR sc) server) (\<lambda>remote.
      if fd1 = - 1 \<or> fd2 = - 1 then Inl NullPointer
      else
        bindR (read_str remote) (\<lambda>ip.
        Inr (s\<lparr>trace := trace s @
                 [Bind fd1 \<lparr>sin_port = htons 5060, sin_addr = 0\<rparr>, NonBlock fd1,
                  Connect fd1 \<lparr>sin_port = htons 5060, sin_addr = inet ip\<rparr>,
                  Bind fd2 \<lparr>sin_port = htons lrtp, sin_addr = 0\<rparr>, NonBlock fd2]\<rparr>,
             sc\<lparr>REMOTE_SIP_IPADDR := remote, LOCAL_SIP_PORT := 5060, LOCAL_RTP_PORT := lrtp,
                REMOTE_SIP_PORT := 5060, sudp := fd1, RTP_data_sock := fd2\<rparr>))))"

text \<open>
  The test sets up two calls of its own, which it never makes, and then makes a third; its result is
  dropped, and the function returns no value.
\<close>

definition test_args :: sip_args where
  "test_args = \<lparr>ownnumber = cs ''215'', ownpass = cs ''215test'', ownip = cs ''192.168.255.107'',
     ownsipport = cs ''5060'', ownrtpport = cs ''22222'', serverip = cs ''192.168.255.134'',
     serversipport = cs ''5060'', phonenum = cs ''212'', ofname = cs ''bu811.wav'', ifname = cs ''input1.wav''\<rparr>"

definition start_sip_test ::
  "(byte list \<Rightarrow> u32) \<Rightarrow> (nat \<Rightarrow> int) \<Rightarrow> (nat \<Rightarrow> sip_input) \<Rightarrow> sip_app \<Rightarrow> sip_call \<Rightarrow> sip_call \<Rightarrow> sip_call
     \<Rightarrow> sip_app res option" where
  "start_sip_test inet fd inp s scall1 scall2 scall3 =
     (case bindR (test_setup (cs ''192.168.255.134'') 22222 inet (fd 0) (fd 1) s scall1) (\<lambda>(s, scall1).
           test_setup (cs ''192.168.255.134'') 22223 inet (fd 2) (fd 3) s scall2) of
        Inl e \<Rightarrow> Some (Inl e)
      | Inr (s, scall2) \<Rightarrow>
          map_option (\<lambda>r. bindR r (\<lambda>(s, code). Inr s))
            (main_sip_call_Helen test_args inet (fd 4) (fd 5) inp s scall3))"

text \<open>The client polls forever.\<close>

partial_function (option) app_loop ::
  "sip_args \<Rightarrow> (nat \<Rightarrow> sip_input) \<Rightarrow> nat \<Rightarrow> sip_app \<times> sip_call \<Rightarrow> (sip_app \<times> sip_call) res option" where
  "app_loop a inp n st =
     (case main_sip_call a (inp n) (fst st) (snd st) of
        Inl e \<Rightarrow> Some (Inl e)
      | Inr (st', fStop) \<Rightarrow> app_loop a inp (Suc n) st')"

definition client_args :: sip_args where
  "client_args = \<lparr>ownnumber = cs ''toto'', ownpass = cs '''', ownip = cs ''192.168.255.52'',
     ownsipport = cs ''5060'', ownrtpport = cs ''22222'', serverip = cs ''172.24.3.1'',
     serversipport = cs ''5060'', phonenum = cs ''*60'', ofname = cs ''bu811.wav'', ifname = cs ''input1.wav''\<rparr>"

definition app_main ::
  "(byte list \<Rightarrow> u32) \<Rightarrow> int \<Rightarrow> int \<Rightarrow> (nat \<Rightarrow> sip_input) \<Rightarrow> sip_app \<Rightarrow> sip_call \<Rightarrow> (sip_app \<times> sip_call) res option" where
  "app_main inet fd1 fd2 inp s sc =
     (case test_setup (cs ''172.24.3.1'') 22222 inet fd1 fd2 s sc of
        Inl e \<Rightarrow> Some (Inl e)
      | Inr st \<Rightarrow> app_loop client_args inp 0 st)"

section \<open>Runs of the polling loop\<close>

text \<open>A returning loop has made a run that ends in the end state.\<close>

lemma helen_loop_run:
  assumes "helen_loop a inp n st = Some (Inr st')" "call_run a st0 st"
  shows "call_run a st0 st' \<and> V (snd st') = VYZOV_STATE_END"
proof -
  have "\<forall>st'. r = Inr st' \<longrightarrow> call_run a st0 st \<longrightarrow> call_run a st0 st' \<and> V (snd st') = VYZOV_STATE_END"
    if "helen_loop a inp n st = Some r" for r
  proof (rule helen_loop.raw_induct [where P = "\<lambda>a inp n st r. \<forall>st'. r = Inr st' \<longrightarrow> call_run a st0 st \<longrightarrow>
        call_run a st0 st' \<and> V (snd st') = VYZOV_STATE_END", OF _ that])
    fix loop :: "sip_args \<Rightarrow> (nat \<Rightarrow> sip_input) \<Rightarrow> nat \<Rightarrow> sip_app \<times> sip_call \<Rightarrow> (sip_app \<times> sip_call) res option"
      and a inp n st r
    assume IH: "\<And>a inp n st r. loop a inp n st = Some r \<Longrightarrow> \<forall>st'. r = Inr st' \<longrightarrow> call_run a st0 st \<longrightarrow>
        call_run a st0 st' \<and> V (snd st') = VYZOV_STATE_END"
      and step: "(case main_sip_call a (inp n) (fst st) (snd st) of Inl e \<Rightarrow> Some (Inl e)
        | Inr (st', fStop) \<Rightarrow> if fStop then Some (Inr st') else loop a inp (Suc n) st') = Some r"
    show "\<forall>st'. r = Inr st' \<longrightarrow> call_run a st0 st \<longrightarrow> call_run a st0 st' \<and> V (snd st') = VYZOV_STATE_END"
    proof (intro allI impI)
      fix st' assume r: "r = Inr st'" and run: "call_run a st0 st"
      obtain st1 fStop where m: "main_sip_call a (inp n) (fst st) (snd st) = Inr (st1, fStop)"
        using step r by (auto split: sum.splits)
      have run1: "call_run a st0 st1" by (rule call_run.pass [OF run m])
      show "call_run a st0 st' \<and> V (snd st') = VYZOV_STATE_END"
      proof (cases fStop)
        case True
        then have "st' = st1" using step r m by simp
        moreover have "V (snd st1) = VYZOV_STATE_END"
          using m True by (auto simp: main_sip_call_def elim!: bindR_InrE split: VYZOV_STATE.splits if_splits)
        ultimately show ?thesis using run1 by simp
      next
        case False
        then have "loop a inp (Suc n) st1 = Some r" using step m by simp
        then show ?thesis using IH r run1 by blast
      qed
    qed
  qed
  then show ?thesis using assms by blast
qed

lemma loop_pass:
  "main_sip_call a (inp n) s sc = Inr (st, False) \<Longrightarrow> helen_loop a inp n (s, sc) = helen_loop a inp (Suc n) st"
  by (subst helen_loop.simps) simp

text \<open>A call that waits for the answer to its INVITE.\<close>

definition waiting :: "sip_app \<times> sip_call \<Rightarrow> bool" where
  "waiting st \<longleftrightarrow> V (snd st) = VYZOV_STATE_START \<and> call_end (snd st) \<noteq> 1
     \<and> sip_state (snd st) = SIP_SESSION_STATE_INVITE_SENDED"

lemma silent_pass:
  assumes "waiting (s, sc)" "in_sip inp = None"
  shows "main_sip_call a inp s sc = Inr ((s\<lparr>g_bytes := - 1\<rparr>, sc), False)"
  using assms by (simp add: waiting_def main_sip_call_def Vyzov_sip_def invite_sended_def recv_sip_def Let_def)

lemma silent_loop:
  assumes "waiting (s, sc)" "\<forall>m. n \<le> m \<and> m < n + k \<longrightarrow> in_sip (inp m) = None" "0 < k"
  shows "helen_loop a inp n (s, sc) = helen_loop a inp (n + k) (s\<lparr>g_bytes := - 1\<rparr>, sc)"
  using assms
proof (induction k arbitrary: n s)
  case (Suc k)
  have p: "main_sip_call a (inp n) s sc = Inr ((s\<lparr>g_bytes := - 1\<rparr>, sc), False)"
    by (rule silent_pass) (use Suc.prems in auto)
  have u: "helen_loop a inp n (s, sc) = helen_loop a inp (Suc n) (s\<lparr>g_bytes := - 1\<rparr>, sc)"
    by (subst helen_loop.simps) (simp add: p)
  have w: "waiting (s\<lparr>g_bytes := - 1\<rparr>, sc)" using Suc.prems(1) by (simp add: waiting_def)
  show ?case
  proof (cases "k = 0")
    case False
    then show ?thesis using Suc.IH [OF w, of "Suc n"] Suc.prems(2) u by simp
  qed (use u in simp)
qed simp

text \<open>The last passes of a call: sockets closed, end announced, loop left.\<close>

lemma completed_loop:
  assumes "V sc = VYZOV_STATE_START" "call_end sc \<noteq> 1" "sip_state sc = SIP_SESSION_STATE_BYE_COMPLETED"
  shows "helen_loop a inp n (s, sc) = Some (Inr (s\<lparr>trace := trace s @ [Close (sudp sc), Close (RTP_data_sock sc)]\<rparr>,
    sc\<lparr>call_end := 1, V := VYZOV_STATE_END\<rparr>))"
proof -
  let ?s = "s\<lparr>trace := trace s @ [Close (sudp sc), Close (RTP_data_sock sc)]\<rparr>"
  have "helen_loop a inp n (s, sc) = helen_loop a inp (Suc n) (?s, sc\<lparr>call_end := 1\<rparr>)"
    by (subst helen_loop.simps) (simp add: main_sip_call_def Vyzov_sip_def assms)
  also have "\<dots> = helen_loop a inp (Suc (Suc n)) (?s, sc\<lparr>call_end := 1, V := VYZOV_STATE_CLOSE\<rparr>)"
    by (subst helen_loop.simps) (simp add: main_sip_call_def assms)
  also have "\<dots> = helen_loop a inp (Suc (Suc (Suc n))) (?s, sc\<lparr>call_end := 1, V := VYZOV_STATE_END\<rparr>)"
    by (subst helen_loop.simps) (simp add: main_sip_call_def)
  also have "\<dots> = Some (Inr (?s, sc\<lparr>call_end := 1, V := VYZOV_STATE_END\<rparr>))"
    by (subst helen_loop.simps) (simp add: main_sip_call_def)
  finally show ?thesis .
qed

lemma refused_loop:
  assumes "V sc = VYZOV_STATE_START" "call_end sc \<noteq> 1" "sip_state sc = SIP_SESSION_STATE_INVITE_SENDED"
    and "\<forall>m. n \<le> m \<and> m < n + k \<longrightarrow> in_sip (inp m) = None"
    and "in_sip (inp (n + k)) \<noteq> None" "parse_buf (inp (n + k)) (recv_sip (inp (n + k)) s) = Inr s1"
    and "m = SIP_ans_mess (glob s1)" "mess_code m \<notin> {100, 180, 200, 401}"
    and "fields_ok m" "0 \<in> set (phonenum a)" "0 \<in> set (serverip a)" "0 \<in> set (ifname a)"
    and "ack = framed (ack_text m (cstr (phonenum a)) (cstr (serverip a))) @ crlf" "length ack < BUFSIZE"
    and "length (cstr (ifname a)) < length (IFilename s1)"
  shows "\<exists>s' sc'. helen_loop a inp n (s, sc) = Some (Inr (s', sc')) \<and> return_code sc' = 2
    \<and> V sc' = VYZOV_STATE_END
    \<and> trace s' = trace s @ [SipSend (sudp sc) ack, Close (sudp sc), Close (RTP_data_sock sc)]"
proof -
  define s0 where "s0 = (if k = 0 then s else s\<lparr>g_bytes := - 1\<rparr>)"
  have l: "helen_loop a inp n (s, sc) = helen_loop a inp (n + k) (s0, sc)"
    using silent_loop [of s sc n k inp a] assms(1-4) by (cases "k = 0") (simp_all add: s0_def waiting_def)
  have t: "trace s0 = trace s" by (simp add: s0_def)
  have r: "recv_sip (inp (n + k)) s0 = recv_sip (inp (n + k)) s"
    using assms(5) by (auto simp: recv_sip_def s0_def Let_def)
  let ?sc = "sc\<lparr>sip_state := SIP_SESSION_STATE_BYE_COMPLETED, return_code := 2\<rparr>"
  obtain s2 where s2: "invite_sended a (inp (n + k)) s0 sc = Inr (s2, ?sc)" "trace s2 = trace s @ [SipSend (sudp sc) ack]"
    using answer_dispatch [OF assms(5) _ assms(7,9-15), of s0 sc] assms(6,8) r t by auto
  have "helen_loop a inp (n + k) (s0, sc) = helen_loop a inp (Suc (n + k)) (s2, ?sc)"
    by (subst helen_loop.simps) (simp add: main_sip_call_def Vyzov_sip_def assms(1-3) s2(1))
  also have "\<dots> = Some (Inr (s2\<lparr>trace := trace s2 @ [Close (sudp ?sc), Close (RTP_data_sock ?sc)]\<rparr>,
      ?sc\<lparr>call_end := 1, V := VYZOV_STATE_END\<rparr>))"
    by (rule completed_loop) (use assms(1,2) in simp_all)
  finally show ?thesis unfolding l by (simp add: s2(2))
qed


text \<open>A file of at most 54 bytes is not read, but the call goes on.\<close>

lemma short_file_init:
  assumes "V sc = VYZOV_STATE_INIT" "in_file inp 0 = Some f" "length f \<le> 54"
    and "0 \<in> set (ofname a)" "length (cstr (ofname a)) < length (OFilename s)" "7 \<le> length (CallID s)"
  shows "\<exists>fn ci. main_sip_call a inp s sc = Inr ((s\<lparr>OFilename := fn, fsize := int (length f), g_c := 0, g_y := 0,
      ofile := ClosedFile, CallID := ci\<rparr>,
    sc\<lparr>return_code := 1, call_end := 0, mess_trans := 0, V := VYZOV_STATE_START\<rparr>), False)"
proof -
  have c: "cstr (cs ''loniis'') = lit ''loniis''" "0 \<in> set (cs ''loniis'')" by (simp_all add: cs_def cstr_def)
  have l: "length (cstr (cs ''loniis'')) < length (CallID s)" unfolding c(1) using assms(6) by simp
  show ?thesis
    using strcpy_ok [OF assms(4,5)] strcpy_ok [OF c(2) l] assms(1-3)
    by (simp add: main_sip_call_def call_init_def open_loop.simps [of _ 0] WAV_HEADER_def) blast
qed

text \<open>The first two passes: the file is read and the INVITE sent.\<close>

lemma call_begins:
  assumes "V sc = VYZOV_STATE_INIT" "sip_state sc = SIP_SESSION_STATE_START" "in_file (inp n) 0 = Some f" "length f \<le> 54"
    and "0 \<in> set (ofname a)" "length (cstr (ofname a)) < length (OFilename s)" "7 \<le> length (CallID s)" "args_ok a"
    and "line_arg (Auth_String (glob s))" "length (Auth_String (glob s)) = 255"
    and "0 \<le> in_random (inp (Suc n))" "in_random (inp (Suc n)) < 2 ^ 31" "0 < in_sent (inp (Suc n))"
    and "- (2 ^ 31) \<le> CSeq (glob s)" "CSeq (glob s) < 2 ^ 31" "length (buf s) = BUFSIZE"
  shows "\<exists>s' sc'. helen_loop a inp n (s, sc) = helen_loop a inp (Suc (Suc n)) (s', sc') \<and> waiting (s', sc')
    \<and> length (buf s') = BUFSIZE \<and> IFilename s' = IFilename s"
proof -
  obtain fn ci where p0: "main_sip_call a (inp n) s sc = Inr ((s\<lparr>OFilename := fn, fsize := int (length f), g_c := 0, g_y := 0,
      ofile := ClosedFile, CallID := ci\<rparr>,
      sc\<lparr>return_code := 1, call_end := 0, mess_trans := 0, V := VYZOV_STATE_START\<rparr>), False)" (is "_ = Inr ((?s1, ?sc1), False)")
    using short_file_init [OF assms(1,3,4-7)] by blast
  have g: "glob ?s1 = glob s" "length (buf ?s1) = BUFSIZE" using assms(16) by simp_all
  obtain s2 where s2: "send_invite a (inp (Suc n)) (sudp ?sc1) (Auth_String (glob ?s1)) ?s1 = Inr s2"
    "g_bytes s2 = in_sent (inp (Suc n))" "length (buf s2) = BUFSIZE"
    using send_invite_ok [OF assms(8) _ _ assms(11,12) _ _ g(2), of "Auth_String (glob ?s1)" "sudp ?sc1"] assms(9,10,14,15)
    unfolding g(1) by blast
  have "IFilename s2 = IFilename s"
    using s2(1) unfolding send_invite_def send_mess_def by (auto elim!: bindR_InrE)
  moreover have p1: "main_sip_call a (inp (Suc n)) ?s1 ?sc1 = Inr ((s2, ?sc1\<lparr>sip_state := SIP_SESSION_STATE_INVITE_SENDED\<rparr>), False)"
    using s2 assms(2,13) by (simp add: main_sip_call_def Vyzov_sip_def)
  have "helen_loop a inp n (s, sc) = helen_loop a inp (Suc (Suc n)) (s2, ?sc1\<lparr>sip_state := SIP_SESSION_STATE_INVITE_SENDED\<rparr>)"
    using loop_pass [where inp = inp and n = n, OF p0] loop_pass [where inp = inp and n = "Suc n", OF p1] by simp
  ultimately show ?thesis using s2(3)
    by (intro exI [of _ s2] exI [of _ "?sc1\<lparr>sip_state := SIP_SESSION_STATE_INVITE_SENDED\<rparr>"]) (simp add: waiting_def)
qed

lemma demo_setup:
  "\<exists>r. helen_setup demo_args (\<lambda>_. 0) 3 4 (demo_app\<lparr>trace := t\<rparr>) demo_call = Inr (demo_app\<lparr>trace := t @
      [Bind 3 \<lparr>sin_port = htons 5060, sin_addr = 0\<rparr>, NonBlock 3, Connect 3 \<lparr>sin_port = htons 5060, sin_addr = 0\<rparr>,
       Bind 4 \<lparr>sin_port = htons 22222, sin_addr = 0\<rparr>, NonBlock 4]\<rparr>, demo_call\<lparr>REMOTE_SIP_IPADDR := r\<rparr>)"
proof -
  have n: "atoi (cs ''5060'') = Inr 5060" "atoi (cs ''22222'') = Inr 22222"
    by (simp_all add: atoi_def cs_def is_space_def is_digit_def)
  have z: "0 \<in> set (cs ''192.168.255.134'')" "length (cstr (cs ''192.168.255.134'')) < length (bzero 20)"
    by (simp_all add: cs_def cstr_def)
  obtain r where r: "strcpy (bzero 20) (cs ''192.168.255.134'') = Inr r" using strcpy_ok [OF z] by blast
  have "0 \<in> set r" by (rule strcpy_Inr(2) [OF r])
  then have rs: "\<exists>x. read_str r = Inr x" by (simp add: read_str_ok)
  have o: "\<exists>x. read_str (cs ''192.168.255.107'') = Inr x" by (simp add: cs_def read_str_ok)
  show ?thesis
    unfolding helen_setup_def using r rs o
    by (auto simp: demo_args_def demo_call_def demo_app_def n simp del: lit_simps)
qed

lemma demo_ack:
  "fields_ok (parsed 486 (bzero 20) [])" "mess_code (parsed 486 (bzero 20) []) \<notin> {100, 180, 200, 401}"
  "0 \<in> set (phonenum demo_args)" "0 \<in> set (serverip demo_args)" "0 \<in> set (ifname demo_args)"
  "length (cstr (ifname demo_args)) = 10"
  "length (framed (ack_text (parsed 486 (bzero 20) []) (cstr (phonenum demo_args)) (cstr (serverip demo_args))) @ crlf) < BUFSIZE"
proof -
  have f: "field_of [] n = bzero 255" for n by (simp add: field_of_def FIELD_SIZE_def)
  show "fields_ok (parsed 486 (bzero 20) [])" "mess_code (parsed 486 (bzero 20) []) \<notin> {100, 180, 200, 401}"
    by (simp_all add: fields_ok_def parsed_def f)
  have a: "cstr (phonenum demo_args) = lit ''212''" "cstr (serverip demo_args) = lit ''192.168.255.134''"
    by (simp_all add: demo_args_def cs_def cstr_def)
  show "0 \<in> set (phonenum demo_args)" "0 \<in> set (serverip demo_args)" "0 \<in> set (ifname demo_args)"
    "length (cstr (ifname demo_args)) = 10"
    by (simp_all add: demo_args_def cs_def cstr_def)
  have n: "length (show_int 0) = 1" by (simp add: show_int_def show_base.simps)
  show "length (framed (ack_text (parsed 486 (bzero 20) []) (cstr (phonenum demo_args)) (cstr (serverip demo_args))) @ crlf) < BUFSIZE"
    by (simp add: a framed_def ack_text_def parsed_def f BUFSIZE_def n del: lit_simps)
qed

lemma demo_app_trace: "demo_app\<lparr>trace := []\<rparr> = demo_app"
  by (simp add: demo_app_def)

definition refused_inputs :: "nat \<Rightarrow> sip_input" where
  "refused_inputs n = (if n < 2 then demo_input else demo_input\<lparr>in_sip := Some (busy @ bzero 999)\<rparr>)"

lemma refused_begins:
  "\<exists>s' sc'. helen_loop demo_args refused_inputs 0 (demo_app\<lparr>trace := tr\<rparr>, demo_call\<lparr>REMOTE_SIP_IPADDR := r\<rparr>) =
      helen_loop demo_args refused_inputs 2 (s', sc')
    \<and> waiting (s', sc') \<and> length (buf s') = BUFSIZE \<and> IFilename s' = bzero 255"
proof -
  let ?s = "demo_app\<lparr>trace := tr\<rparr>" and ?sc = "demo_call\<lparr>REMOTE_SIP_IPADDR := r\<rparr>"
  have i: "V ?sc = VYZOV_STATE_INIT" "sip_state ?sc = SIP_SESSION_STATE_START"
    "in_file (refused_inputs 0) 0 = Some (replicate 10 65)" "length (replicate 10 (65 :: byte)) \<le> 54" "0 \<in> set (ofname demo_args)"
    "length (cstr (ofname demo_args)) < length (OFilename ?s)" "7 \<le> length (CallID ?s)"
    by (simp_all add: demo_call_def refused_inputs_def demo_input_def demo_args_def demo_app_def cs_def cstr_def)
  have "line_arg (Auth_String (glob ?s))" "length (Auth_String (glob ?s)) = 255"
    "0 \<le> in_random (refused_inputs (Suc 0))" "in_random (refused_inputs (Suc 0)) < 2 ^ 31" "0 < in_sent (refused_inputs (Suc 0))"
    "- (2 ^ 31) \<le> CSeq (glob ?s)" "CSeq (glob ?s) < 2 ^ 31" "length (buf ?s) = BUFSIZE"
    by (simp_all add: demo_app_def demo_globals_def line_arg_def refused_inputs_def demo_input_def BUFSIZE_def)
  from call_begins [OF i demo_args_ok(1) this] show ?thesis by (simp add: demo_app_def numeral_2_eq_2)
qed

lemma demo_call_refused:
  "\<exists>s'. main_sip_call_Helen demo_args (\<lambda>_. 0) 3 4 refused_inputs (demo_app\<lparr>trace := t\<rparr>) demo_call = Some (Inr (s', 2))"
proof -
  obtain r tr where s0: "helen_setup demo_args (\<lambda>_. 0) 3 4 (demo_app\<lparr>trace := t\<rparr>) demo_call =
      Inr (demo_app\<lparr>trace := tr\<rparr>, demo_call\<lparr>REMOTE_SIP_IPADDR := r\<rparr>)"
    using demo_setup by blast
  obtain s2 sc2 where b: "helen_loop demo_args refused_inputs 0 (demo_app\<lparr>trace := tr\<rparr>, demo_call\<lparr>REMOTE_SIP_IPADDR := r\<rparr>) =
      helen_loop demo_args refused_inputs 2 (s2, sc2)" "waiting (s2, sc2)" "length (buf s2) = BUFSIZE" "IFilename s2 = bzero 255"
    using refused_begins by blast
  let ?inp = "refused_inputs (2 + 0)"
  have inp: "in_sip ?inp = Some (busy @ bzero 999)" "in_after ?inp = [0]"
    by (simp_all add: refused_inputs_def demo_input_def)
  note inp2 = inp [simplified]
  have lb: "length busy = 25" by (simp add: busy_def message_def headers_text_def)
  have "take BUFSIZE (busy @ bzero 999) = busy @ bzero 999" by (simp add: BUFSIZE_def lb)
  then have "buf (recv_sip ?inp s2) = busy @ bzero (Suc 998)"
    using b(3) lb by (simp add: recv_sip_def inp2 Let_def BUFSIZE_def)
  moreover have "bzero (Suc 998) = 0 # bzero 998" unfolding bzero_def by (rule replicate_Suc)
  ultimately have "\<exists>t. buf (recv_sip ?inp s2) = busy @ 0 # t" by simp
  note parse = busy_parsed [OF _ this]
  define s3 where "s3 = (recv_sip ?inp s2)\<lparr>glob := (glob s2)\<lparr>SIP_field := bzero FIELD_SIZE,
    SIP_ans_mess := parsed 486 (bzero 20) []\<rparr>\<rparr>"
  have p: "parse_buf ?inp (recv_sip ?inp s2) = Inr s3" unfolding s3_def by (rule parse) (simp add: inp2)
  have s3: "parsed 486 (bzero 20) [] = SIP_ans_mess (glob s3)" "IFilename s3 = bzero 255"
    using b(4) by (simp_all add: s3_def recv_sip_def Let_def split: option.splits)
  have w: "V sc2 = VYZOV_STATE_START" "call_end sc2 \<noteq> 1" "sip_state sc2 = SIP_SESSION_STATE_INVITE_SENDED"
    using b(2) by (simp_all add: waiting_def)
  have fl: "length (cstr (ifname demo_args)) < length (IFilename s3)" unfolding s3(2) demo_ack(6) by simp
  have k0: "\<forall>m. 2 \<le> m \<and> m < 2 + 0 \<longrightarrow> in_sip (refused_inputs m) = None" by auto
  have nn: "in_sip (refused_inputs (2 + 0)) \<noteq> None" using inp2 by simp
  obtain s' sc' where "helen_loop demo_args refused_inputs 2 (s2, sc2) = Some (Inr (s', sc'))" "return_code sc' = 2"
    using refused_loop [OF w k0 nn p s3(1) demo_ack(2,1,3-5) refl demo_ack(7) fl] inp by auto
  then show ?thesis by (simp add: main_sip_call_Helen_def s0 b(1))
qed

section \<open>Properties\<close>

text \<open>
  C29: there is no timeout: when the server stays silent after the INVITE, the loop never returns.
\<close>

theorem silence_never_returns:
  assumes "V sc = VYZOV_STATE_START" "call_end sc \<noteq> 1" "sip_state sc = SIP_SESSION_STATE_INVITE_SENDED"
    and "\<forall>m \<ge> n. in_sip (inp m) = None"
  shows "helen_loop a inp n (s, sc) = None"
proof -
  have ne: "\<not> (waiting st \<and> (\<forall>m \<ge> n. in_sip (inp m) = None))" if "helen_loop a inp n st = Some r" for a inp n st r
  proof (rule helen_loop.raw_induct
      [where P = "\<lambda>a inp n st r. \<not> (waiting st \<and> (\<forall>m \<ge> n. in_sip (inp m) = None))", OF _ that])
    fix loop :: "sip_args \<Rightarrow> (nat \<Rightarrow> sip_input) \<Rightarrow> nat \<Rightarrow> sip_app \<times> sip_call \<Rightarrow> (sip_app \<times> sip_call) res option"
      and a inp n st r
    assume IH: "\<And>a inp n st r. loop a inp n st = Some r \<Longrightarrow> \<not> (waiting st \<and> (\<forall>m \<ge> n. in_sip (inp m) = None))"
      and step: "(case main_sip_call a (inp n) (fst st) (snd st) of Inl e \<Rightarrow> Some (Inl e)
        | Inr (st', fStop) \<Rightarrow> if fStop then Some (Inr st') else loop a inp (Suc n) st') = Some r"
    show "\<not> (waiting st \<and> (\<forall>m \<ge> n. in_sip (inp m) = None))"
    proof
      assume w: "waiting st \<and> (\<forall>m \<ge> n. in_sip (inp m) = None)"
      obtain s sc where st: "st = (s, sc)" by (cases st)
      have "loop a inp (Suc n) (s\<lparr>g_bytes := - 1\<rparr>, sc) = Some r"
        using step silent_pass [of s sc "inp n" a] w st by simp
      from IH [OF this] show False using w st by (auto simp: waiting_def)
    qed
  qed
  show ?thesis
    using ne [of a inp n "(s, sc)"] assms by (cases "helen_loop a inp n (s, sc)") (auto simp: waiting_def)
qed

theorem silence_never_returns_witness:
  "helen_loop demo_args (\<lambda>n. demo_input) 0
     (demo_app, demo_call\<lparr>V := VYZOV_STATE_START, sip_state := SIP_SESSION_STATE_INVITE_SENDED\<rparr>) = None"
  using silence_never_returns [of "demo_call\<lparr>V := VYZOV_STATE_START, sip_state := SIP_SESSION_STATE_INVITE_SENDED\<rparr>" 0
      "\<lambda>n. demo_input" demo_args demo_app]
  by (simp add: demo_call_def demo_input_def)

text \<open>
  C20: a refused call does return: after any number of silent passes, an answer with a code other than
  100, 180, 200 and 401 ends the loop within five passes, with return code 2, the answer
  acknowledged and both sockets closed.
\<close>

theorem refused_call_returns:
  assumes "V sc = VYZOV_STATE_START" "call_end sc \<noteq> 1" "sip_state sc = SIP_SESSION_STATE_INVITE_SENDED"
    and "\<forall>m. n \<le> m \<and> m < n + k \<longrightarrow> in_sip (inp m) = None"
    and "in_sip (inp (n + k)) \<noteq> None" "parse_buf (inp (n + k)) (recv_sip (inp (n + k)) s) = Inr s1"
    and "m = SIP_ans_mess (glob s1)" "mess_code m \<notin> {100, 180, 200, 401}"
    and "fields_ok m" "0 \<in> set (phonenum a)" "0 \<in> set (serverip a)" "0 \<in> set (ifname a)"
    and "ack = framed (ack_text m (cstr (phonenum a)) (cstr (serverip a))) @ crlf" "length ack < BUFSIZE"
    and "length (cstr (ifname a)) < length (IFilename s1)"
  shows "\<exists>s' sc'. helen_loop a inp n (s, sc) = Some (Inr (s', sc')) \<and> return_code sc' = 2
    \<and> V sc' = VYZOV_STATE_END
    \<and> trace s' = trace s @ [SipSend (sudp sc) ack, Close (sudp sc), Close (RTP_data_sock sc)]"
  by (rule refused_loop [OF assms])

definition waiting_call :: sip_call where
  "waiting_call = demo_call\<lparr>V := VYZOV_STATE_START, sip_state := SIP_SESSION_STATE_INVITE_SENDED\<rparr>"

definition busy_inputs :: "nat \<Rightarrow> sip_input" where
  "busy_inputs n = (if n < 1000 then demo_input else demo_input\<lparr>in_sip := Some busy\<rparr>)"

theorem refused_call_returns_witness:
  "\<exists>s' sc'. helen_loop demo_args busy_inputs 0 (demo_app, waiting_call) = Some (Inr (s', sc')) \<and> return_code sc' = 2"
proof -
  let ?inp = "demo_input\<lparr>in_sip := Some busy\<rparr>"
  have bi: "busy_inputs (0 + 1000) = ?inp" by (simp add: busy_inputs_def)
  have sil: "\<forall>m. 0 \<le> m \<and> m < 0 + 1000 \<longrightarrow> in_sip (busy_inputs m) = None"
    by (simp add: busy_inputs_def demo_input_def)
  have "drop 25 (buf demo_app) = bzero (Suc 998)" by (simp add: demo_app_def bzero_def)
  then have "\<exists>t. buf (recv_sip ?inp demo_app) = busy @ 0 # t" using busy_received [of ?inp demo_app 998] by simp
  then have p: "parse_buf ?inp (recv_sip ?inp demo_app) = Inr ((recv_sip ?inp demo_app)\<lparr>glob := (glob demo_app)\<lparr>SIP_field := bzero FIELD_SIZE,
      SIP_ans_mess := parsed 486 (bzero 20) []\<rparr>\<rparr>)"
    using busy_parsed [of ?inp demo_app] by (simp add: demo_input_def)
  define s1 where "s1 = (recv_sip ?inp demo_app)\<lparr>glob := (glob demo_app)\<lparr>SIP_field := bzero FIELD_SIZE,
      SIP_ans_mess := parsed 486 (bzero 20) []\<rparr>\<rparr>"
  have s1: "parsed 486 (bzero 20) [] = SIP_ans_mess (glob s1)" "IFilename s1 = bzero 255"
    by (simp_all add: s1_def recv_sip_def Let_def demo_app_def split: option.splits)
  have fl: "length (cstr (ifname demo_args)) < length (IFilename s1)" unfolding demo_ack(6) s1(2) by simp
  have w: "V waiting_call = VYZOV_STATE_START" "call_end waiting_call \<noteq> 1"
    "sip_state waiting_call = SIP_SESSION_STATE_INVITE_SENDED"
    by (simp_all add: waiting_call_def demo_call_def)
  have nn: "in_sip (busy_inputs (0 + 1000)) \<noteq> None" unfolding bi by simp
  show ?thesis
    using refused_call_returns [OF w sil nn p [folded bi, folded s1_def [unfolded bi [symmetric]]] s1(1) demo_ack(2,1,3-5) refl demo_ack(7) fl]
    by auto
qed

text \<open>How a call ends that returns.\<close>

lemma helen_end_state:
  assumes "helen_setup a inet fd1 fd2 s sc = Inr (s0, sc0)" "closes s = []"
    and "main_sip_call_Helen a inet fd1 fd2 inp s sc = Some (Inr (s', code))"
  shows "\<exists>sc'. call_run a (s0, sc0) (s', sc') \<and> fresh_call (s0, sc0) \<and> call_inv (s', sc')
    \<and> V sc' = VYZOV_STATE_END \<and> sudp sc' = fd1 \<and> RTP_data_sock sc' = fd2 \<and> code = return_code sc'"
proof -
  have st0: "V sc0 = VYZOV_STATE_INIT" "sip_state sc0 = SIP_SESSION_STATE_START" "call_end sc0 = 0"
    "closes s0 = []" "sudp sc0 = fd1" "RTP_data_sock sc0 = fd2"
    using assms(1,2) unfolding helen_setup_def Let_def by (auto elim!: bindR_InrE)
  obtain sc' where l: "helen_loop a inp 0 (s0, sc0) = Some (Inr (s', sc'))" "code = return_code sc'"
    using assms(1,3) by (auto simp: main_sip_call_Helen_def elim!: bindR_InrE)
  have r: "call_run a (s0, sc0) (s', sc')" "V sc' = VYZOV_STATE_END"
    using helen_loop_run [OF l(1) call_run.start] by auto
  have fresh: "fresh_call (s0, sc0)" by (simp add: fresh_call_def st0)
  have inv: "call_inv (s', sc')" by (rule call_run_inv [OF r(1) fresh])
  have fds: "sudp (snd st) = fd1 \<and> RTP_data_sock (snd st) = fd2" if "call_run a (s0, sc0) st" for st
    using that
  proof (induction rule: call_run.induct)
    case start
    then show ?case by (simp add: st0)
  next
    case (pass st inp st' fStop)
    have "call_inv st" by (rule call_run_inv [OF pass(1) fresh])
    then show ?case using call_inv_pass(4) [of "fst st" "snd st" a inp "fst st'" "snd st'" fStop] pass by simp
  qed
  show ?thesis using r fresh inv fds [OF r(1)] l(2) by auto
qed

text \<open>
  Whenever the polling loop returns, the call is over: the end state is reached, both sockets have
  been closed, once, and the result is 0, 1 or 2.
\<close>

lemma returned_call_is_closed:
  assumes "helen_setup a inet fd1 fd2 s sc = Inr (s0, sc0)" "closes s = []"
    and "main_sip_call_Helen a inet fd1 fd2 inp s sc = Some (Inr (s', code))"
  shows "closes s' = [Close fd1, Close fd2] \<and> code \<in> {0, 1, 2}"
  using helen_end_state [OF assms] by (auto simp: call_inv_def state_order)

lemma returned_call_is_closed_witness:
  "\<exists>s' code. main_sip_call_Helen demo_args (\<lambda>_. 0) 3 4 refused_inputs demo_app demo_call = Some (Inr (s', code))
    \<and> closes s' = [Close 3, Close 4]"
proof -
  obtain s' where s': "main_sip_call_Helen demo_args (\<lambda>_. 0) 3 4 refused_inputs demo_app demo_call = Some (Inr (s', 2))"
    using demo_call_refused [of "[]"] unfolding demo_app_trace by blast
  obtain s0 sc0 where s0: "helen_setup demo_args (\<lambda>_. 0) 3 4 demo_app demo_call = Inr (s0, sc0)"
    using demo_setup [of "[]"] unfolding demo_app_trace by blast
  have c: "closes demo_app = []" by (simp add: closes_def demo_app_def)
  show ?thesis using returned_call_is_closed [OF s0 c s'] s' by blast
qed

lemma test_setup_trace:
  assumes "test_setup server lrtp inet fd1 fd2 s sc = Inr (s', sc')"
  shows "closes s' = closes s" "fd1 \<noteq> - 1" "fd2 \<noteq> - 1"
  using assms unfolding test_setup_def Let_def by (auto elim!: bindR_InrE split: if_splits)

text \<open>
  The test program opens six sockets and, when it returns, has closed only the two of the last call:
  the four it set up itself are never used and never closed.
\<close>

lemma test_leaks_sockets:
  assumes "closes s = []" "start_sip_test inet fd inp s c1 c2 c3 = Some (Inr s')"
  shows "closes s' = [Close (fd 4), Close (fd 5)] \<and> - 1 \<notin> fd ` {0, 1, 2, 3}"
proof -
  obtain s1 c1' s2 c2' where t: "test_setup (cs ''192.168.255.134'') 22222 inet (fd 0) (fd 1) s c1 = Inr (s1, c1')"
    "test_setup (cs ''192.168.255.134'') 22223 inet (fd 2) (fd 3) s1 c2 = Inr (s2, c2')"
    and h: "map_option (\<lambda>r. bindR r (\<lambda>(s, code). Inr s))
      (main_sip_call_Helen test_args inet (fd 4) (fd 5) inp s2 c3) = Some (Inr s')"
    using assms(2) unfolding start_sip_test_def by (auto elim!: bindR_InrE split: sum.splits)
  note q = test_setup_trace [OF t(1)] test_setup_trace [OF t(2)]
  obtain code where m: "main_sip_call_Helen test_args inet (fd 4) (fd 5) inp s2 c3 = Some (Inr (s', code))"
    using h by (auto elim!: bindR_InrE)
  then obtain s0 sc0 where s0: "helen_setup test_args inet (fd 4) (fd 5) s2 c3 = Inr (s0, sc0)"
    unfolding main_sip_call_Helen_def by (auto split: sum.splits)
  have "closes s2 = []" using q(1,4) assms(1) by simp
  from helen_end_state [OF s0 this m] show ?thesis using q by (auto simp: call_inv_def state_order)
qed

lemma test_leaks_sockets_witness:
  "\<exists>s'. start_sip_test (\<lambda>_. 0) (\<lambda>k. [5, 6, 7, 8, 3, 4] ! k) refused_inputs demo_app demo_call demo_call demo_call
      = Some (Inr s') \<and> closes s' = [Close 3, Close 4]"
proof -
  let ?fd = "\<lambda>k. [5, 6, 7, 8, 3, 4] ! k :: int"
  have z: "0 \<in> set (cs ''192.168.255.134'')" "length (cstr (cs ''192.168.255.134'')) < length (bzero 20)"
    by (simp_all add: cs_def cstr_def)
  obtain r where r: "strcpy (bzero 20) (cs ''192.168.255.134'') = Inr r" using strcpy_ok [OF z] by blast
  have "0 \<in> set r" by (rule strcpy_Inr(2) [OF r])
  then obtain x where x: "read_str r = Inr x" by (simp add: read_str_ok)
  have b: "REMOTE_SIP_IPADDR demo_call = bzero 20" by (simp add: demo_call_def)
  have t: "\<exists>t' sc'. test_setup (cs ''192.168.255.134'') p (\<lambda>_. 0) f g (demo_app\<lparr>trace := t\<rparr>) demo_call
      = Inr (demo_app\<lparr>trace := t'\<rparr>, sc')" if "f \<noteq> - 1" "g \<noteq> - 1" for p f g t
    using that by (simp add: test_setup_def b r x) blast
  obtain t1 c1 where t1: "test_setup (cs ''192.168.255.134'') 22222 (\<lambda>_. 0) 5 6 demo_app demo_call
      = Inr (demo_app\<lparr>trace := t1\<rparr>, c1)"
    using t [of 5 6 22222 "[]"] unfolding demo_app_trace by auto
  obtain t2 c2 where t2: "test_setup (cs ''192.168.255.134'') 22223 (\<lambda>_. 0) 7 8 (demo_app\<lparr>trace := t1\<rparr>) demo_call
      = Inr (demo_app\<lparr>trace := t2\<rparr>, c2)"
    using t [of 7 8 22223 t1] by auto
  obtain s' where "main_sip_call_Helen demo_args (\<lambda>_. 0) 3 4 refused_inputs (demo_app\<lparr>trace := t2\<rparr>) demo_call = Some (Inr (s', 2))"
    using demo_call_refused [of t2] by blast
  then have s: "start_sip_test (\<lambda>_. 0) ?fd refused_inputs demo_app demo_call demo_call demo_call = Some (Inr s')"
    using t1 t2 by (simp add: start_sip_test_def test_args_def demo_args_def)
  have c: "closes demo_app = []" by (simp add: closes_def demo_app_def)
  show ?thesis using test_leaks_sockets [OF c s] s by auto
qed

text \<open>The first attempt that finds a file, of the six that are made.\<close>

definition first_file :: "(nat \<Rightarrow> byte list option) \<Rightarrow> byte list option" where
  "first_file try = (case find (\<lambda>k. try k \<noteq> None) [0..<6] of None \<Rightarrow> None | Some k \<Rightarrow> try k)"

lemma open_loop_first: "fst (open_loop try 0) = first_file try"
proof -
  have u: "[0..<6] = [0, 1, 2, 3, 4, 5 :: nat]" by (simp add: upt_rec)
  have step: "fst (open_loop try k) = (case try k of None \<Rightarrow> fst (open_loop try (Suc k)) | Some f \<Rightarrow> Some f)" if "k < 5" for k
    using that by (subst open_loop.simps) (simp split: option.splits)
  have "fst (open_loop try 5) = try 5" by (subst open_loop.simps) (simp split: option.splits)
  then show ?thesis
    using step [of 0] step [of 1] step [of 2] step [of 3] step [of 4]
    by (cases "try 0"; cases "try 1"; cases "try 2"; cases "try 3"; cases "try 4")
      (simp_all add: first_file_def u numeral_2_eq_2 [symmetric])
qed

lemma read_loop_ok:
  "read_loop f fb y = (if y + length f < length fb
     then Inr (take y fb @ f @ [0xFF] @ drop (y + length f + 1) fb, y + length f + 1) else Inl OutOfBounds)"
proof (induction f arbitrary: fb y)
  case Nil
  then show ?case by (auto simp: mem_write_def)
next
  case (Cons b f)
  show ?case
  proof (cases "y < length fb")
    case True
    then have "mem_write y [b] fb = Inr (take y fb @ b # drop (Suc y) fb)" by (simp add: mem_write_ok)
    then show ?thesis using True Cons.IH [of "take y fb @ b # drop (Suc y) fb" "Suc y"]
      by (auto simp: less_diff_conv add.commute [of y])
  next
    case False
    then have "mem_write y [b] fb = Inl OutOfBounds" by (simp add: mem_write_fault)
    then show ?thesis using False by simp
  qed
qed

text \<open>
  C38: the first pass makes six attempts to open the file.  Without success the null pointer is used,
  whatever was reported; a file of at most 54 bytes is called corrupted, but the call goes on, with
  the old contents of the buffer; a longer one is read completely with an end mark behind it; one of
  512000 bytes or more overruns the buffer.
\<close>

theorem init_reads_file:
  assumes "V sc = VYZOV_STATE_INIT" "0 \<in> set (ofname a)" "length (cstr (ofname a)) < length (OFilename s)"
    and "7 \<le> length (CallID s)" "length (filebuf s) = FILEBUFSIZE"
  shows "case first_file (in_file inp) of
      None \<Rightarrow> main_sip_call a inp s sc = Inl NullPointer
    | Some f \<Rightarrow>
        if FILEBUFSIZE \<le> length f then main_sip_call a inp s sc = Inl OutOfBounds
        else (\<exists>s' sc'. main_sip_call a inp s sc = Inr ((s', sc'), False) \<and> V sc' = VYZOV_STATE_START
          \<and> fsize s' = int (length f)
          \<and> (if length f \<le> 54 then return_code sc' = 1 \<and> filebuf s' = filebuf s
             else return_code sc' = 0 \<and> filebuf s' = f @ [0xFF] @ drop (length f + 1) (filebuf s)))"
proof -
  have c: "cstr (cs ''loniis'') = lit ''loniis''" "0 \<in> set (cs ''loniis'')" by (simp_all add: cs_def cstr_def)
  have l: "length (cstr (cs ''loniis'')) < length (CallID s)" unfolding c(1) using assms(4) by simp
  obtain y where o: "open_loop (in_file inp) 0 = (first_file (in_file inp), y)"
    using open_loop_first by (metis prod.collapse)
  note defs = main_sip_call_def call_init_def o read_loop_ok WAV_HEADER_def FILEBUFSIZE_def
  note copies = strcpy_ok [OF assms(2,3)] strcpy_ok [OF c(2) l] assms(1,5)
  show ?thesis
  proof (cases "first_file (in_file inp)")
    case None
    then show ?thesis using copies by (simp add: defs)
  next
    case (Some f)
    let ?ok = "\<lambda>r. V (snd r) = VYZOV_STATE_START \<and> fsize (fst r) = int (length f)
      \<and> (if length f \<le> 54 then return_code (snd r) = 1 \<and> filebuf (fst r) = filebuf s
         else return_code (snd r) = 0 \<and> filebuf (fst r) = f @ [0xFF] @ drop (length f + 1) (filebuf s))"
    have "main_sip_call a inp s sc = Inl OutOfBounds" if "FILEBUFSIZE \<le> length f"
      using that copies Some by (simp add: defs)
    moreover have "\<exists>r. main_sip_call a inp s sc = Inr (r, False) \<and> ?ok r" if "\<not> FILEBUFSIZE \<le> length f"
      using that copies Some by (cases "length f \<le> 54") (simp_all add: defs del: split_paired_Ex)
    ultimately show ?thesis using Some by (simp del: split_paired_Ex) force
  qed
qed

theorem init_reads_file_witness:
  "main_sip_call demo_args (demo_input\<lparr>in_file := \<lambda>n. None\<rparr>) demo_app demo_call = Inl NullPointer"
proof -
  have h: "V demo_call = VYZOV_STATE_INIT" "0 \<in> set (ofname demo_args)"
    "length (cstr (ofname demo_args)) < length (OFilename demo_app)" "7 \<le> length (CallID demo_app)"
    "length (filebuf demo_app) = FILEBUFSIZE"
    by (simp_all add: demo_call_def demo_args_def demo_app_def cs_def cstr_def FILEBUFSIZE_def)
  have "first_file (in_file (demo_input\<lparr>in_file := \<lambda>n. None\<rparr>)) = None"
    by (simp add: first_file_def upt_rec)
  then show ?thesis using init_reads_file [OF h, of "demo_input\<lparr>in_file := \<lambda>n. None\<rparr>"] by (simp only: option.case)
qed

text \<open>
  C39: when the answer to BYE cannot be sent, or the file for the received voice could not be created,
  the call does not end: \<open>fclose\<close> is applied to a file that is not open.
\<close>

theorem bye_close_faults:
  assumes "V sc = VYZOV_STATE_START" "call_end sc \<noteq> 1" "sip_state sc = SIP_SESSION_STATE_BYE_SENDED"
    and "fields_ok (SIP_ans_mess (glob s))"
    and "length (framed (ok_text (SIP_ans_mess (glob s))) @ crlf) < BUFSIZE"
  shows "(ifile sc \<noteq> OpenFile \<longrightarrow> main_sip_call a inp s sc = Inl NullPointer)
    \<and> (ifile sc = OpenFile \<and> in_sent inp \<le> 0 \<longrightarrow> (\<exists>s' sc'. main_sip_call a inp s sc = Inr ((s', sc'), False)
         \<and> (\<forall>inp'. main_sip_call a inp' s' sc' = Inl NullPointer)))
    \<and> (ifile sc = OpenFile \<and> 0 < in_sent inp \<longrightarrow> (\<exists>s'. helen_loop a (\<lambda>_. inp) n (s, sc) =
         Some (Inr (s', sc\<lparr>ifile := ClosedFile, sip_state := SIP_SESSION_STATE_BYE_COMPLETED, call_end := 1,
           V := VYZOV_STATE_END\<rparr>))))"
proof -
  let ?t = "framed (ok_text (SIP_ans_mess (glob s))) @ crlf"
  define s1 where "s1 = s\<lparr>buf := filled ?t BUFSIZE, glob := (glob s)\<lparr>SIP_mess := filled ?t BUFSIZE\<rparr>, g_bytes := in_sent inp,
    trace := trace s @ [SipSend (sudp sc) ?t]\<rparr>"
  note send = send_ok_result(1) [OF assms(4) refl assms(5)]
    send_ok_result(2) [OF assms(4) refl assms(5), where inp = inp and sock = "sudp sc", folded s1_def]
  have b: "ifile sc = OpenFile \<Longrightarrow> main_sip_call a inp s sc = Inr ((s1, if 0 < in_sent inp
      then sc\<lparr>ifile := ClosedFile, sip_state := SIP_SESSION_STATE_BYE_COMPLETED\<rparr> else sc\<lparr>ifile := ClosedFile\<rparr>), False)"
    using assms(1-3) by (simp add: main_sip_call_def Vyzov_sip_def bye_sended_def send) (simp add: s1_def)
  have f: "ifile sc' \<noteq> OpenFile \<Longrightarrow> V sc' = V sc \<Longrightarrow> call_end sc' = call_end sc \<Longrightarrow> sip_state sc' = sip_state sc \<Longrightarrow>
      main_sip_call a inp' s' sc' = Inl NullPointer" for inp' s' sc'
    using assms(1-3) by (simp add: main_sip_call_def Vyzov_sip_def bye_sended_def)
  have g: "helen_loop a (\<lambda>_. inp) n (s, sc) = helen_loop a (\<lambda>_. inp) (Suc n)
      (s1, sc\<lparr>ifile := ClosedFile, sip_state := SIP_SESSION_STATE_BYE_COMPLETED\<rparr>)" if "ifile sc = OpenFile" "0 < in_sent inp"
    by (subst helen_loop.simps) (use b that in simp)
  have h: "helen_loop a (\<lambda>_. inp) (Suc n) (s1, sc\<lparr>ifile := ClosedFile, sip_state := SIP_SESSION_STATE_BYE_COMPLETED\<rparr>)
    = Some (Inr (s1\<lparr>trace := trace s1 @ [Close (sudp sc), Close (RTP_data_sock sc)]\<rparr>,
        sc\<lparr>ifile := ClosedFile, sip_state := SIP_SESSION_STATE_BYE_COMPLETED, call_end := 1, V := VYZOV_STATE_END\<rparr>))"
    by (subst completed_loop) (use assms(1,2) in simp_all)
  show ?thesis using f b g h by auto
qed

text \<open>
  The client never returns: whatever happens, its loop ends in no result, and after one call it
  polls the end state forever.
\<close>

lemma client_never_returns:
  "app_main inet fd1 fd2 inp s sc \<noteq> Some (Inr r)
    \<and> (V sc' = VYZOV_STATE_END \<longrightarrow> app_loop a inp n (s', sc') = None)"
proof
  have no_result: "\<forall>st'. r \<noteq> Inr st'" if "app_loop a inp n st = Some r" for a inp n st r
  proof (rule app_loop.raw_induct [where P = "\<lambda>a inp n st r. \<forall>st'. r \<noteq> Inr st'", OF _ that])
    fix loop :: "sip_args \<Rightarrow> (nat \<Rightarrow> sip_input) \<Rightarrow> nat \<Rightarrow> sip_app \<times> sip_call \<Rightarrow> (sip_app \<times> sip_call) res option"
      and a inp n st r
    assume IH: "\<And>a inp n st r. loop a inp n st = Some r \<Longrightarrow> \<forall>st'. r \<noteq> Inr st'"
      and step: "(case main_sip_call a (inp n) (fst st) (snd st) of Inl e \<Rightarrow> Some (Inl e)
        | Inr (st', fStop) \<Rightarrow> loop a inp (Suc n) st') = Some r"
    show "\<forall>st'. r \<noteq> Inr st'" using step IH by (auto split: sum.splits prod.splits)
  qed
  then show "app_main inet fd1 fd2 inp s sc \<noteq> Some (Inr r)"
    unfolding app_main_def by (auto split: sum.splits dest: no_result)
  have ended: "V (snd st) \<noteq> VYZOV_STATE_END" if "app_loop a inp n st = Some r" for a inp n st r
  proof (rule app_loop.raw_induct [where P = "\<lambda>a inp n st r. V (snd st) \<noteq> VYZOV_STATE_END", OF _ that])
    fix loop :: "sip_args \<Rightarrow> (nat \<Rightarrow> sip_input) \<Rightarrow> nat \<Rightarrow> sip_app \<times> sip_call \<Rightarrow> (sip_app \<times> sip_call) res option"
      and a inp n st r
    assume IH: "\<And>a inp n st r. loop a inp n st = Some r \<Longrightarrow> V (snd st) \<noteq> VYZOV_STATE_END"
      and step: "(case main_sip_call a (inp n) (fst st) (snd st) of Inl e \<Rightarrow> Some (Inl e)
        | Inr (st', fStop) \<Rightarrow> loop a inp (Suc n) st') = Some r"
    show "V (snd st) \<noteq> VYZOV_STATE_END"
    proof
      assume v: "V (snd st) = VYZOV_STATE_END"
      then have "loop a inp (Suc n) st = Some r" using step by (simp add: main_sip_call_def)
      from IH [OF this] show False using v by simp
    qed
  qed
  show "V sc' = VYZOV_STATE_END \<longrightarrow> app_loop a inp n (s', sc') = None"
    using ended [of a inp n "(s', sc')"] by (cases "app_loop a inp n (s', sc')") auto
qed

lemma client_never_returns_witness:
  "app_loop client_args (\<lambda>_. demo_input) 0 (demo_app, demo_call\<lparr>V := VYZOV_STATE_END\<rparr>) = None"
  using client_never_returns [of "\<lambda>_. 0" 3 4 "\<lambda>_. demo_input" demo_app demo_call _ "demo_call\<lparr>V := VYZOV_STATE_END\<rparr>"
      client_args 0 demo_app]
  by simp

definition bye_call :: sip_call where
  "bye_call = demo_call\<lparr>V := VYZOV_STATE_START, sip_state := SIP_SESSION_STATE_BYE_SENDED, ifile := OpenFile\<rparr>"

theorem bye_close_faults_witness:
  "\<exists>s' sc'. main_sip_call demo_args (demo_input\<lparr>in_sent := - 1\<rparr>) demo_app bye_call = Inr ((s', sc'), False)
    \<and> main_sip_call demo_args demo_input s' sc' = Inl NullPointer"
proof -
  have n: "length (show_int 0) = 1" by (simp add: show_int_def show_base.simps)
  have f: "fields_ok (SIP_ans_mess (glob demo_app))" by (simp add: fields_ok_def demo_app_def demo_globals_def)
  have l: "length (framed (ok_text (SIP_ans_mess (glob demo_app))) @ crlf) < BUFSIZE"
    by (simp add: framed_def ok_text_def demo_app_def demo_globals_def BUFSIZE_def n del: lit_simps)
  have c: "V bye_call = VYZOV_STATE_START" "call_end bye_call \<noteq> 1" "sip_state bye_call = SIP_SESSION_STATE_BYE_SENDED"
    "ifile bye_call = OpenFile"
    by (simp_all add: bye_call_def demo_call_def)
  show ?thesis
    using bye_close_faults [OF c(1-3) f l, of demo_args "demo_input\<lparr>in_sent := - 1\<rparr>" 0] c(4) by auto
qed

end
