(* ===== verification/Sip_Complete.thy ===== *)
theory Sip_Complete
  imports Sip_App
begin

text \<open>
  The whole of an answered call: from the INVITE that waits for its answer to the return of the
  polling loop, through the answer 200, the exchange of voice packets and the BYE of the peer.
\<close>

section \<open>Messages that arrive\<close>

text \<open>
  The text \<open>buf\<close> holds after a datagram has been copied over the contents \<open>b\<close>, remains of earlier
  messages behind a short datagram included.
\<close>

definition hears :: "sip_input \<Rightarrow> byte list \<Rightarrow> byte list \<Rightarrow> bool" where
  "hears inp b msg \<longleftrightarrow> (\<exists>d t. in_sip inp = Some d \<and> take BUFSIZE d @ drop (length (take BUFSIZE d)) b = msg @ 0 # t)"

lemma hears_recv: "hears inp (buf s) msg \<Longrightarrow> \<exists>t n. 0 \<le> n \<and> recv_sip inp s = s\<lparr>buf := msg @ 0 # t, g_bytes := n\<rparr>"
  unfolding hears_def recv_sip_def Let_def
  by (elim exE conjE, rule_tac x = t in exI, rule_tac x = "int (length (take BUFSIZE d))" in exI) simp

lemma parsed_fields: "well_formed start hs body \<Longrightarrow> fields_ok (parsed code cmd hs)"
proof -
  assume wf: "well_formed start hs body"
  have v: "length v \<le> 253" if "map_of hs (lit n) = Some v" for n v
    using wf map_of_SomeD [OF that] by (auto simp: well_formed_def)
  have "0 \<in> set (field_of hs n)" for n
    using v [of n] by (fastforce simp: field_of_def field_value_def FIELD_SIZE_def split: option.splits)
  then show ?thesis by (simp add: fields_ok_def parsed_def)
qed

text \<open>The two messages of an answered call.\<close>

lemma hears_200:
  assumes "hears inp (buf s) (message start hs body)" "well_formed start hs body"
    and "start = lit ''SIP/2.0 200 '' @ reason" "in_after inp = x # after" "\<not> is_digit x"
  shows "\<exists>n t. 0 \<le> n \<and> parse_buf inp (recv_sip inp s) = Inr (s\<lparr>buf := t, g_bytes := n,
    glob := (glob s)\<lparr>SIP_field := bzero FIELD_SIZE, SIP_ans_mess := parsed 200 (bzero 20) hs\<rparr>\<rparr>)"
proof -
  obtain t n where r: "0 \<le> n" "recv_sip inp s = s\<lparr>buf := message start hs body @ 0 # t, g_bytes := n\<rparr>"
    using hears_recv [OF assms(1)] by blast
  have s: "start = lit ''SIP/2.0'' @ 32 # (50 # 48 # 48 # 32 # reason)" using assms(3) by simp
  have c: "atoi (take 3 (50 # 48 # 48 # 32 # reason) @ x # after) = Inr 200"
  proof -
    have "is_digit 50" "is_digit 48" by (simp_all add: is_digit_def)
    from atoi_code(1) [OF this this(2) assms(5), of after] show ?thesis by simp
  qed
  have "find_sub start (lit ''SIP'') \<noteq> None" by (simp add: assms(3))
  then show ?thesis
    using parser_result [OF assms(2) s _ _ _ c, of "glob s" t] r assms(4) by (auto simp: parse_buf_def)
qed

lemma hears_bye:
  assumes "hears inp (buf s) (message start hs body)" "well_formed start hs body"
    and "start = lit ''BYE sip:'' @ uri" "find_sub start (lit ''SIP'') \<noteq> None"
  shows "\<exists>n t. 0 \<le> n \<and> parse_buf inp (recv_sip inp s) = Inr (s\<lparr>buf := t, g_bytes := n,
    glob := (glob s)\<lparr>SIP_field := bzero FIELD_SIZE, SIP_ans_mess := parsed 0 (lit ''BYE'' @ bzero 17) hs\<rparr>\<rparr>)"
proof -
  obtain t n where r: "0 \<le> n" "recv_sip inp s = s\<lparr>buf := message start hs body @ 0 # t, g_bytes := n\<rparr>"
    using hears_recv [OF assms(1)] by blast
  have s: "start = lit ''BYE'' @ 32 # (lit ''sip:'' @ uri)" using assms(3) by simp
  have c: "atoi (take 3 (lit ''sip:'' @ uri) @ in_after inp) = Inr 0"
    by (simp add: atoi_def is_space_def is_digit_def)
  show ?thesis
    using parser_result [OF assms(2) s _ assms(4) _ c, of "glob s" t] r by (auto simp: parse_buf_def)
qed

section \<open>The passes of an answered call\<close>

lemma answered_pass:
  assumes "waiting (s, sc)" "hears inp (buf s) (message start hs body)" "well_formed start hs body"
    and "start = lit ''SIP/2.0 200 '' @ reason" "in_after inp = x # after" "\<not> is_digit x" "in_create inp"
    and "0 \<in> set (phonenum a)" "0 \<in> set (serverip a)" "0 \<in> set (ifname a)"
    and "length (cstr (ifname a)) < length (IFilename s)"
    and "ack = framed (ack_text (parsed 200 (bzero 20) hs) (cstr (phonenum a)) (cstr (serverip a))) @ crlf"
    and "length ack < BUFSIZE"
  shows "\<exists>s'. main_sip_call a inp s sc = Inr ((s', sc\<lparr>ifile := OpenFile, sip_state := SIP_SESSION_STATE_INVITE_COMPLETED\<rparr>), False)
    \<and> trace s' = trace s @ [SipSend (sudp sc) ack] \<and> buf s' = filled ack BUFSIZE
    \<and> filebuf s' = filebuf s \<and> fsize s' = fsize s \<and> rtppacket s' = rtppacket s"
proof -
  obtain n t where p: "0 \<le> n" "parse_buf inp (recv_sip inp s) = Inr (s\<lparr>buf := t, g_bytes := n,
      glob := (glob s)\<lparr>SIP_field := bzero FIELD_SIZE, SIP_ans_mess := parsed 200 (bzero 20) hs\<rparr>\<rparr>)"
    using hears_200 [OF assms(2-6)] by blast
  obtain fn where fn: "strcpy (IFilename s) (ifname a) = Inr fn" using strcpy_ok [OF assms(10,11)] by blast
  let ?s = "s\<lparr>buf := t, g_bytes := n, glob := (glob s)\<lparr>SIP_field := bzero FIELD_SIZE, SIP_ans_mess := parsed 200 (bzero 20) hs\<rparr>,
    IFilename := fn, g_y := 0\<rparr>"
  have nn: "0 \<le> g_bytes (recv_sip inp s)" using assms(2) by (auto simp: hears_def recv_sip_def Let_def)
  have m: "mess_code (parsed 200 (bzero 20) hs) = 200" by (simp add: parsed_def)
  have "send_ack a inp (sudp sc) ?s = Inr (?s\<lparr>buf := filled ack BUFSIZE, glob := (glob ?s)\<lparr>SIP_mess := filled ack BUFSIZE\<rparr>,
      g_bytes := in_sent inp, trace := trace ?s @ [SipSend (sudp sc) ack]\<rparr>)"
    by (rule send_ack_result) (use assms(8,9,12,13) parsed_fields [OF assms(3)] in simp_all)
  then show ?thesis
    using assms(1,7) nn p fn m by (simp add: waiting_def main_sip_call_def Vyzov_sip_def invite_sended_def Let_def)
qed

text \<open>Passes on which only voice arrives are exchanges.\<close>

lemma exchange_bytes: "rtp_exchange inp (s\<lparr>g_bytes := n\<rparr>) sc = rtp_exchange inp s sc"
  by (simp add: rtp_exchange_def Let_def split: option.splits)

lemma exchanges_bytes: "inps \<noteq> [] \<Longrightarrow> exchanges inps (s\<lparr>g_bytes := n\<rparr>) sc = exchanges inps s sc"
  by (cases inps) (simp_all add: exchange_bytes)

definition in_talk :: "sip_call \<Rightarrow> bool" where
  "in_talk sc \<longleftrightarrow> V sc = VYZOV_STATE_START \<and> call_end sc \<noteq> 1 \<and> sip_state sc = SIP_SESSION_STATE_INVITE_COMPLETED"

lemma talk_pass:
  assumes "in_talk sc" "in_sip inp = None" "rtp_exchange inp s sc = Inr (s', sc')"
  shows "main_sip_call a inp s sc = Inr ((s'\<lparr>g_bytes := - 1\<rparr>, sc'), False)" "in_talk sc'"
  using assms rtp_exchange_frame [OF assms(3)]
  by (simp_all add: in_talk_def main_sip_call_def Vyzov_sip_def invite_completed_def recv_sip_def Let_def)

lemma talk_loop:
  assumes "in_talk sc" "\<forall>m. n \<le> m \<and> m < n + l \<longrightarrow> in_sip (inp m) = None"
    and "exchanges (map inp [n..<n + l]) s sc = Inr (s', sc')"
  shows "\<exists>b. helen_loop a inp n (s, sc) = helen_loop a inp (n + l) (s'\<lparr>g_bytes := b\<rparr>, sc') \<and> in_talk sc'"
  using assms
proof (induction l arbitrary: n s sc)
  case 0
  then have "s'\<lparr>g_bytes := g_bytes s\<rparr> = s" "sc' = sc" by auto
  then show ?case using 0(1) by (intro exI [of _ "g_bytes s"]) simp
next
  case (Suc l)
  have u: "[n..<n + Suc l] = n # [Suc n..<Suc n + l]" by (simp add: upt_conv_Cons)
  obtain s1 sc1 where e: "rtp_exchange (inp n) s sc = Inr (s1, sc1)"
    and r: "exchanges (map inp [Suc n..<Suc n + l]) s1 sc1 = Inr (s', sc')"
    using Suc.prems(3) unfolding u by (auto elim!: bindR_InrE)
  have sil: "in_sip (inp n) = None" "\<forall>m. Suc n \<le> m \<and> m < Suc n + l \<longrightarrow> in_sip (inp m) = None"
    using Suc.prems(2) by auto
  note p = talk_pass(1) [OF Suc.prems(1) sil(1) e, where a = a] talk_pass(2) [OF Suc.prems(1) sil(1) e]
  have "helen_loop a inp n (s, sc) = helen_loop a inp (Suc n) (s1\<lparr>g_bytes := - 1\<rparr>, sc1)"
    by (subst helen_loop.simps) (simp add: p(1))
  moreover have "\<exists>b. helen_loop a inp (Suc n) (s1\<lparr>g_bytes := - 1\<rparr>, sc1) =
      helen_loop a inp (Suc n + l) (s'\<lparr>g_bytes := b\<rparr>, sc') \<and> in_talk sc'"
  proof (cases "l = 0")
    case True
    then have "s1 = s'" "sc1 = sc'" using r by simp_all
    then show ?thesis using True p(2) by auto
  next
    case False
    then have ne: "map inp [Suc n..<Suc n + l] \<noteq> []" by simp
    show ?thesis by (rule Suc.IH [OF p(2) sil(2)]) (simp only: exchanges_bytes [OF ne] r)
  qed
  ultimately show ?case by simp
qed

lemma exchanges_frame:
  "exchanges inps s sc = Inr (s', sc') \<Longrightarrow> glob s' = glob s \<and> buf s' = buf s \<and> ifile sc' = ifile sc \<and> sudp sc' = sudp sc
    \<and> RTP_data_sock sc' = RTP_data_sock sc \<and> return_code sc' = return_code sc"
proof (induction inps arbitrary: s sc)
  case (Cons inp inps)
  then obtain s1 sc1 where e: "rtp_exchange inp s sc = Inr (s1, sc1)" "exchanges inps s1 sc1 = Inr (s', sc')"
    by (auto elim!: bindR_InrE)
  then show ?case using Cons.IH [OF e(2)] rtp_exchange_frame [OF e(1)] by simp
qed simp

lemma bye_pass:
  assumes "in_talk sc" "in_rtp inp = None" "hears inp (buf s) (message start hs body)" "well_formed start hs body"
    and "start = lit ''BYE sip:'' @ uri" "find_sub start (lit ''SIP'') \<noteq> None"
  shows "\<exists>s'. main_sip_call a inp s sc = Inr ((s', sc\<lparr>sip_state := SIP_SESSION_STATE_BYE_SENDED\<rparr>), False)
    \<and> trace s' = trace s \<and> SIP_ans_mess (glob s') = parsed 0 (lit ''BYE'' @ bzero 17) hs"
proof -
  let ?s = "s\<lparr>payload_buf := bzero BUFSIZE, g_bytes := - 1\<rparr>"
  have h: "hears inp (buf ?s) (message start hs body)" using assms(3) by simp
  obtain n t where p: "0 \<le> n" "parse_buf inp (recv_sip inp ?s) = Inr (?s\<lparr>buf := t, g_bytes := n,
      glob := (glob ?s)\<lparr>SIP_field := bzero FIELD_SIZE, SIP_ans_mess := parsed 0 (lit ''BYE'' @ bzero 17) hs\<rparr>\<rparr>)"
    using hears_bye [OF h assms(4-6)] by blast
  have nn: "0 \<le> g_bytes (recv_sip inp ?s)" using assms(3) by (auto simp: hears_def recv_sip_def Let_def)
  have "lit ''BYE'' @ bzero 17 = lit ''BYE'' @ 0 # bzero 16" by (simp add: bzero_def numeral_eq_Suc)
  then have c: "read_str (mess_command (parsed 0 (lit ''BYE'' @ bzero 17) hs)) = Inr (lit ''BYE'')"
    using read_str_nul [of "lit ''BYE''" "bzero 16"] by (simp add: parsed_def)
  have e: "rtp_exchange inp s sc = Inr (?s, sc)" using assms(2) by (simp add: rtp_exchange_def)
  show ?thesis
    using assms(1) nn p c e
    by (simp add: in_talk_def main_sip_call_def Vyzov_sip_def invite_completed_def Let_def del: lit_simps)
qed

lemma confirm_pass:
  assumes "V sc = VYZOV_STATE_START" "call_end sc \<noteq> 1" "sip_state sc = SIP_SESSION_STATE_BYE_SENDED" "ifile sc = OpenFile"
    and "fields_ok (SIP_ans_mess (glob s))" "t = framed (ok_text (SIP_ans_mess (glob s))) @ crlf" "length t < BUFSIZE"
    and "0 < in_sent inp"
  shows "\<exists>s'. main_sip_call a inp s sc =
      Inr ((s', sc\<lparr>ifile := ClosedFile, sip_state := SIP_SESSION_STATE_BYE_COMPLETED\<rparr>), False)
    \<and> trace s' = trace s @ [SipSend (sudp sc) t]"
  using assms(1-4,8) send_ok_result(1) [OF assms(5-7)] send_ok_result(2) [OF assms(5-7), where inp = inp and sock = "sudp sc"]
  by (simp add: main_sip_call_def Vyzov_sip_def bye_sended_def)

lemma silent_wait:
  assumes "waiting (s, sc)" "\<forall>m. n \<le> m \<and> m < n + k \<longrightarrow> in_sip (inp m) = None"
  shows "\<exists>b. helen_loop a inp n (s, sc) = helen_loop a inp (n + k) (s\<lparr>g_bytes := b\<rparr>, sc)"
proof (cases "k = 0")
  case True
  have "s\<lparr>g_bytes := g_bytes s\<rparr> = s" by simp
  then show ?thesis using True by (metis add_0_right)
qed (use silent_loop [OF assms] in blast)

text \<open>From the answered INVITE to the BYE: the voice of the file goes out.\<close>

lemma talk_streams:
  assumes "in_talk sc" "mess_trans sc = 0" "buf_point sc = 0" "0 < l" "160 * (l - 1) < length f"
    and "\<forall>i < l. in_sip (inp (n + i)) = None \<and> (\<exists>d. in_rtp (inp (n + i)) = Some d \<and> 12 \<le> length d)"
    and "filebuf s = f @ [0xFF] @ junk" "length (filebuf s) = FILEBUFSIZE" "fsize s = int (length f)"
    and "length (rtppacket s) = BUFSIZE"
  shows "\<exists>s' sc' outs. helen_loop a inp n (s, sc) = helen_loop a inp (n + l) (s', sc') \<and> in_talk sc'
    \<and> trace s' = trace s @ map (RtpSend (RTP_data_sock sc)) outs \<and> length outs = l
    \<and> concat (map (drop 12) outs) = payload f 0 (160 * l) \<and> buf s' = buf s \<and> ifile sc' = ifile sc
    \<and> sudp sc' = sudp sc \<and> RTP_data_sock sc' = RTP_data_sock sc \<and> return_code sc' = return_code sc"
proof -
  let ?inps = "map inp [n..<n + l]"
  have at: "\<exists>i < l. m = n + i" if "m \<in> set [n..<n + l]" for m
    using that by (intro exI [of _ "m - n"]) auto
  have v: "\<forall>x \<in> set ?inps. \<exists>d. in_rtp x = Some d \<and> 12 \<le> length d" "?inps \<noteq> []"
    using at assms(4,6) by fastforce+
  have b: "buf_point sc = int 0" "0 + 160 * (length ?inps - 1) < length f" using assms(3,5) by simp_all
  have sil: "\<forall>m. n \<le> m \<and> m < n + l \<longrightarrow> in_sip (inp m) = None"
    using assms(6) by (metis less_diff_conv2 le_add_diff_inverse add.commute)
  obtain s' sc' outs where e: "exchanges ?inps s sc = Inr (s', sc')"
    "trace s' = trace s @ map (RtpSend (RTP_data_sock sc)) outs" "map (take 12) outs = map (\<lambda>x. take 12 (the (in_rtp x))) ?inps"
    "concat (map (drop 12) outs) = payload f 0 (160 * length ?inps)"
    using exchanges_send [OF v assms(2) b assms(7-10)] by blast
  have "length outs = l" using arg_cong [OF e(3), of length] by simp
  moreover obtain x where "helen_loop a inp n (s, sc) = helen_loop a inp (n + l) (s'\<lparr>g_bytes := x\<rparr>, sc')" "in_talk sc'"
    using talk_loop [OF assms(1) sil e(1)] by blast
  ultimately show ?thesis
    using e(2,4) exchanges_frame [OF e(1)]
    by (intro exI [of _ "s'\<lparr>g_bytes := x\<rparr>"] exI [of _ sc'] exI [of _ outs]) simp
qed

section \<open>Properties\<close>


definition ok_start :: "byte list" where "ok_start = lit ''SIP/2.0 200 OK''"
definition bye_start :: "byte list" where "bye_start = lit ''BYE sip:215 SIP/2.0''"

lemma plain_messages: "well_formed ok_start [] crlf" "well_formed bye_start [] crlf"
  "length (message ok_start [] crlf) = 18" "length (message bye_start [] crlf) = 23"
  by (simp_all add: ok_start_def bye_start_def well_formed_def field_names_def only_header_def name_ok_def message_def
      headers_text_def)

text \<open>Two silent passes, the answer, one voice packet, the BYE, and the pass that answers it.\<close>

definition answered_inputs :: "nat \<Rightarrow> sip_input" where
  "answered_inputs n =
     (if n = 2 then demo_input\<lparr>in_sip := Some (message ok_start [] crlf)\<rparr>
      else if n = 3 then packet_input
      else if n = 4 then demo_input\<lparr>in_sip := Some (message bye_start [] crlf @ [0])\<rparr>
      else demo_input)"

lemma answered_hears:
  "hears (answered_inputs 2) (buf voice_app) (message ok_start [] crlf)"
  "length b = BUFSIZE \<Longrightarrow> hears (answered_inputs 4) b (message bye_start [] crlf)"
proof -
  have "bzero 1006 = 0 # bzero 1005" by (simp add: bzero_def numeral_eq_Suc)
  then show "hears (answered_inputs 2) (buf voice_app) (message ok_start [] crlf)"
    using plain_messages(3) by (simp add: hears_def answered_inputs_def voice_app_def demo_app_def BUFSIZE_def bzero_def)
  show "hears (answered_inputs 4) b (message bye_start [] crlf)" if "length b = BUFSIZE"
    using plain_messages(4) by (simp add: hears_def answered_inputs_def BUFSIZE_def)
qed

lemma short_answers:
  "length (framed (ack_text (parsed 200 (bzero 20) []) (cstr (phonenum demo_args)) (cstr (serverip demo_args))) @ crlf) < BUFSIZE"
  "length (framed (ok_text (parsed 0 (lit ''BYE'' @ bzero 17) [])) @ crlf) < BUFSIZE"
proof -
  have f: "field_of [] n = bzero 255" for n by (simp add: field_of_def FIELD_SIZE_def)
  have a: "cstr (phonenum demo_args) = lit ''212''" "cstr (serverip demo_args) = lit ''192.168.255.134''"
    by (simp_all add: demo_args_def cs_def cstr_def)
  have n: "length (show_int 0) = 1" by (simp add: show_int_def show_base.simps)
  show "length (framed (ack_text (parsed 200 (bzero 20) []) (cstr (phonenum demo_args)) (cstr (serverip demo_args))) @ crlf) < BUFSIZE"
    "length (framed (ok_text (parsed 0 (lit ''BYE'' @ bzero 17) [])) @ crlf) < BUFSIZE"
    by (simp_all add: a framed_def ack_text_def ok_text_def parsed_def f BUFSIZE_def n del: lit_simps)
qed


end
