(* ===== verification/Sip_Dialog.thy ===== *)
theory Sip_Dialog
  imports Sip_App
begin

text \<open>
  The dialog a caller may hold, as an automaton over what leaves the program, and the proof that
  every run of the call state machine (\<open>sip_call.c\<close>) is one of its runs: for any arguments, any
  datagrams, any files and any results of the system calls.
\<close>

section \<open>The automaton\<close>

datatype dialog =
    Idle
  | Calling
  | Acked
  | Playing
  | Recording nat          \<comment> \<open>samples missing of the current packet\<close>
  | Answered
  | Closing bool           \<comment> \<open>true: the call was refused\<close>
  | Closed bool

definition is_invite :: "byte list \<Rightarrow> bool" where
  "is_invite d \<longleftrightarrow> prefix (lit ''INVITE sip:'') d"

definition is_ack :: "byte list \<Rightarrow> bool" where
  "is_ack d \<longleftrightarrow> prefix (lit ''ACK sip:'') d"

definition is_ok :: "byte list \<Rightarrow> bool" where
  "is_ok d \<longleftrightarrow> prefix (lit ''SIP/2.0 200 OK'') d"

fun dialog_step :: "int \<Rightarrow> int \<Rightarrow> dialog \<Rightarrow> sip_event \<Rightarrow> dialog option" where
  "dialog_step u r Idle (SipSend k d) = (if k = u \<and> is_invite d then Some Calling else None)"
| "dialog_step u r Calling (SipSend k d) =
     (if k = u \<and> is_invite d then Some Calling else if k = u \<and> is_ack d then Some Acked else None)"
| "dialog_step u r Acked (SipSend k d) = (if k = u \<and> is_ok d then Some Answered else None)"
| "dialog_step u r Acked (RtpSend k p) = (if k = r \<and> length p = 172 then Some Playing else None)"
| "dialog_step u r Acked (Close k) = (if k = u then Some (Closing True) else None)"
| "dialog_step u r Playing (RtpSend k p) = (if k = r \<and> length p = 172 then Some Playing else None)"
| "dialog_step u r Playing (FilePut b) = Some (Recording 159)"
| "dialog_step u r Playing (SipSend k d) = (if k = u \<and> is_ok d then Some Answered else None)"
| "dialog_step u r (Recording n) (FilePut b) = Some (Recording (if n = 0 then 159 else n - 1))"
| "dialog_step u r (Recording n) (SipSend k d) = (if k = u \<and> is_ok d \<and> n = 0 then Some Answered else None)"
| "dialog_step u r Answered (Close k) = (if k = u then Some (Closing False) else None)"
| "dialog_step u r (Closing b) (Close k) = (if k = r then Some (Closed b) else None)"
| "dialog_step u r _ _ = None"

fun dialog_run :: "int \<Rightarrow> int \<Rightarrow> dialog \<Rightarrow> sip_event list \<Rightarrow> dialog option" where
  "dialog_run u r q [] = Some q"
| "dialog_run u r q (e # es) = Option.bind (dialog_step u r q e) (\<lambda>q'. dialog_run u r q' es)"

lemma dialog_run_append:
  "dialog_run u r q (es @ fs) = Option.bind (dialog_run u r q es) (\<lambda>q'. dialog_run u r q' fs)"
  by (induction es arbitrary: q) (auto split: Option.bind_split)

lemma dialog_run_snoc:
  "dialog_run u r q es = Some q1 \<Longrightarrow> dialog_run u r q (es @ fs) = dialog_run u r q1 fs"
  by (simp add: dialog_run_append)

lemma dialog_puts: "length bs = n \<Longrightarrow> n < 160 \<Longrightarrow> dialog_run u r (Recording (n + k)) (map FilePut bs) = Some (Recording k)"
  by (induction bs arbitrary: n) auto

lemma dialog_packet:
  assumes "length bs = 160" "q \<in> {Playing, Recording 0}"
  shows "dialog_run u r q (map FilePut bs) = Some (Recording 0)"
proof -
  obtain b bs' where b: "bs = b # bs'" "length bs' = 159" using assms(1) by (cases bs) auto
  then show ?thesis using dialog_puts [of bs' 159 u r 0] assms(2) by auto
qed

section \<open>What the passes send\<close>

lemma read_str_Inr: "read_str m = Inr s \<longleftrightarrow> 0 \<in> set m \<and> s = cstr m"
  by (cases "0 \<in> set m") (auto simp: read_str_ok read_str_fault)

text \<open>A text that was printed had all its arguments.\<close>

lemma emit_parts:
  "emit m k pss = Inr r \<Longrightarrow> ps \<in> set pss \<Longrightarrow> p \<in> set ps \<Longrightarrow> \<exists>s. fmt_part p = Inr s"
proof (induction pss arbitrary: m k)
  case (Cons qs pss)
  have o: "fmt_out qs = Inr t \<Longrightarrow> p \<in> set qs \<Longrightarrow> \<exists>s. fmt_part p = Inr s" for qs t p
    by (induction qs arbitrary: t) (auto elim!: bindR_InrE)
  then show ?case using Cons by (auto simp: sprintf_def elim!: bindR_InrE)
qed simp

lemma emit_texts:
  assumes "emit (bzero BUFSIZE) 0 pss = Inr (m, k)" "\<forall>ps \<in> set pss. \<forall>p \<in> set ps. \<forall>s. p = Txt s \<longrightarrow> CHR 0x00 \<notin> set s"
  shows "m = filled (concat (map fmt_text pss)) BUFSIZE" "k = length (concat (map fmt_text pss))"
    "0 \<notin> set (concat (map fmt_text pss))" "k < BUFSIZE"
proof -
  have ok: "part_ok p" if "ps \<in> set pss" "p \<in> set ps" for ps p
    using emit_parts [OF assms(1) that] assms(2) that by (cases p) (auto simp: read_str_Inr)
  have b: "0 < BUFSIZE" by (simp add: BUFSIZE_def)
  show "m = filled (concat (map fmt_text pss)) BUFSIZE" "k = length (concat (map fmt_text pss))" "k < BUFSIZE"
    using emit_zero [of pss BUFSIZE] ok b assms(1) by (auto simp: Let_def split: if_splits)
  show "0 \<notin> set (concat (map fmt_text pss))" by (rule lines_no_nul) (use ok in blast)
qed

lemma invite_starts:
  assumes "CreateInvite g rnd own acc auth ip port rtp server = Inr g'" "0 \<in> set (SIP_mess g')"
  shows "is_invite (cstr (SIP_mess g'))"
proof -
  obtain sdp n m k s m' where e: "emit (bzero BUFSIZE) 0 (sdp_lines ip rtp) = Inr (sdp, n)"
    "emit (bzero BUFSIZE) 0 (invite_lines g rnd own acc ip port server n @ [[Str auth, eol, eol]]) = Inr (m, k)"
    "mem_write k s m = Inr m'" "g' = g\<lparr>SIP_mess := m'\<rparr>"
    using assms(1) unfolding CreateInvite_def by (auto elim!: bindR_InrE split: prod.splits)
  let ?t = "concat (map fmt_text (invite_lines g rnd own acc ip port server n @ [[Str auth, eol, eol]]))"
  have t: "m = filled ?t BUFSIZE" "k = length ?t" "0 \<notin> set ?t"
    using emit_texts [OF e(2)] by (auto simp: invite_lines_def)
  obtain x where x: "?t = lit ''INVITE sip:'' @ x" by (simp add: invite_lines_def fmt_text_def)
  obtain y where "m' = ?t @ y" using e(3) t(1,2) by (auto simp: mem_write_Inr_iff filled_def)
  then have m': "m' = ?t @ y" "0 \<in> set y" using assms(2) e(4) t(3) by auto
  then have "m' = (?t @ cstr y) @ 0 # drop (Suc (length (cstr y))) y" using cstr_split [OF m'(2)] by simp
  then have "cstr m' = ?t @ cstr y" using cstr_nul [of "?t @ cstr y"] t(3) cstr_set by (metis Un_iff set_append)
  then have "cstr m' = lit ''INVITE sip:'' @ x @ cstr y" unfolding x by (simp only: append_assoc)
  then show ?thesis using e(4) by (simp add: is_invite_def prefix_def del: lit_simps)
qed

lemma ack_starts:
  assumes "CreateAck g acc server = Inr g'"
  shows "is_ack (cstr (SIP_mess g'))"
proof -
  obtain m k where e: "emit (bzero BUFSIZE) 0
        ([[Txt ''ACK sip:'', Str acc, Txt ''@'', Str server, Txt '' SIP/2.0'', eol],
          [Txt ''Via:'', Str (mess_via (SIP_ans_mess g)), eol], [Txt ''From:'', Str (mess_from (SIP_ans_mess g)), eol],
          [Txt ''Max-Forwards: 70'', eol]] @ echo_lines (SIP_ans_mess g)) = Inr (m, k)" (is "emit _ _ ?ls = _")
    "g' = g\<lparr>SIP_mess := m\<rparr>"
    using assms unfolding CreateAck_def Let_def by (auto elim!: bindR_InrE split: prod.splits)
  have t: "m = filled (concat (map fmt_text ?ls)) BUFSIZE" "k = length (concat (map fmt_text ?ls))"
    "0 \<notin> set (concat (map fmt_text ?ls))" "k < BUFSIZE"
    using emit_texts [OF e(1)] by (auto simp: echo_lines_def)
  obtain x where "concat (map fmt_text ?ls) = lit ''ACK sip:'' @ x" by (simp add: fmt_text_def)
  then show ?thesis using filled_nul(2) [of "concat (map fmt_text ?ls)" BUFSIZE] t e(2)
    by (simp add: is_ack_def prefix_def del: lit_simps)
qed

lemma ok_starts:
  assumes "Create200 g = Inr g'"
  shows "is_ok (cstr (SIP_mess g'))"
proof -
  obtain m k where e: "emit (bzero BUFSIZE) 0
        ([[Txt ''SIP/2.0 200 OK'', eol],
          [Txt ''Via:'', Str (mess_via (SIP_ans_mess g)), eol], [Txt ''From:'', Str (mess_from (SIP_ans_mess g)), eol]]
         @ echo_lines (SIP_ans_mess g)) = Inr (m, k)" (is "emit _ _ ?ls = _")
    "g' = g\<lparr>SIP_mess := m\<rparr>"
    using assms unfolding Create200_def Let_def by (auto elim!: bindR_InrE split: prod.splits)
  have t: "m = filled (concat (map fmt_text ?ls)) BUFSIZE" "k = length (concat (map fmt_text ?ls))"
    "0 \<notin> set (concat (map fmt_text ?ls))" "k < BUFSIZE"
    using emit_texts [OF e(1)] by (auto simp: echo_lines_def)
  obtain x where "concat (map fmt_text ?ls) = lit ''SIP/2.0 200 OK'' @ x" by (simp add: fmt_text_def)
  then show ?thesis using filled_nul(2) [of "concat (map fmt_text ?ls)" BUFSIZE] t e(2)
    by (simp add: is_ok_def prefix_def del: lit_simps)
qed

named_theorems sends "what an operation adds to the trace"

lemma send_mess_trace:
  assumes "send_mess inp sock s = Inr s'"
  shows "trace s' = trace s @ [SipSend sock (cstr (SIP_mess (glob s)))]" "0 \<in> set (SIP_mess (glob s))"
    "g_bytes s' = in_sent inp"
proof -
  obtain b d where b: "strcpy (buf s) (SIP_mess (glob s)) = Inr b" "read_str b = Inr d"
    "s' = s\<lparr>buf := b, g_bytes := in_sent inp, trace := trace s @ [SipSend sock d]\<rparr>"
    using assms unfolding send_mess_def by (auto elim!: bindR_InrE)
  have z: "0 \<in> set (SIP_mess (glob s))"
  proof (rule ccontr)
    assume "0 \<notin> set (SIP_mess (glob s))"
    then show False using b(1) by (auto simp: strcpy_def read_str_fault)
  qed
  show "trace s' = trace s @ [SipSend sock (cstr (SIP_mess (glob s)))]" "0 \<in> set (SIP_mess (glob s))"
    "g_bytes s' = in_sent inp"
    using b strcpy_Inr [OF b(1)] z by (auto simp: read_str_Inr)
qed

lemma send_invite_trace [sends]:
  assumes "send_invite a inp sock auth s = Inr s'"
  shows "\<exists>d. trace s' = trace s @ [SipSend sock d] \<and> is_invite d"
  using assms send_mess_trace invite_starts unfolding send_invite_def by (fastforce elim!: bindR_InrE)

lemma send_ack_trace [sends]:
  assumes "send_ack a inp sock s = Inr s'"
  shows "\<exists>d. trace s' = trace s @ [SipSend sock d] \<and> is_ack d"
  using assms send_mess_trace ack_starts unfolding send_ack_def by (fastforce elim!: bindR_InrE)

lemma challenge_trace [sends]:
  assumes "answer_challenge a inp sock s = Inr s'"
  shows "\<exists>d. trace s' = trace s @ [SipSend sock d] \<and> is_invite d"
proof -
  obtain auth g where "send_invite a inp sock auth (s\<lparr>glob := g\<rparr>) = Inr s'"
    using assms unfolding answer_challenge_def Let_def by (auto elim!: bindR_InrE split: prod.splits)
  then show ?thesis using send_invite_trace by fastforce
qed

lemma record_loop_trace:
  "record_loop pkt y bp tr = Inr (bp', tr') \<Longrightarrow> \<exists>bs. tr' = tr @ map FilePut bs \<and> length bs = 160 - y"
proof (induction pkt y bp tr rule: record_loop.induct)
  case (1 pkt y bp tr)
  show ?case
  proof (cases "y < 160")
    case True
    then obtain v where "mem_read (12 + y) 1 pkt = Inr v"
      "record_loop pkt (Suc y) (uint (hd v)) (tr @ [FilePut (hd v)]) = Inr (bp', tr')"
      using 1(2) by (subst (asm) record_loop.simps) (auto simp: bindR_eq_Inr)
    then obtain bs where "tr' = (tr @ [FilePut (hd v)]) @ map FilePut bs" "length bs = 160 - Suc y"
      using 1(1) [OF True] by blast
    then show ?thesis using True by (intro exI [of _ "hd v # bs"]) simp
  next
    case False
    then show ?thesis using 1(2) by (subst (asm) record_loop.simps) simp
  qed
qed

text \<open>An exchange sends one voice packet or records one, depending on \<open>mess_trans\<close>.\<close>

lemma rtp_exchange_trace:
  assumes "rtp_exchange inp s sc = Inr (s', sc')"
  shows "trace s' = trace s \<and> mess_trans sc' = mess_trans sc
    \<or> (\<exists>p. trace s' = trace s @ [RtpSend (RTP_data_sock sc) p] \<and> length p = 172 \<and> mess_trans sc = 0 \<and> mess_trans sc' \<in> {0, 1})
    \<or> (\<exists>bs. trace s' = trace s @ map FilePut bs \<and> length bs = 160 \<and> mess_trans sc = 1 \<and> mess_trans sc' = 1)"
proof -
  have r: "mem_read 0 172 m = Inr p \<Longrightarrow> length p = 172" for m :: "byte list" and p by (auto simp: mem_read_Inr)
  show ?thesis
    using assms r record_loop_trace unfolding rtp_exchange_def Let_def
    by (fastforce elim!: bindR_InrE split: option.splits if_splits prod.splits)
qed

section \<open>Runs of a call are runs of the automaton\<close>

text \<open>Where in the dialog a call stands.\<close>

fun talking :: "sip_call \<Rightarrow> dialog \<Rightarrow> bool" where
  "talking sc q \<longleftrightarrow> mess_trans sc = 0 \<and> q \<in> {Acked, Playing} \<or> mess_trans sc = 1 \<and> q \<in> {Playing, Recording 0}"

definition position :: "sip_call \<Rightarrow> dialog \<Rightarrow> bool" where
  "position sc q \<longleftrightarrow>
     (if call_end sc = 1 then q = Closed (return_code sc = 2)
      else case sip_state sc of
          SIP_SESSION_STATE_START \<Rightarrow> q \<in> {Idle, Calling} \<and> (V sc \<noteq> VYZOV_STATE_INIT \<longrightarrow> mess_trans sc = 0)
        | SIP_SESSION_STATE_INVITE_SENDED \<Rightarrow> q = Calling \<and> mess_trans sc = 0
        | SIP_SESSION_STATE_INVITE_COMPLETED \<Rightarrow> ifile sc \<noteq> ClosedFile \<and> talking sc q
        | SIP_SESSION_STATE_BYE_SENDED \<Rightarrow> (if ifile sc = ClosedFile then q = Answered else talking sc q)
        | SIP_SESSION_STATE_BYE_COMPLETED \<Rightarrow> q = (if return_code sc = 2 then Acked else Answered))"

definition dialog_rel :: "sip_event list \<Rightarrow> sip_app \<times> sip_call \<Rightarrow> bool" where
  "dialog_rel t0 st \<longleftrightarrow> (\<exists>evs q. trace (fst st) = t0 @ evs
     \<and> dialog_run (sudp (snd st)) (RTP_data_sock (snd st)) Idle evs = Some q \<and> position (snd st) q)"

lemma dialog_relI:
  assumes "dialog_rel t0 (s, sc)" "sudp sc' = sudp sc" "RTP_data_sock sc' = RTP_data_sock sc" "trace s' = trace s @ es"
    and "\<And>q. position sc q \<Longrightarrow> \<exists>q'. dialog_run (sudp sc) (RTP_data_sock sc) q es = Some q' \<and> position sc' q'"
  shows "dialog_rel t0 (s', sc')"
proof -
  obtain evs q where q: "trace s = t0 @ evs" "dialog_run (sudp sc) (RTP_data_sock sc) Idle evs = Some q" "position sc q"
    using assms(1) by (auto simp: dialog_rel_def)
  then show ?thesis
    using assms(2-5) dialog_run_snoc [OF q(2), of es] by (fastforce simp: dialog_rel_def)
qed

lemma exchange_dialog:
  assumes "rtp_exchange inp s sc = Inr (s', sc')"
  shows "\<exists>es. trace s' = trace s @ es
    \<and> (\<forall>q. talking sc q \<longrightarrow> (\<exists>q'. dialog_run (sudp sc) (RTP_data_sock sc) q es = Some q' \<and> talking sc' q'))"
  using rtp_exchange_trace [OF assms]
proof (elim disjE exE conjE)
  fix p assume p: "trace s' = trace s @ [RtpSend (RTP_data_sock sc) p]" "length p = 172" "mess_trans sc = 0"
    "mess_trans sc' \<in> {0, 1}"
  then show ?thesis by (intro exI [of _ "[RtpSend (RTP_data_sock sc) p]"]) auto
next
  fix bs assume b: "trace s' = trace s @ map FilePut bs" "length bs = 160" "mess_trans sc = 1" "mess_trans sc' = 1"
  then show ?thesis using dialog_packet [of bs] by (intro exI [of _ "map FilePut bs"]) auto
qed (intro exI [of _ "[]"], simp)

lemma invite_sended_dialog:
  assumes "invite_sended a inp s sc = Inr (s', sc')" "sip_state sc = SIP_SESSION_STATE_INVITE_SENDED"
    and "return_code sc \<noteq> 2" "call_end sc \<noteq> 1" "dialog_rel t0 (s, sc)"
  shows "dialog_rel t0 (s', sc')"
proof -
  let ?open = "\<lambda>f. sc\<lparr>ifile := f, sip_state := SIP_SESSION_STATE_INVITE_COMPLETED\<rparr>"
  have "trace s' = trace s \<and> sc' = sc \<or> (\<exists>d. trace s' = trace s @ [SipSend (sudp sc) d] \<and> is_invite d) \<and> sc' = sc
    \<or> (\<exists>d. trace s' = trace s @ [SipSend (sudp sc) d] \<and> is_ack d)
      \<and> sc' \<in> {sc\<lparr>sip_state := SIP_SESSION_STATE_BYE_COMPLETED, return_code := 2\<rparr>, ?open OpenFile, ?open NoFile}"
    using assms(1) unfolding invite_sended_def Let_def
    by (auto elim!: bindR_InrE dest!: sends parse_trace split: if_splits)
  moreover have "\<not> is_invite d" if "is_ack d" for d using that by (auto simp: is_ack_def is_invite_def prefix_def)
  ultimately consider "trace s' = trace s @ []" "sc' = sc"
    | d where "trace s' = trace s @ [SipSend (sudp sc) d]" "is_invite d" "sc' = sc"
    | d where "trace s' = trace s @ [SipSend (sudp sc) d]" "is_ack d" "\<not> is_invite d"
        "sc' \<in> {sc\<lparr>sip_state := SIP_SESSION_STATE_BYE_COMPLETED, return_code := 2\<rparr>, ?open OpenFile, ?open NoFile}"
    by auto
  then show ?thesis
    by cases (erule dialog_relI [OF assms(5), rotated 2], use assms(2-4) in \<open>auto simp: position_def\<close>)+
qed

lemma invite_completed_dialog:
  assumes "invite_completed inp s sc = Inr (s', sc')" "sip_state sc = SIP_SESSION_STATE_INVITE_COMPLETED"
    and "call_end sc \<noteq> 1" "dialog_rel t0 (s, sc)"
  shows "dialog_rel t0 (s', sc')"
proof -
  obtain s1 sc1 where r: "rtp_exchange inp s sc = Inr (s1, sc1)"
    and q: "(let s = recv_sip inp s1 in if g_bytes s < 0 then Inr (s, sc1)
       else bindR (parse_buf inp s) (\<lambda>s. bindR (read_str (mess_command (SIP_ans_mess (glob s)))) (\<lambda>cmd.
         Inr (s, if cmd = lit ''BYE'' then sc1\<lparr>sip_state := SIP_SESSION_STATE_BYE_SENDED\<rparr> else sc1)))) = Inr (s', sc')"
    using assms(1) unfolding invite_completed_def by (auto elim!: bindR_InrE)
  have t: "trace s' = trace s1" "sc' \<in> {sc1, sc1\<lparr>sip_state := SIP_SESSION_STATE_BYE_SENDED\<rparr>}"
    using q unfolding Let_def by (auto elim!: bindR_InrE dest!: parse_trace simp del: lit_simps split: if_splits)
  note f = rtp_exchange_frame [OF r]
  obtain es where es: "trace s1 = trace s @ es"
    "\<And>q. talking sc q \<Longrightarrow> \<exists>q'. dialog_run (sudp sc) (RTP_data_sock sc) q es = Some q' \<and> talking sc1 q'"
    using exchange_dialog [OF r] by blast
  have c: "sudp sc' = sudp sc" "RTP_data_sock sc' = RTP_data_sock sc" "call_end sc' \<noteq> 1" "ifile sc' = ifile sc"
    "mess_trans sc' = mess_trans sc1" "sip_state sc' \<in> {SIP_SESSION_STATE_INVITE_COMPLETED, SIP_SESSION_STATE_BYE_SENDED}"
    using t(2) f assms(2,3) by auto
  show ?thesis
  proof (rule dialog_relI [OF assms(4) c(1,2)])
    show "trace s' = trace s @ es" by (simp add: t(1) es(1))
    fix q assume "position sc q"
    then have q: "ifile sc \<noteq> ClosedFile" "talking sc q" using assms(2,3) by (simp_all add: position_def)
    then show "\<exists>q'. dialog_run (sudp sc) (RTP_data_sock sc) q es = Some q' \<and> position sc' q'"
      using es(2) [OF q(2)] c(3-6) by (auto simp: position_def)
  qed
qed

lemma bye_sended_dialog:
  assumes "bye_sended inp s sc = Inr (s', sc')" "sip_state sc = SIP_SESSION_STATE_BYE_SENDED"
    and "call_end sc \<noteq> 1" "return_code sc \<noteq> 2" "dialog_rel t0 (s, sc)"
  shows "dialog_rel t0 (s', sc')"
proof -
  have o: "ifile sc = OpenFile" using assms(1) by (auto simp: bye_sended_def split: if_splits)
  obtain g s1 where g: "Create200 (glob s) = Inr g"
    "send_mess inp (sudp sc) (s\<lparr>buf := bzero BUFSIZE, glob := g\<rparr>) = Inr s1"
    "s' = s1" "sc' \<in> {sc\<lparr>ifile := ClosedFile, sip_state := SIP_SESSION_STATE_BYE_COMPLETED\<rparr>, sc\<lparr>ifile := ClosedFile\<rparr>}"
    using assms(1) o unfolding bye_sended_def by (auto elim!: bindR_InrE split: if_splits)
  obtain d where d: "trace s' = trace s @ [SipSend (sudp sc) d]" "is_ok d"
    using send_mess_trace(1) [OF g(2)] ok_starts [OF g(1)] g(3) by auto
  show ?thesis
    by (rule dialog_relI [OF assms(5)]) (use d o g(4) assms(2-4) in \<open>auto simp: position_def\<close>)
qed

lemma session_dialog:
  assumes "Vyzov_sip a inp s sc = Inr (s', sc')" "call_end sc \<noteq> 1" "V sc = VYZOV_STATE_START"
    and "sip_state sc \<noteq> SIP_SESSION_STATE_BYE_COMPLETED \<longrightarrow> return_code sc \<noteq> 2" "dialog_rel t0 (s, sc)"
  shows "dialog_rel t0 (s', sc')"
proof (cases "sip_state sc")
  case SIP_SESSION_STATE_START
  then obtain d where "trace s' = trace s @ [SipSend (sudp sc) d]" "is_invite d"
    "sc' \<in> {sc, sc\<lparr>sip_state := SIP_SESSION_STATE_INVITE_SENDED\<rparr>}"
    using assms(1) by (fastforce simp: Vyzov_sip_def elim!: bindR_InrE dest!: sends split: if_splits)
  then show ?thesis
    by (intro dialog_relI [OF assms(5)])
      (use SIP_SESSION_STATE_START assms(2,3) in \<open>auto simp: position_def\<close>)
next
  case SIP_SESSION_STATE_BYE_COMPLETED
  then show ?thesis
    using assms(1,2) by (intro dialog_relI [OF assms(5)]) (auto simp: Vyzov_sip_def position_def)
qed (use assms invite_sended_dialog invite_completed_dialog bye_sended_dialog in \<open>auto simp: Vyzov_sip_def\<close>)

lemma pass_dialog:
  assumes "main_sip_call a inp s sc = Inr ((s', sc'), fStop)" "call_inv (s, sc)" "dialog_rel t0 (s, sc)"
  shows "dialog_rel t0 (s', sc')"
proof (cases "V sc")
  case VYZOV_STATE_INIT
  then have i: "call_init a inp s sc = Inr (s', sc')" using assms(1) by (auto simp: main_sip_call_def elim!: bindR_InrE)
  have "trace s' = trace s"
    using i unfolding call_init_def Let_def by (auto elim!: bindR_InrE split: option.splits if_splits prod.splits)
  then show ?thesis
    using call_init_frame [OF i] assms(2) VYZOV_STATE_INIT
    by (intro dialog_relI [OF assms(3), of _ _ "[]"]) (auto simp: position_def call_inv_def)
next
  case VYZOV_STATE_START
  then show ?thesis
  proof (cases "call_end sc = 1")
    case False
    then have "Vyzov_sip a inp s sc = Inr (s', sc')"
      using assms(1) VYZOV_STATE_START by (auto simp: main_sip_call_def elim!: bindR_InrE)
    then show ?thesis
      using session_dialog [OF _ False VYZOV_STATE_START _ assms(3)] assms(2) VYZOV_STATE_START
      by (auto simp: call_inv_def state_order)
  qed (use assms VYZOV_STATE_START in \<open>auto simp: main_sip_call_def dialog_rel_def position_def\<close>)
qed (use assms in \<open>auto simp: main_sip_call_def dialog_rel_def position_def call_inv_def state_order\<close>)

lemma run_dialog:
  assumes "call_run a st0 st" "fresh_call st0"
  shows "dialog_rel (trace (fst st0)) st"
  using assms(1)
proof (induction rule: call_run.induct)
  case start
  then show ?case using assms(2) by (auto simp: fresh_call_def dialog_rel_def position_def intro: exI [of _ "[]"])
next
  case (pass st inp st' fStop)
  have "call_inv st" by (rule call_run_inv [OF pass(1) assms(2)])
  then show ?case
    using pass_dialog [of a inp "fst st" "snd st" "fst st'" "snd st'" fStop] pass by simp
qed

section \<open>The language of the automaton\<close>

text \<open>What a complete dialog looks like.\<close>

definition complete_dialog :: "int \<Rightarrow> int \<Rightarrow> bool \<Rightarrow> sip_event list \<Rightarrow> bool" where
  "complete_dialog u r refused evs \<longleftrightarrow> (\<exists>invites ack packets voice oks.
     evs = map (SipSend u) (invites @ [ack]) @ map (RtpSend r) packets @ map FilePut voice @ map (SipSend u) oks
             @ [Close u, Close r]
     \<and> invites \<noteq> [] \<and> (\<forall>d \<in> set invites. is_invite d) \<and> is_ack ack
     \<and> (\<forall>p \<in> set packets. length p = 172) \<and> 160 dvd length voice \<and> (voice \<noteq> [] \<longrightarrow> packets \<noteq> [])
     \<and> (if refused then packets = [] \<and> oks = [] else \<exists>ok. oks = [ok] \<and> is_ok ok))"

lemma run_closing:
  "dialog_run u r (Closed b) es = Some (Closed c) \<Longrightarrow> es = [] \<and> c = b"
  "dialog_run u r (Closing b) es = Some (Closed c) \<Longrightarrow> es = [Close r] \<and> c = b"
proof -
  show closed: "dialog_run u r (Closed b) es = Some (Closed c) \<Longrightarrow> es = [] \<and> c = b" for es
    by (cases es) auto
  show "dialog_run u r (Closing b) es = Some (Closed c) \<Longrightarrow> es = [Close r] \<and> c = b"
  proof (cases es)
    case (Cons e es')
    then show "dialog_run u r (Closing b) es = Some (Closed c) \<Longrightarrow> es = [Close r] \<and> c = b"
      using closed [of es'] by (cases e) (auto split: if_splits)
  qed simp
qed

lemma run_answered:
  assumes "dialog_run u r Answered es = Some (Closed c)"
  shows "es = [Close u, Close r]" "\<not> c"
proof -
  obtain e es' where es: "es = e # es'" using assms by (cases es) auto
  show "es = [Close u, Close r]" "\<not> c"
    using assms run_closing(2) [of u r False es' c] by (cases e; auto simp: es split: if_splits)+
qed

text \<open>The tail of a dialog that was not refused.\<close>

definition ending :: "int \<Rightarrow> int \<Rightarrow> sip_event list \<Rightarrow> bool" where
  "ending u r es \<longleftrightarrow> (\<exists>ok. es = [SipSend u ok, Close u, Close r] \<and> is_ok ok)"

lemma ending_send:
  "dialog_run u r Answered es = Some (Closed c) \<Longrightarrow> is_ok d \<Longrightarrow> ending u r (SipSend u d # es)"
  using run_answered(1) by (auto simp: ending_def)

lemma run_recording:
  "dialog_run u r (Recording n) es = Some (Closed c) \<Longrightarrow> n < 160 \<Longrightarrow>
     \<exists>voice es'. es = map FilePut voice @ es' \<and> ending u r es' \<and> \<not> c \<and> length voice mod 160 = n"
proof (induction es arbitrary: n)
  case (Cons e es)
  show ?case
  proof (cases e)
    case (FilePut b)
    let ?n = "if n = 0 then 159 else n - 1"
    have "dialog_run u r (Recording ?n) es = Some (Closed c)" "?n < 160" using Cons.prems FilePut by auto
    from Cons.IH [OF this] obtain voice es' where v: "es = map FilePut voice @ es'" "ending u r es'" "\<not> c"
      "length voice mod 160 = ?n" by blast
    have "Suc (length voice) mod 160 = n" using v(4) Cons.prems(2) by (auto simp: mod_Suc split: if_splits)
    then show ?thesis using v FilePut by (intro exI [of _ "b # voice"]) simp
  next
    case (SipSend k d)
    then have d: "n = 0" "e = SipSend u d" "is_ok d" "dialog_run u r Answered es = Some (Closed c)"
      using Cons.prems(1) by (auto split: if_splits)
    show ?thesis
      using run_answered(2) [OF d(4)] ending_send [OF d(4,3)] d(1,2) by (intro exI [of _ "[]"] exI [of _ "e # es"]) simp
  qed (use Cons.prems in auto)
qed simp

lemma run_playing:
  "dialog_run u r Playing es = Some (Closed c) \<Longrightarrow>
     \<exists>packets voice es'. es = map (RtpSend r) packets @ map FilePut voice @ es' \<and> ending u r es' \<and> \<not> c
       \<and> (\<forall>p \<in> set packets. length p = 172) \<and> 160 dvd length voice"
proof (induction es)
  case (Cons e es)
  show ?case
  proof (cases e)
    case (RtpSend k p)
    then have p: "k = r" "length p = 172" "dialog_run u r Playing es = Some (Closed c)"
      using Cons.prems by (auto split: if_splits)
    obtain packets voice es' where "es = map (RtpSend r) packets @ map FilePut voice @ es'" "ending u r es'" "\<not> c"
      "\<forall>p \<in> set packets. length p = 172" "160 dvd length voice"
      using Cons.IH [OF p(3)] by blast
    then show ?thesis using p RtpSend by (intro exI [of _ "p # packets"] exI [of _ voice]) auto
  next
    case (FilePut b)
    then have "dialog_run u r (Recording 159) es = Some (Closed c)" using Cons.prems by simp
    then obtain voice es' where v: "es = map FilePut voice @ es'" "ending u r es'" "\<not> c" "length voice mod 160 = 159"
      using run_recording [of u r 159 es c] by auto
    have "Suc (length voice) mod 160 = 0" using v(4) by (simp only: mod_Suc) simp
    then have d: "160 dvd length (b # voice)" by (simp only: dvd_eq_mod_eq_0 list.size) simp
    have "e # es = map (RtpSend r) [] @ map FilePut (b # voice) @ es'" using v(1) FilePut by simp
    then show ?thesis using v(2,3) d by (metis empty_iff list.set(1))
  next
    case (SipSend k d)
    then have d: "e = SipSend u d" "is_ok d" "dialog_run u r Answered es = Some (Closed c)"
      using Cons.prems(1) by (auto split: if_splits)
    show ?thesis
      using run_answered(2) [OF d(3)] ending_send [OF d(3,2)] d(1)
      by (intro exI [of _ "[]"] exI [of _ "e # es"]) simp
  qed (use Cons.prems in auto)
qed simp

lemma run_acked:
  assumes "dialog_run u r Acked es = Some (Closed c)"
  shows "if c then es = [Close u, Close r]
    else \<exists>packets voice es'. es = map (RtpSend r) packets @ map FilePut voice @ es' \<and> ending u r es'
       \<and> (\<forall>p \<in> set packets. length p = 172) \<and> 160 dvd length voice \<and> (voice \<noteq> [] \<longrightarrow> packets \<noteq> [])"
proof -
  obtain e es1 where es: "es = e # es1" using assms by (cases es) auto
  show ?thesis
  proof (cases e)
    case (SipSend k d)
    then have d: "e = SipSend u d" "is_ok d" "dialog_run u r Answered es1 = Some (Closed c)"
      using assms es by (auto split: if_splits)
    have "es = map (RtpSend r) [] @ map FilePut [] @ es" "ending u r es" using ending_send [OF d(3,2)] d(1) es by simp_all
    then show ?thesis using run_answered(2) [OF d(3)] by (metis dvd_0_right empty_iff list.set(1) list.size(3))
  next
    case (RtpSend k p)
    then have p: "k = r" "length p = 172" "dialog_run u r Playing es1 = Some (Closed c)"
      using assms es by (auto split: if_splits)
    obtain packets voice es' where "es1 = map (RtpSend r) packets @ map FilePut voice @ es'" "ending u r es'" "\<not> c"
      "\<forall>p \<in> set packets. length p = 172" "160 dvd length voice"
      using run_playing [OF p(3)] by blast
    then have "es = map (RtpSend r) (p # packets) @ map FilePut voice @ es'" "ending u r es'" "\<not> c"
      "\<forall>p \<in> set (p # packets). length p = 172" "160 dvd length voice" using p RtpSend es by simp_all
    then show ?thesis by (metis list.distinct(1))
  next
    case (Close k)
    then show ?thesis using assms es run_closing(2) [of u r True es1 c] by (auto split: if_splits)
  qed (use assms es in auto)
qed

lemma run_calling:
  "dialog_run u r Calling es = Some (Closed c) \<Longrightarrow>
     \<exists>invites ack es'. es = map (SipSend u) (invites @ [ack]) @ es' \<and> (\<forall>d \<in> set invites. is_invite d) \<and> is_ack ack
       \<and> dialog_run u r Acked es' = Some (Closed c)"
proof (induction es)
  case (Cons e es)
  show ?case
  proof (cases e)
    case (SipSend k d)
    show ?thesis
    proof (cases "is_invite d")
      case True
      then have "k = u" "dialog_run u r Calling es = Some (Closed c)" using Cons.prems SipSend by (auto split: if_splits)
      then obtain invites ack es' where "es = map (SipSend u) (invites @ [ack]) @ es'" "\<forall>d \<in> set invites. is_invite d"
        "is_ack ack" "dialog_run u r Acked es' = Some (Closed c)" using Cons.IH by blast
      then show ?thesis using \<open>k = u\<close> True SipSend by (intro exI [of _ "d # invites"]) auto
    next
      case False
      then show ?thesis
        using Cons.prems SipSend by (intro exI [of _ "[]"] exI [of _ d] exI [of _ es]) (auto split: if_splits)
    qed
  qed (use Cons.prems in auto)
qed simp

lemma run_idle:
  assumes "dialog_run u r Idle es = Some (Closed c)"
  shows "complete_dialog u r c es"
proof -
  obtain e es1 where es: "es = e # es1" using assms by (cases es) auto
  obtain d where d: "e = SipSend u d" "is_invite d" "dialog_run u r Calling es1 = Some (Closed c)"
    using assms es by (cases e) (auto split: if_splits)
  obtain invites ack es' where i: "es1 = map (SipSend u) (invites @ [ack]) @ es'" "\<forall>d \<in> set invites. is_invite d"
    "is_ack ack" "dialog_run u r Acked es' = Some (Closed c)" using run_calling [OF d(3)] by blast
  have e: "es = map (SipSend u) ((d # invites) @ [ack]) @ es'" "\<forall>d \<in> set (d # invites). is_invite d"
    using i(1,2) es d by simp_all
  show ?thesis
  proof (cases c)
    case True
    then have "es' = [Close u, Close r]" using run_acked [OF i(4)] by simp
    then show ?thesis
      unfolding complete_dialog_def using e i(3) True
      by (intro exI [of _ "d # invites"] exI [of _ ack] exI [of _ "[]"]) simp
  next
    case False
    then obtain packets voice ok where "es' = map (RtpSend r) packets @ map FilePut voice @ [SipSend u ok, Close u, Close r]"
      "is_ok ok" "\<forall>p \<in> set packets. length p = 172" "160 dvd length voice" "voice \<noteq> [] \<longrightarrow> packets \<noteq> []"
      using run_acked [OF i(4)] unfolding ending_def by auto
    then show ?thesis
      unfolding complete_dialog_def using e i(3) False
      by (intro exI [of _ "d # invites"] exI [of _ ack] exI [of _ packets] exI [of _ voice] exI [of _ "[ok]"]) simp
  qed
qed

section \<open>Properties\<close>

text \<open>
  C5: every call that returns has held exactly one dialog, whatever the peers sent and the system
  answered: INVITE requests, one ACK, then either nothing more, with return code 2, or voice packets of
  172 bytes out, then whole voice packets of 160 samples recorded, and one 200 answer, with another
  return code; then both sockets are closed.
\<close>

theorem call_holds_dialog:
  assumes "helen_setup a inet fd1 fd2 s sc = Inr (s0, sc0)" "closes s = []"
    and "main_sip_call_Helen a inet fd1 fd2 inp s sc = Some (Inr (s', code))"
  shows "\<exists>evs. trace s' = trace s0 @ evs \<and> complete_dialog fd1 fd2 (code = 2) evs"
proof -
  obtain sc' where sc': "call_run a (s0, sc0) (s', sc')" "fresh_call (s0, sc0)" "call_inv (s', sc')"
    "V sc' = VYZOV_STATE_END" "sudp sc' = fd1" "RTP_data_sock sc' = fd2" "code = return_code sc'"
    using helen_end_state [OF assms] by blast
  have e: "call_end sc' = 1" using sc'(3,4) by (simp add: call_inv_def state_order)
  obtain evs q where evs: "trace s' = trace s0 @ evs" "dialog_run fd1 fd2 Idle evs = Some q" "position sc' q"
    using run_dialog [OF sc'(1,2)] sc'(5,6) by (auto simp: dialog_rel_def)
  have "q = Closed (code = 2)" using evs(3) e sc'(7) by (simp add: position_def)
  then show ?thesis using run_idle evs(1,2) by blast
qed

theorem call_holds_dialog_witness:
  "\<exists>s' s0 sc0 evs. helen_setup demo_args (\<lambda>_. 0) 3 4 demo_app demo_call = Inr (s0, sc0)
    \<and> main_sip_call_Helen demo_args (\<lambda>_. 0) 3 4 refused_inputs demo_app demo_call = Some (Inr (s', 2))
    \<and> trace s' = trace s0 @ evs \<and> complete_dialog 3 4 True evs"
proof -
  obtain s' where s': "main_sip_call_Helen demo_args (\<lambda>_. 0) 3 4 refused_inputs demo_app demo_call = Some (Inr (s', 2))"
    using demo_call_refused [of "[]"] unfolding demo_app_trace by blast
  obtain s0 sc0 where s0: "helen_setup demo_args (\<lambda>_. 0) 3 4 demo_app demo_call = Inr (s0, sc0)"
    using demo_setup [of "[]"] unfolding demo_app_trace by blast
  have c: "closes demo_app = []" by (simp add: closes_def demo_app_def)
  obtain evs where "trace s' = trace s0 @ evs" "complete_dialog 3 4 ((2::int) = 2) evs"
    using call_holds_dialog [OF s0 c s'] by blast
  then show ?thesis using s0 s' by (metis (full_types))
qed

end
