(* ===== verification/Codec_Tables.thy ===== *)
theory Codec_Tables
  imports Codec
begin

text \<open>
  The tables of \<open>drv/linux/include/Ab_arm_codec.h\<close> that convert between the two companding laws.  No
  function of the driver reads them; what they hold is compared here with the coders of \<open>Codec\<close>.
\<close>

section \<open>The tables\<close>

text \<open>Both are indexed by the position of a code, counted from the smallest amplitude; \<open>u2a\<close> yields positions from 1.\<close>

definition u2a :: "nat list" where
  "u2a =
     [1, 1, 2, 2, 3, 3, 4, 4, 5, 5, 6, 6, 7, 7, 8, 8,
      9, 10, 11, 12, 13, 14, 15, 16, 17, 18, 19, 20, 21, 22, 23, 24,
      25, 27, 29, 31, 33, 34, 35, 36, 37, 38, 39, 40, 41, 42, 43, 44,
      46, 48, 49, 50, 51, 52, 53, 54, 55, 56, 57, 58, 59, 60, 61, 62,
      64, 65, 66, 67, 68, 69, 70, 71, 72, 73, 74, 75, 76, 77, 78, 79,
      80, 82, 83, 84, 85, 86, 87, 88, 89, 90, 91, 92, 93, 94, 95, 96,
      97, 98, 99, 100, 101, 102, 103, 104, 105, 106, 107, 108, 109, 110, 111, 112,
      113, 114, 115, 116, 117, 118, 119, 120, 121, 122, 123, 124, 125, 126, 127, 128]"

definition a2u :: "nat list" where
  "a2u =
     [1, 3, 5, 7, 9, 11, 13, 15, 16, 17, 18, 19, 20, 21, 22, 23,
      24, 25, 26, 27, 28, 29, 30, 31, 32, 32, 33, 33, 34, 34, 35, 35,
      36, 37, 38, 39, 40, 41, 42, 43, 44, 45, 46, 47, 48, 48, 49, 49,
      50, 51, 52, 53, 54, 55, 56, 57, 58, 59, 60, 61, 62, 63, 64, 64,
      65, 66, 67, 68, 69, 70, 71, 72, 73, 74, 75, 76, 77, 78, 79, 80,
      80, 81, 82, 83, 84, 85, 86, 87, 88, 89, 90, 91, 92, 93, 94, 95,
      96, 97, 98, 99, 100, 101, 102, 103, 104, 105, 106, 107, 108, 109, 110, 111,
      112, 113, 114, 115, 116, 117, 118, 119, 120, 121, 122, 123, 124, 125, 126, 127]"

section \<open>What they convert\<close>

lemma table_sizes: "length u2a = 128" "length a2u = 128"
  by (simp_all add: u2a_def a2u_def)

lemma tables_ordered: "sorted u2a" "sorted a2u" "\<forall>n \<in> set u2a. 1 \<le> n \<and> n \<le> 128" "\<forall>n \<in> set a2u. 1 \<le> n \<and> n \<le> 127"
proof -
  have "successively (\<le>) u2a" "successively (\<le>) a2u" by (simp_all add: u2a_def a2u_def)
  then show "sorted u2a" "sorted a2u" by (simp_all add: sorted_iff_nth_Suc successively_conv_nth)
  show "\<forall>n \<in> set u2a. 1 \<le> n \<and> n \<le> 128" "\<forall>n \<in> set a2u. 1 \<le> n \<and> n \<le> 127"
    by (simp_all add: u2a_def a2u_def)
qed

text \<open>
  From u-law to A-law and back: every position returns to itself but the even ones below 16, which come
  back as their successors.
\<close>

lemma conversion_roundtrip:
  "map (\<lambda>k. a2u ! (k - 1)) u2a = map (\<lambda>n. if n < 16 then 2 * (n div 2) + 1 else n) [0..<128]"
  by (simp add: u2a_def a2u_def upt_rec)

text \<open>The codes of the n-th positive amplitude, as the coders use them.\<close>

definition ulaw_code :: "nat \<Rightarrow> int" where "ulaw_code n = 0xFF - int n"
definition alaw_code :: "nat \<Rightarrow> int" where "alaw_code n = 0xD5 XOR int n"

lemma a2u_agrees:
  "map (\<lambda>n. linear2ulaw (alaw2linear (alaw_code n))) [0..<128] =
   map (\<lambda>n. ulaw_code (a2u ! n + (if 80 \<le> n \<and> n < 96 then 1 else 0))) [0..<128]"
  by (simp add: upt_rec alaw_code_def ulaw_code_def linear2ulaw_def linear2alaw_def alaw2linear_def ulaw2linear_def
      codec_consts search_def seg_uend_def seg_aend_def a2u_def u2a_def)

lemma u2a_agrees:
  "map (\<lambda>n. linear2alaw (ulaw2linear (ulaw_code n))) [0..<128] =
   map (\<lambda>n. alaw_code (u2a ! n - (if n \<in> {48, 49, 64} \<or> 81 \<le> n \<and> n < 96 then 2 else 1))) [0..<128]"
  by (simp add: upt_rec alaw_code_def ulaw_code_def linear2ulaw_def linear2alaw_def alaw2linear_def ulaw2linear_def
      codec_consts search_def seg_uend_def seg_aend_def a2u_def u2a_def)

end
