(* ===== verification/Selftest_Data.thy ===== *)
theory Selftest_Data
  imports Prelude
begin

text \<open>
  The data of the self-tests (\<open>drv/linux/Ab_arm_test_drv_file.c\<close>): the two descriptions of the sound
  hardware, and the sizes that \<open>test_sizeof_function\<close> prints.  The flags are those of the kernel's
  sound headers, kept as symbols.
\<close>

section \<open>Sound hardware\<close>

datatype pcm_info =
    SNDRV_PCM_INFO_INTERLEAVED | SNDRV_PCM_INFO_BLOCK_TRANSFER | SNDRV_PCM_INFO_MMAP | SNDRV_PCM_INFO_MMAP_VALID
  | SNDRV_PCM_INFO_PAUSE | SNDRV_PCM_INFO_RESUME | SNDRV_PCM_INFO_BATCH

datatype pcm_format =
    SNDRV_PCM_FMTBIT_S8 | SNDRV_PCM_FMTBIT_U8 | SNDRV_PCM_FMTBIT_S16_LE | SNDRV_PCM_FMTBIT_S16_BE
  | SNDRV_PCM_FMTBIT_U16_LE | SNDRV_PCM_FMTBIT_U16_BE | SNDRV_PCM_FMTBIT_S24_LE | SNDRV_PCM_FMTBIT_S24_BE
  | SNDRV_PCM_FMTBIT_U24_LE | SNDRV_PCM_FMTBIT_U24_BE | SNDRV_PCM_FMTBIT_S32_LE | SNDRV_PCM_FMTBIT_S32_BE
  | SNDRV_PCM_FMTBIT_U32_LE | SNDRV_PCM_FMTBIT_U32_BE

datatype pcm_rate = SNDRV_PCM_RATE nat | SNDRV_PCM_RATE_KNOT

record snd_pcm_hardware =
  info :: "pcm_info set"
  formats :: "pcm_format set"
  rates :: "pcm_rate set"
  rate_min :: nat
  rate_max :: nat
  channels_min :: nat
  channels_max :: nat
  buffer_bytes_max :: nat
  period_bytes_min :: nat
  period_bytes_max :: nat
  periods_min :: nat
  periods_max :: nat
  fifo_size :: nat

definition DAVINCI_PCM_FMTBITS :: "pcm_format set" where
  "DAVINCI_PCM_FMTBITS =
     {SNDRV_PCM_FMTBIT_S8, SNDRV_PCM_FMTBIT_U8, SNDRV_PCM_FMTBIT_S16_LE, SNDRV_PCM_FMTBIT_S16_BE,
      SNDRV_PCM_FMTBIT_U16_LE, SNDRV_PCM_FMTBIT_U16_BE, SNDRV_PCM_FMTBIT_S24_LE, SNDRV_PCM_FMTBIT_S24_BE,
      SNDRV_PCM_FMTBIT_U24_LE, SNDRV_PCM_FMTBIT_U24_BE, SNDRV_PCM_FMTBIT_S32_LE, SNDRV_PCM_FMTBIT_S32_BE,
      SNDRV_PCM_FMTBIT_U32_LE, SNDRV_PCM_FMTBIT_U32_BE}"

definition pcm_hardware_playback :: snd_pcm_hardware where
  "pcm_hardware_playback = \<lparr>
     info = {SNDRV_PCM_INFO_INTERLEAVED, SNDRV_PCM_INFO_BLOCK_TRANSFER, SNDRV_PCM_INFO_MMAP, SNDRV_PCM_INFO_MMAP_VALID,
       SNDRV_PCM_INFO_PAUSE, SNDRV_PCM_INFO_RESUME, SNDRV_PCM_INFO_BATCH},
     formats = DAVINCI_PCM_FMTBITS,
     rates = {SNDRV_PCM_RATE 8000, SNDRV_PCM_RATE 16000, SNDRV_PCM_RATE 22050, SNDRV_PCM_RATE 32000,
       SNDRV_PCM_RATE 44100, SNDRV_PCM_RATE 48000, SNDRV_PCM_RATE 88200, SNDRV_PCM_RATE 96000, SNDRV_PCM_RATE_KNOT},
     rate_min = 8000, rate_max = 96000, channels_min = 2, channels_max = 384, buffer_bytes_max = 128 * 1024,
     period_bytes_min = 32, period_bytes_max = 8 * 1024, periods_min = 16, periods_max = 255, fifo_size = 0\<rparr>"

definition pcm_hardware_capture :: snd_pcm_hardware where
  "pcm_hardware_capture = \<lparr>
     info = {SNDRV_PCM_INFO_INTERLEAVED, SNDRV_PCM_INFO_BLOCK_TRANSFER, SNDRV_PCM_INFO_MMAP, SNDRV_PCM_INFO_MMAP_VALID,
       SNDRV_PCM_INFO_PAUSE, SNDRV_PCM_INFO_BATCH},
     formats = DAVINCI_PCM_FMTBITS,
     rates = {SNDRV_PCM_RATE 8000, SNDRV_PCM_RATE 16000, SNDRV_PCM_RATE 22050, SNDRV_PCM_RATE 32000,
       SNDRV_PCM_RATE 44100, SNDRV_PCM_RATE 48000, SNDRV_PCM_RATE 88200, SNDRV_PCM_RATE 96000, SNDRV_PCM_RATE_KNOT},
     rate_min = 8000, rate_max = 96000, channels_min = 2, channels_max = 384, buffer_bytes_max = 128 * 1024,
     period_bytes_min = 32, period_bytes_max = 8 * 1024, periods_min = 16, periods_max = 255, fifo_size = 0\<rparr>"

text \<open>A description a buffer can be laid out by: its ranges are not empty and every listed rate is in them.\<close>

definition layout_ok :: "snd_pcm_hardware \<Rightarrow> bool" where
  "layout_ok h \<longleftrightarrow> channels_min h \<le> channels_max h \<and> period_bytes_min h \<le> period_bytes_max h
     \<and> periods_min h \<le> periods_max h \<and> periods_min h * period_bytes_max h \<le> buffer_bytes_max h
     \<and> (\<forall>r. SNDRV_PCM_RATE r \<in> rates h \<longrightarrow> rate_min h \<le> r \<and> r \<le> rate_max h)"

text \<open>Both descriptions fit: they differ only in that capture cannot be resumed.\<close>

lemma hardware_layout:
  "layout_ok pcm_hardware_playback" "layout_ok pcm_hardware_capture"
  "pcm_hardware_capture = pcm_hardware_playback\<lparr>info := info pcm_hardware_playback - {SNDRV_PCM_INFO_RESUME}\<rparr>"
  by (auto simp: layout_ok_def pcm_hardware_playback_def pcm_hardware_capture_def)

section \<open>Sizes of the types\<close>

datatype ctype =
    Signed_char | Unsigned_char | Signed_short | Unsigned_short | Signed_int | Signed_long | Unsigned_long | Float | Size_t | Loff_t

text \<open>The 32-bit ARM ABI; \<open>loff_t\<close> is the kernel's 64-bit offset.\<close>

fun sizeof :: "ctype \<Rightarrow> nat" where
  "sizeof Signed_char = 1"
| "sizeof Unsigned_char = 1"
| "sizeof Signed_short = 2"
| "sizeof Unsigned_short = 2"
| "sizeof Signed_int = 4"
| "sizeof Signed_long = 4"
| "sizeof Unsigned_long = 4"
| "sizeof Float = 4"
| "sizeof Size_t = 4"
| "sizeof Loff_t = 8"

definition test_sizeof_function :: "(string \<times> nat) list" where
  "test_sizeof_function =
     [(''float =  '', sizeof Float), (''short int =  '', sizeof Unsigned_short), (''int =  '', sizeof Signed_int),
      (''lott_f =  '', sizeof Loff_t), (''size_t =  '', sizeof Size_t), (''unsigned char =  '', sizeof Unsigned_char),
      (''unsigned short= '', sizeof Unsigned_short), (''unsigned long= '', sizeof Unsigned_long),
      (''signed char  =  '', sizeof Signed_char), (''signed short= '', sizeof Signed_short),
      (''signed long =  '', sizeof Signed_long)]"

text \<open>The words of the models have the sizes that are printed.\<close>

lemma sizes_of_words:
  "8 * sizeof Unsigned_char = LENGTH(8)" "8 * sizeof Unsigned_short = LENGTH(16)" "8 * sizeof Signed_int = LENGTH(32)"
  "map snd test_sizeof_function = [4, 2, 4, 8, 4, 1, 2, 4, 1, 2, 4]"
  by (simp_all add: test_sizeof_function_def)

end
