(* ===== verification/Selftest_Model.thy ===== *)
theory Selftest_Model
  imports Edma Selftest_Data
begin

text \<open>
  The self-tests of the driver (\<open>Ab_arm_test_drv_file.c\<close>): two memory-to-memory transfers on a pair of
  EDMA entries, linked or chained, the set-up that was to give them buffers, and the test of the
  kernel allocator.  Code between \<open>#if 0\<close> and \<open>#endif\<close> is not compiled and not modelled.
\<close>

section \<open>State\<close>

text \<open>The messages of the transfer tests.\<close>

datatype selftest_msg =
    Alloc_failed int
  | Slot_failed int
  | Start_failed
  | Event_missed
  | Mismatch nat
  | Transfer_ok
  | Transfer_failed

text \<open>
  The globals: the four buffers as the processor sees them (\<open>None\<close> is the null pointer), the addresses the
  controller uses, the two flags the interrupts set, and the controller.
\<close>

record 'e selftest =
  cc :: 'e
  dmabufsrc1 :: "byte list option"
  dmabufsrc2 :: "byte list option"
  dmabufdest1 :: "byte list option"
  dmabufdest2 :: "byte list option"
  dmaphyssrc1 :: u32
  dmaphyssrc2 :: u32
  dmaphysdest1 :: u32
  dmaphysdest2 :: u32
  irqraised1 :: int
  irqraised2 :: int
  kmsg :: "selftest_msg list"

definition msg :: "selftest_msg \<Rightarrow> 'e selftest \<Rightarrow> 'e selftest" where
  "msg x s = s\<lparr>kmsg := kmsg s @ [x]\<rparr>"

section \<open>Interrupts\<close>

definition test_callback1 :: "ch_status \<Rightarrow> 'e selftest \<Rightarrow> 'e selftest" where
  "test_callback1 st s =
     (case st of DMA_COMPLETE \<Rightarrow> s\<lparr>irqraised1 := 1\<rparr> | DMA_CC_ERROR \<Rightarrow> s\<lparr>irqraised1 := - 1\<rparr> | Other_status x \<Rightarrow> s)"

definition test_callback2 :: "ch_status \<Rightarrow> 'e selftest \<Rightarrow> 'e selftest" where
  "test_callback2 st s =
     (case st of DMA_COMPLETE \<Rightarrow> s\<lparr>irqraised2 := 1\<rparr> | DMA_CC_ERROR \<Rightarrow> s\<lparr>irqraised2 := - 1\<rparr> | Other_status x \<Rightarrow> s)"

text \<open>An interrupt of the channel that was requested with the first or with the second callback.\<close>

datatype edma_irq = Irq1 ch_status | Irq2 ch_status

fun deliver :: "edma_irq option \<Rightarrow> 'e selftest \<Rightarrow> 'e selftest" where
  "deliver None s = s"
| "deliver (Some (Irq1 st)) s = test_callback1 st s"
| "deliver (Some (Irq2 st)) s = test_callback2 st s"

text \<open>
  What the hardware does during a test: the interrupt at each poll of a waiting loop, and what the
  destination buffers hold when they are compared.
\<close>

record dma_env =
  irq :: "nat \<Rightarrow> edma_irq option"
  arrived1 :: "byte list"
  arrived2 :: "byte list"

text \<open>The busy wait for a flag, from poll \<open>n\<close> on; it may never end.\<close>

partial_function (option) wait_irq ::
  "('e selftest \<Rightarrow> int) \<Rightarrow> (nat \<Rightarrow> edma_irq option) \<Rightarrow> nat \<Rightarrow> 'e selftest \<Rightarrow> (nat \<times> 'e selftest) option" where
  "wait_irq flag ir n s =
     (if flag s = 0 then wait_irq flag ir (Suc n) (deliver (ir n) s) else Some (n, s))"

section \<open>The parts the tests share\<close>

definition buf_put :: "nat \<Rightarrow> byte \<Rightarrow> byte list option \<Rightarrow> byte list option res" where
  "buf_put i v b = (case b of None \<Rightarrow> Inl NullPointer | Some m \<Rightarrow> bindR (mem_write i [v] m) (\<lambda>m. Inr (Some m)))"

definition buf_get :: "nat \<Rightarrow> byte list option \<Rightarrow> byte res" where
  "buf_get i b = (case b of None \<Rightarrow> Inl NullPointer | Some m \<Rightarrow> bindR (mem_read i 1 m) (\<lambda>v. Inr (hd v)))"

text \<open>\<open>k\<close> more rounds of the loop that initialises the buffers, from \<open>count = i\<close>.\<close>

fun fill_loop :: "nat \<Rightarrow> nat \<Rightarrow> 'e selftest \<Rightarrow> 'e selftest res" where
  "fill_loop i 0 s = Inr s"
| "fill_loop i (Suc k) s =
     bindR (buf_put i (65 + of_nat (i mod 26)) (dmabufsrc1 s)) (\<lambda>s1.
     bindR (buf_put i 0 (dmabufdest1 s)) (\<lambda>d1.
     bindR (buf_put i (65 + of_nat (i mod 26)) (dmabufsrc2 s)) (\<lambda>s2.
     bindR (buf_put i 0 (dmabufdest2 s)) (\<lambda>d2.
     fill_loop (Suc i) k (s\<lparr>dmabufsrc1 := s1, dmabufdest1 := d1, dmabufsrc2 := s2, dmabufdest2 := d2\<rparr>)))))"

text \<open>The parameters of one channel; the indexes are the array size, the reload count is \<open>bcnt\<close>.\<close>

definition test_channel :: "'e edma_api \<Rightarrow> int \<Rightarrow> u32 \<Rightarrow> u32 \<Rightarrow> int \<Rightarrow> int \<Rightarrow> int \<Rightarrow> 'e \<Rightarrow> 'e" where
  "test_channel api ch psrc pdst a b c e =
     (let e = edma_set_src api ch psrc INCR W8BIT e;
          e = edma_set_dest api ch pdst INCR W8BIT e;
          e = edma_set_src_index api ch (of_int a) (of_int a) e;
          e = edma_set_dest_index api ch (of_int a) (of_int a) e
      in edma_set_transfer_params api ch (of_int a) (of_int b) (of_int c) (of_int b) ASYNC e)"

definition or_opt :: "'e edma_api \<Rightarrow> int \<Rightarrow> u32 \<Rightarrow> 'e \<Rightarrow> 'e" where
  "or_opt api ch bits e =
     (let p = edma_read_slot api ch e in edma_write_slot api ch (p\<lparr>opt := opt p OR bits\<rparr>) e)"

definition TCINTEN_bit :: u32 where "TCINTEN_bit = push_bit 20 1"
definition ITCINTEN_bit :: u32 where "ITCINTEN_bit = push_bit 21 1"
definition TCCHEN_bit :: u32 where "TCCHEN_bit = push_bit 22 1"
definition ITCCHEN_bit :: u32 where "ITCCHEN_bit = push_bit 23 1"

text \<open>The index at which the comparison of two buffers stops.\<close>

function compare_loop :: "nat \<Rightarrow> nat \<Rightarrow> byte list option \<Rightarrow> byte list option \<Rightarrow> nat res" where
  "compare_loop i n a b =
     (if i < n then
        bindR (buf_get i a) (\<lambda>x.
        bindR (buf_get i b) (\<lambda>y.
        if x \<noteq> y then Inr i else compare_loop (Suc i) n a b))
      else Inr i)"
  by pat_completeness auto
termination by (relation "measure (\<lambda>(i, n, a, b). n - i)") auto

declare compare_loop.simps [simp del]

text \<open>Both comparisons; \<open>nbytes\<close> is \<open>acnt*bcnt*ccnt\<close>, which may be negative.\<close>

definition check_copy :: "int \<Rightarrow> byte list option \<Rightarrow> byte list option \<Rightarrow> 'e selftest \<Rightarrow> ('e selftest \<times> bool) res" where
  "check_copy nbytes a b s =
     bindR (compare_loop 0 (nat nbytes) a b) (\<lambda>i.
     Inr (if i < nat nbytes then msg (Mismatch i) s else s, int i = nbytes))"

definition check_copies :: "dma_env \<Rightarrow> int \<Rightarrow> 'e selftest \<Rightarrow> ('e selftest \<times> bool) res" where
  "check_copies env nbytes s =
     (let s = s\<lparr>dmabufdest1 := map_option (\<lambda>_. arrived1 env) (dmabufdest1 s),
                dmabufdest2 := map_option (\<lambda>_. arrived2 env) (dmabufdest2 s)\<rparr> in
      bindR (check_copy nbytes (dmabufsrc1 s) (dmabufdest1 s) s) (\<lambda>(s, Istestpassed1).
      bindR (check_copy nbytes (dmabufsrc2 s) (dmabufdest2 s) s) (\<lambda>(s, Istestpassed2).
      Inr (s, Istestpassed1 \<and> Istestpassed2))))"

definition total_bytes :: "int \<Rightarrow> int \<Rightarrow> int \<Rightarrow> int" where
  "total_bytes a b c = sint (of_int (a * b * c) :: u32)"

definition numenabled :: "int \<Rightarrow> int \<Rightarrow> nat" where
  "numenabled b c = unat (of_int (b * c) :: u32)"

section \<open>The linked test\<close>

text \<open>
  \<open>k\<close> more transfers on channel \<open>ch\<close>, each waited for; \<open>r\<close> is the value \<open>result\<close> has.  The value is kept
  when an event was missed.
\<close>

fun link_loop ::
  "'e edma_api \<Rightarrow> (nat \<Rightarrow> edma_irq option) \<Rightarrow> int \<Rightarrow> nat \<Rightarrow> nat \<times> 'e selftest \<times> int \<Rightarrow> (nat \<times> 'e selftest \<times> int) option" where
  "link_loop api ir ch 0 st = Some st"
| "link_loop api ir ch (Suc k) (n, s, r) =
     (let (e, r) = edma_start api ch (cc s); s = s\<lparr>irqraised1 := 0, cc := e\<rparr> in
      if r \<noteq> 0 then Some (n, msg Start_failed s, r)
      else case wait_irq irqraised1 ir n s of
        None \<Rightarrow> None
      | Some (n, s) \<Rightarrow>
          if irqraised1 s < 0 then Some (n, msg Event_missed s, r) else link_loop api ir ch k (n, s, r))"

text \<open>The set-up: a code with which the test ends early, or the two entries.\<close>

definition link_setup ::
  "'e edma_api \<Rightarrow> int \<Rightarrow> int \<Rightarrow> int \<Rightarrow> int \<Rightarrow> 'e selftest \<Rightarrow> 'e selftest \<times> (int + int \<times> int)" where
  "link_setup api a b c event_queue s =
     (let (e, r) = edma_alloc_channel api (EDMA_CHANNEL_ANY api) (of_int event_queue) (cc s) in
      if r < 0 then (msg (Alloc_failed r) (s\<lparr>cc := e\<rparr>), Inl r)
      else
        (let dma_ch1 = r;
             bits = ITCINTEN_bit OR TCINTEN_bit OR EDMA_TCC api (EDMA_CHAN_SLOT api dma_ch1);
             e = test_channel api dma_ch1 (dmaphyssrc1 s) (dmaphysdest1 s) a b c e;
             e = or_opt api dma_ch1 bits e;
             (e, r) = edma_alloc_slot api 0 (EDMA_SLOT_ANY api) e in
         if r < 0 then (msg (Slot_failed r) (s\<lparr>cc := e\<rparr>), Inl r)
         else
           (let dma_ch2 = r;
                e = test_channel api dma_ch2 (dmaphyssrc2 s) (dmaphysdest2 s) a b c e;
                e = or_opt api dma_ch2 bits e;
                e = edma_link api dma_ch1 dma_ch2 e
            in (s\<lparr>cc := e\<rparr>, Inr (dma_ch1, dma_ch2)))))"

definition link_finish :: "'e edma_api \<Rightarrow> dma_env \<Rightarrow> int \<Rightarrow> int \<Rightarrow> int \<Rightarrow> 'e selftest \<Rightarrow> ('e selftest \<times> bool) res" where
  "link_finish api env nbytes dma_ch1 dma_ch2 s =
     bindR (check_copies env nbytes s) (\<lambda>(s, passed).
     (let e = edma_stop api dma_ch1 (cc s);
          e = edma_free_channel api dma_ch1 e;
          e = edma_stop api dma_ch2 e;
          e = edma_free_slot api dma_ch2 e;
          e = edma_free_channel api dma_ch2 e
      in Inr (s\<lparr>cc := e\<rparr>, passed)))"

definition edma3_memtomemcpytest_dma_link ::
  "'e edma_api \<Rightarrow> dma_env \<Rightarrow> int \<Rightarrow> int \<Rightarrow> int \<Rightarrow> int \<Rightarrow> int \<Rightarrow> 'e selftest \<Rightarrow> ('e selftest \<times> int) res option" where
  "edma3_memtomemcpytest_dma_link api env a b c sync_mode event_queue s =
     (case fill_loop 0 (nat (total_bytes a b c)) s of
        Inl er \<Rightarrow> Some (Inl er)
      | Inr s \<Rightarrow>
         (case link_setup api a b c event_queue s of
            (s, Inl r) \<Rightarrow> Some (Inr (s, r))
          | (s, Inr (dma_ch1, dma_ch2)) \<Rightarrow>
              Option.bind (link_loop api (irq env) dma_ch1 (numenabled b c) (0, s, dma_ch2)) (\<lambda>(n, s, r).
              Option.bind (if r = 0 then link_loop api (irq env) dma_ch1 (numenabled b c) (n, s, r) else Some (n, s, r))
                (\<lambda>(n, s, r).
              Some (bindR (if r = 0 then link_finish api env (total_bytes a b c) dma_ch1 dma_ch2 s else Inr (s, False))
                (\<lambda>(s, passed). Inr (msg (if passed then Transfer_ok else Transfer_failed) s, r)))))))"

section \<open>The chained test\<close>

definition chain_setup ::
  "'e edma_api \<Rightarrow> int \<Rightarrow> int \<Rightarrow> int \<Rightarrow> int \<Rightarrow> 'e selftest \<Rightarrow> 'e selftest \<times> (int + int \<times> int)" where
  "chain_setup api a b c event_queue s =
     (let (e, r) = edma_alloc_channel api (EDMA_CHANNEL_ANY api) (of_int event_queue) (cc s) in
      if r < 0 then (msg (Alloc_failed r) (s\<lparr>cc := e\<rparr>), Inl r)
      else
        (let dma_ch1 = r;
             e = test_channel api dma_ch1 (dmaphyssrc1 s) (dmaphysdest1 s) a b c e;
             (e, r) = edma_alloc_channel api (EDMA_CHANNEL_ANY api) (of_int event_queue) e in
         if r < 0 then (msg (Alloc_failed r) (s\<lparr>cc := edma_free_channel api dma_ch1 e\<rparr>), Inl r)
         else
           (let dma_ch2 = r;
                e = test_channel api dma_ch2 (dmaphyssrc2 s) (dmaphysdest2 s) a b c e;
                e = or_opt api dma_ch1 (TCCHEN_bit OR EDMA_TCC api (EDMA_CHAN_SLOT api dma_ch2)) e;
                e = or_opt api dma_ch1 (ITCCHEN_bit OR TCINTEN_bit OR ITCINTEN_bit) e;
                e = or_opt api dma_ch2 (TCINTEN_bit OR ITCINTEN_bit) e
            in (s\<lparr>cc := e\<rparr>, Inr (dma_ch1, dma_ch2)))))"

text \<open>The transfers are started on the first channel and awaited on the second; \<open>Inl\<close> is the early return.\<close>

fun chain_loop ::
  "'e edma_api \<Rightarrow> (nat \<Rightarrow> edma_irq option) \<Rightarrow> int \<Rightarrow> int \<Rightarrow> nat \<Rightarrow> nat \<Rightarrow> int \<Rightarrow> 'e selftest
     \<Rightarrow> ('e selftest \<times> int + 'e selftest \<times> int) option" where
  "chain_loop api ir ch1 ch2 0 n r s = Some (Inr (s, r))"
| "chain_loop api ir ch1 ch2 (Suc k) n r s =
     (let (e, r) = edma_start api ch1 (cc s); s = s\<lparr>irqraised2 := 0, cc := e\<rparr> in
      if r \<noteq> 0 then
        (let e = edma_stop api ch1 e; e = edma_free_channel api ch1 e; e = edma_free_channel api ch2 e
         in Some (Inl (msg Start_failed s\<lparr>cc := e\<rparr>, r)))
      else case wait_irq irqraised2 ir n s of
        None \<Rightarrow> None
      | Some (n, s) \<Rightarrow>
          if irqraised2 s < 0 then Some (Inr (msg Event_missed s, r)) else chain_loop api ir ch1 ch2 k n r s)"

definition chain_finish :: "'e edma_api \<Rightarrow> dma_env \<Rightarrow> int \<Rightarrow> int \<Rightarrow> int \<Rightarrow> 'e selftest \<Rightarrow> ('e selftest \<times> bool) res" where
  "chain_finish api env nbytes dma_ch1 dma_ch2 s =
     bindR (check_copies env nbytes s) (\<lambda>(s, passed).
     (let e = edma_stop api dma_ch1 (cc s);
          e = edma_free_channel api dma_ch1 e;
          e = edma_stop api dma_ch2 e;
          e = edma_free_slot api dma_ch2 e;
          e = edma_free_channel api dma_ch2 e
      in Inr (s\<lparr>cc := e\<rparr>, passed)))"

definition edma3_memtomemcpytest_dma_chain ::
  "'e edma_api \<Rightarrow> dma_env \<Rightarrow> int \<Rightarrow> int \<Rightarrow> int \<Rightarrow> int \<Rightarrow> int \<Rightarrow> 'e selftest \<Rightarrow> ('e selftest \<times> int) res option" where
  "edma3_memtomemcpytest_dma_chain api env a b c sync_mode event_queue s =
     (case fill_loop 0 (nat (total_bytes a b c)) s of
        Inl er \<Rightarrow> Some (Inl er)
      | Inr s \<Rightarrow>
         (case chain_setup api a b c event_queue s of
            (s, Inl r) \<Rightarrow> Some (Inr (s, r))
          | (s, Inr (dma_ch1, dma_ch2)) \<Rightarrow>
              Option.bind (chain_loop api (irq env) dma_ch1 dma_ch2 (numenabled b c) 0 dma_ch2 s) (\<lambda>x.
              Some (case x of
                Inl ret \<Rightarrow> Inr ret
              | Inr (s, r) \<Rightarrow>
                  bindR (chain_finish api env (total_bytes a b c) dma_ch1 dma_ch2 s) (\<lambda>(s, passed).
                  Inr (msg (if passed then Transfer_ok else Transfer_failed) s, r))))))"

section \<open>Set-up and allocator tests\<close>

text \<open>
  The globals of \<open>test_edma_function\<close>: the descriptor, the device behind \<open>test_pcm\<close> and the DMA parameters
  found, and the hardware description; \<open>None\<close> and \<open>No_area\<close> are null pointers, \<open>Freed_area\<close> one that dangles.
\<close>

record dma_area =
  area :: u32
  addr :: u32

datatype dma_ptr = No_area | Freed_area | Area dma_area

record edma_globals =
  dmab :: dma_ptr
  test_pcm :: "u32 option"
  playback_dma_data :: "u32 option"
  ppcm :: "snd_pcm_hardware option"

text \<open>
  What the kernel answers: the results of \<open>kzalloc\<close>, of \<open>snd_dma_alloc_pages\<close> for a device, of
  \<open>get_cpu_dai\<close> with the driver data behind it, and the \<open>dma_params\<close> of these.
\<close>

record edma_kernel =
  zalloc_ok :: bool
  alloc_pages :: "u32 \<Rightarrow> dma_area option"
  cpu_dai :: "u32 option option"

definition ENOMEM :: int where "ENOMEM = 12"

definition test_edma_function :: "edma_kernel \<Rightarrow> edma_globals \<Rightarrow> (edma_globals \<times> int) res" where
  "test_edma_function kern g =
     (let g = g\<lparr>dmab := No_area, test_pcm := None\<rparr> in
      if \<not> zalloc_ok kern then Inr (g, - ENOMEM)
      else case test_pcm g of
        None \<Rightarrow> Inl NullPointer
      | Some dev \<Rightarrow>
          (case alloc_pages kern dev of
             None \<Rightarrow> Inr (g\<lparr>dmab := Freed_area\<rparr>, - ENOMEM)
           | Some m \<Rightarrow>
               (case cpu_dai kern of
                  Some (Some params) \<Rightarrow> Inr (g\<lparr>dmab := Area m, playback_dma_data := Some params, ppcm := Some pcm_hardware_playback\<rparr>, 0)
                | _ \<Rightarrow> Inl NullPointer)))"

definition test_edma_function_end :: "edma_globals \<Rightarrow> edma_globals res" where
  "test_edma_function_end g =
     (case (test_pcm g, dmab g) of
        (Some dev, Area m) \<Rightarrow> Inr (g\<lparr>dmab := Area (m\<lparr>area := 0\<rparr>)\<rparr>)
      | _ \<Rightarrow> Inl NullPointer)"

text \<open>\<open>func2\<close>: the loop stores \<open>k\<close> more shorts from index \<open>i\<close> into what \<open>kmalloc\<close> returned.\<close>

fun store_shorts :: "nat \<Rightarrow> nat \<Rightarrow> byte list \<Rightarrow> byte list res" where
  "store_shorts i 0 m = Inr m"
| "store_shorts i (Suc k) m = bindR (mem_write (2 * i) [0x11, 0x22] m) (store_shorts (Suc i) k)"

text \<open>The contents of a fresh allocation of 4380 bytes are \<open>junk\<close>; the result is the value printed.\<close>

definition func2 :: "byte list option \<Rightarrow> byte list option res" where
  "func2 junk =
     (case junk of
        None \<Rightarrow> Inr None
      | Some m \<Rightarrow>
          bindR (store_shorts 0 4380 m) (\<lambda>m.
          bindR (mem_read (2 * 4300) 2 m) (\<lambda>v. Inr (Some v))))"

definition test_copy_array :: "byte list option \<Rightarrow> unit res" where
  "test_copy_array junk = bindR (func2 junk) (\<lambda>v. Inr ())"

text \<open>\<open>func1\<close>: two blocks of 4096 bytes are cleared, then filled with 0xAA and 0xFF.\<close>

record voice_block =
  block_size :: u16
  array_voice_block :: "byte list"

record voice_fifo =
  fifo_a :: u16
  block0 :: voice_block
  block1 :: voice_block
  fifo_b :: u16

fun fill_block :: "nat \<Rightarrow> nat \<Rightarrow> byte \<Rightarrow> voice_block \<Rightarrow> voice_block res" where
  "fill_block i 0 v blk = Inr blk"
| "fill_block i (Suc k) v blk =
     bindR (mem_write i [v] (array_voice_block blk)) (\<lambda>m.
     fill_block (Suc i) k v (blk\<lparr>block_size := 4096, array_voice_block := m\<rparr>))"

definition func1 :: "voice_fifo option \<Rightarrow> voice_fifo option res" where
  "func1 junk =
     (case junk of
        None \<Rightarrow> Inr None
      | Some f \<Rightarrow>
          (let zero = \<lparr>block_size = 0, array_voice_block = replicate 4096 0\<rparr>;
               f = f\<lparr>fifo_a := 0, fifo_b := 0, block0 := zero, block1 := zero\<rparr> in
           bindR (fill_block 0 4096 0xAA (block0 f)) (\<lambda>b0.
           bindR (fill_block 0 4096 0xFF (block1 f)) (\<lambda>b1.
           Inr (Some (f\<lparr>block0 := b0, block1 := b1\<rparr>))))))"

text \<open>
  \<open>test_array_function\<close> copies two words of 32 bits into bytes and prints these.  All that is compiled of the
  unlinked transfer test and of the entry point is that they return 0.
\<close>

definition test_array_function :: "byte list" where
  "test_array_function =
     concat (map (\<lambda>w. [ucast w, ucast (drop_bit 8 w), ucast (drop_bit 16 w), ucast (drop_bit 24 w)])
       [0x11223344, 0x55667788 :: u32])"

definition edma3_memtomemcpytest_dma :: "int \<Rightarrow> int \<Rightarrow> int \<Rightarrow> int \<Rightarrow> int \<Rightarrow> 'e selftest \<Rightarrow> 'e selftest \<times> int" where
  "edma3_memtomemcpytest_dma a b c sync_mode event_queue s = (s, 0)"

definition Start_Test_Sitara_arm_func :: "'e selftest \<Rightarrow> 'e selftest \<times> int" where
  "Start_Test_Sitara_arm_func s = (s, 0)"

end
