(* ===== verification/Edma_Selftest.thy ===== *)
theory Edma_Selftest
  imports Selftest_Model
begin

text \<open>
  What the self-tests of \<open>Selftest_Model\<close> do: when they return, what they leave allocated, what their
  messages say, and where they fault.
\<close>

text \<open>Both transfer tests end alike.\<close>

lemma chain_finish_link: "chain_finish = link_finish"
  by (simp add: fun_eq_iff chain_finish_def link_finish_def)

lemmas chain_test_def = edma3_memtomemcpytest_dma_chain_def [unfolded chain_finish_link]

text \<open>The bytes come out in little-endian order, as the comment of the function warns.\<close>

lemma test_array_bytes: "test_array_function = [0x44, 0x33, 0x22, 0x11, 0x88, 0x77, 0x66, 0x55]"
  by (simp add: test_array_function_def)

section \<open>Waiting\<close>

text \<open>
  What the waiting loop asks of a flag: some interrupts raise it, all others leave it alone, and only the
  flags change.
\<close>

locale irq_flag =
  fixes flag :: "'e selftest \<Rightarrow> int"
    and raising :: "edma_irq option set"
  assumes raised: "x \<in> raising \<Longrightarrow> flag (deliver x s) \<noteq> 0"
    and kept: "x \<notin> raising \<Longrightarrow> flag (deliver x s) = flag s"
begin

lemma wait_ends: "m = n + k \<Longrightarrow> ir m \<in> raising \<Longrightarrow> \<exists>n' s'. wait_irq flag ir n s = Some (n', s')"
proof (induction k arbitrary: n s)
  case 0
  then have "flag (deliver (ir n) s) \<noteq> 0" using raised by simp
  then show ?case
    by (subst wait_irq.simps) (simp add: wait_irq.simps [of flag ir "Suc n"])
next
  case (Suc k)
  then show ?case using Suc.IH [of "Suc n"] by (subst wait_irq.simps) simp
qed

lemma wait_hangs:
  assumes "flag s = 0" "\<forall>m \<ge> n. ir m \<notin> raising"
  shows "wait_irq flag ir n s = None"
proof -
  have ne: "\<not> (flag s = 0 \<and> (\<forall>m \<ge> n. ir m \<notin> raising))" if "wait_irq flag ir n s = Some r" for ir n s r
  proof (rule wait_irq.raw_induct
      [where P = "\<lambda>fl ir n s r. fl = flag \<longrightarrow> \<not> (flag s = 0 \<and> (\<forall>m \<ge> n. ir m \<notin> raising))", OF _ that, THEN mp, OF _ refl])
    fix loop :: "('e selftest \<Rightarrow> int) \<Rightarrow> (nat \<Rightarrow> edma_irq option) \<Rightarrow> nat \<Rightarrow> 'e selftest \<Rightarrow> (nat \<times> 'e selftest) option"
      and fl ir n s r
    assume IH: "\<And>fl ir n s r. loop fl ir n s = Some r \<Longrightarrow> fl = flag \<longrightarrow> \<not> (flag s = 0 \<and> (\<forall>m \<ge> n. ir m \<notin> raising))"
      and step: "(if fl s = 0 then loop fl ir (Suc n) (deliver (ir n) s) else Some (n, s)) = Some r"
    show "fl = flag \<longrightarrow> \<not> (flag s = 0 \<and> (\<forall>m \<ge> n. ir m \<notin> raising))"
    proof (intro impI notI)
      assume f: "fl = flag" and q: "flag s = 0 \<and> (\<forall>m \<ge> n. ir m \<notin> raising)"
      then have "loop fl ir (Suc n) (deliver (ir n) s) = Some r" using step by simp
      from IH [OF this] show False using f q kept by auto
    qed
  qed
  show ?thesis
  proof (cases "wait_irq flag ir n s")
    case (Some r)
    from ne [OF this] assms show ?thesis by blast
  qed
qed

end

definition raising1 :: "edma_irq option set" where
  "raising1 = {Some (Irq1 DMA_COMPLETE), Some (Irq1 DMA_CC_ERROR)}"

definition raising2 :: "edma_irq option set" where
  "raising2 = {Some (Irq2 DMA_COMPLETE), Some (Irq2 DMA_CC_ERROR)}"

interpretation flag1: irq_flag irqraised1 raising1
proof unfold_locales
  fix x and s :: "'a selftest"
  show "x \<in> raising1 \<Longrightarrow> irqraised1 (deliver x s) \<noteq> 0"
    by (auto simp: raising1_def test_callback1_def)
  show "x \<notin> raising1 \<Longrightarrow> irqraised1 (deliver x s) = irqraised1 s"
    by (cases "(x, s)" rule: deliver.cases)
      (auto simp: raising1_def test_callback1_def test_callback2_def split: ch_status.splits)
qed

interpretation flag2: irq_flag irqraised2 raising2
proof unfold_locales
  fix x and s :: "'a selftest"
  show "x \<in> raising2 \<Longrightarrow> irqraised2 (deliver x s) \<noteq> 0"
    by (auto simp: raising2_def test_callback2_def)
  show "x \<notin> raising2 \<Longrightarrow> irqraised2 (deliver x s) = irqraised2 s"
    by (cases "(x, s)" rule: deliver.cases)
      (auto simp: raising2_def test_callback1_def test_callback2_def split: ch_status.splits)
qed

text \<open>The state but for the flags, which is all the waiting loop leaves alone.\<close>

definition frame :: "'e selftest \<Rightarrow> 'e selftest" where
  "frame s = s\<lparr>irqraised1 := 0, irqraised2 := 0\<rparr>"

lemma frame_deliver [simp]: "frame (deliver x s) = frame s"
  by (cases "(x, s)" rule: deliver.cases)
    (auto simp: frame_def test_callback1_def test_callback2_def split: ch_status.splits)

lemma wait_frame: "wait_irq flag ir n s = Some (n', s') \<Longrightarrow> frame s' = frame s"
proof -
  have "frame (snd r) = frame s" if "wait_irq flag ir n s = Some r" for r
    by (rule wait_irq.raw_induct [where P = "\<lambda>flag ir n s r. frame (snd r) = frame s", OF _ that])
      (auto split: if_splits)
  then show "wait_irq flag ir n s = Some (n', s') \<Longrightarrow> frame s' = frame s" by auto
qed

lemma frame_parts:
  assumes "frame s' = frame s"
  shows "cc s' = cc s" "dmabufsrc1 s' = dmabufsrc1 s" "dmabufsrc2 s' = dmabufsrc2 s" "dmabufdest1 s' = dmabufdest1 s"
    "dmabufdest2 s' = dmabufdest2 s" "kmsg s' = kmsg s"
  using assms unfolding frame_def by (cases s, cases s', simp)+

section \<open>Loops and set-up\<close>

lemma msg_simps [simp]:
  "cc (msg x s) = cc s" "dmabufsrc1 (msg x s) = dmabufsrc1 s" "dmabufsrc2 (msg x s) = dmabufsrc2 s"
  "dmabufdest1 (msg x s) = dmabufdest1 s" "dmabufdest2 (msg x s) = dmabufdest2 s" "kmsg (msg x s) = kmsg s @ [x]"
  by (simp_all add: msg_def)

text \<open>The buffers, which the loops and the set-up leave alone.\<close>

definition bufs :: "'e selftest \<Rightarrow> (byte list option \<times> byte list option) \<times> (byte list option \<times> byte list option)" where
  "bufs s = ((dmabufsrc1 s, dmabufdest1 s), (dmabufsrc2 s, dmabufdest2 s))"

lemma bufs_simps [simp]:
  "bufs (msg x s) = bufs s" "bufs (s\<lparr>cc := e\<rparr>) = bufs s" "bufs (s\<lparr>irqraised1 := i\<rparr>) = bufs s" "bufs (s\<lparr>irqraised2 := i\<rparr>) = bufs s"
  by (simp_all add: bufs_def)

lemma wait_keeps:
  assumes "wait_irq flag ir n s = Some (n', s')"
  shows "cc s' = cc s" "bufs s' = bufs s" "kmsg s' = kmsg s"
  using frame_parts [OF wait_frame [OF assms]] by (simp_all add: bufs_def)

lemma link_loop_ends:
  assumes "\<forall>n. \<exists>m \<ge> n. ir m \<in> raising1"
  shows "link_loop api ir ch k st \<noteq> None"
proof (induction k arbitrary: st)
  case (Suc k)
  obtain n s r where st: "st = (n, s, r)" by (cases st)
  obtain m where m: "n \<le> m" "ir m \<in> raising1" using assms by blast
  then have "m = n + (m - n)" by simp
  then have w: "wait_irq irqraised1 ir n s \<noteq> None" for s :: "'a selftest"
    using flag1.wait_ends [where ir = ir, OF _ m(2)] by (metis option.discI)
  from Suc show ?case
    unfolding st by (auto simp: w Let_def split: prod.splits option.splits)
qed simp

lemma chain_loop_ends:
  assumes "\<forall>n. \<exists>m \<ge> n. ir m \<in> raising2"
  shows "chain_loop api ir ch1 ch2 k n r s \<noteq> None"
proof (induction k arbitrary: n r s)
  case (Suc k)
  obtain m where m: "n \<le> m" "ir m \<in> raising2" using assms by blast
  then have "m = n + (m - n)" by simp
  then have w: "wait_irq irqraised2 ir n s \<noteq> None" for s :: "'a selftest"
    using flag2.wait_ends [where ir = ir, OF _ m(2)] by (metis option.discI)
  from Suc show ?case
    by (auto simp: w Let_def split: prod.splits option.splits)
qed simp

lemma link_loop_bufs: "link_loop api ir ch k (n, s, r) = Some (n', s', r') \<Longrightarrow> bufs s' = bufs s"
proof (induction k arbitrary: n s r)
  case (Suc k)
  then show ?case
    by (auto simp: Let_def dest!: wait_keeps(2) split: prod.splits option.splits if_splits)
qed simp

lemma chain_loop_bufs:
  "chain_loop api ir ch1 ch2 k n r s = Some (Inr (s', r')) \<Longrightarrow> bufs s' = bufs s"
proof (induction k arbitrary: n s r)
  case (Suc k)
  then show ?case
    by (auto simp: Let_def dest!: wait_keeps(2) split: prod.splits option.splits if_splits)
qed simp

lemma link_setup_bufs: "link_setup api a b c q s = (s', x) \<Longrightarrow> bufs s' = bufs s"
  by (auto simp: link_setup_def Let_def split: prod.splits if_splits)

lemma chain_setup_bufs: "chain_setup api a b c q s = (s', x) \<Longrightarrow> bufs s' = bufs s"
  by (auto simp: chain_setup_def Let_def split: prod.splits if_splits)

lemma fill_loop_cc: "fill_loop i k s = Inr s' \<Longrightarrow> cc s' = cc s \<and> kmsg s' = kmsg s"
  by (induction i k s rule: fill_loop.induct) (auto simp: bindR_eq_Inr)

lemma check_copy_cc: "check_copy n a b s = Inr (s', p) \<Longrightarrow> cc s' = cc s"
  by (auto simp: check_copy_def bindR_eq_Inr)

lemma check_copies_cc: "check_copies env n s = Inr (s', p) \<Longrightarrow> cc s' = cc s"
  by (auto simp: check_copies_def bindR_eq_Inr Let_def dest!: check_copy_cc)

section \<open>Channels and slots\<close>

context edma_contract begin

lemma test_channel_used [simp]: "used (test_channel api ch ps pd a b c e) = used e"
  by (simp add: test_channel_def Let_def)

lemma or_opt_used [simp]: "slot_ok ch \<Longrightarrow> used (or_opt api ch bits e) = used e"
  by (simp add: or_opt_def Let_def)

lemma link_loop_used: "link_loop api ir ch k (n, s, r) = Some (n', s', r') \<Longrightarrow> used (cc s') = used (cc s)"
proof (induction k arbitrary: n s r)
  case (Suc k)
  obtain e r' where e: "edma_start api ch (cc s) = (e, r')" by force
  have u: "used e = used (cc s)" using used_params(8) [of ch "cc s"] unfolding e by simp
  show ?case using Suc u
    by (auto simp: e Let_def dest!: wait_keeps(1) split: prod.splits option.splits if_splits)
qed simp

lemma chain_loop_used:
  "chain_loop api ir ch1 ch2 k n r s = Some x \<Longrightarrow>
     (case x of Inl p \<Rightarrow> used (cc (fst p)) = used (cc s) - {ch1, ch2} | Inr p \<Rightarrow> used (cc (fst p)) = used (cc s))"
proof (induction k arbitrary: n s r)
  case (Suc k)
  obtain e r' where e: "edma_start api ch1 (cc s) = (e, r')" by force
  have u: "used e = used (cc s)" using used_params(8) [of ch1 "cc s"] unfolding e by simp
  show ?case
  proof (cases "r' = 0")
    case True
    obtain n2 s2 where w: "wait_irq irqraised2 ir n (s\<lparr>irqraised2 := 0, cc := e\<rparr>) = Some (n2, s2)"
      using Suc.prems True by (cases "wait_irq irqraised2 ir n (s\<lparr>irqraised2 := 0, cc := e\<rparr>)") (auto simp: e Let_def)
    have c: "used (cc s2) = used (cc s)" using wait_keeps(1) [OF w] u by simp
    show ?thesis
    proof (cases "irqraised2 s2 < 0")
      case False
      then have "chain_loop api ir ch1 ch2 k n2 0 s2 = Some x" using Suc.prems True w by (simp add: e Let_def)
      from Suc.IH [OF this] show ?thesis unfolding c .
    qed (use Suc.prems True w c in \<open>auto simp: e Let_def\<close>)
  qed (use Suc.prems u in \<open>auto simp: e Let_def free_channel\<close>)
qed auto

lemma link_setup_used:
  assumes "link_setup api a b c q s = (s', x)"
  shows "case x of
      Inl r \<Rightarrow> r < 0 \<and> (kmsg s' = kmsg s @ [Alloc_failed r] \<and> used (cc s') = used (cc s)
        \<or> kmsg s' = kmsg s @ [Slot_failed r] \<and> (\<exists>ch. ch \<notin> used (cc s) \<and> used (cc s') = insert ch (used (cc s))))
    | Inr (ch1, ch2) \<Rightarrow> ch1 \<noteq> ch2 \<and> {ch1, ch2} \<inter> used (cc s) = {} \<and> used (cc s') = {ch1, ch2} \<union> used (cc s)"
proof -
  obtain e1 r1 where e1: "edma_alloc_channel api (EDMA_CHANNEL_ANY api) (of_int q) (cc s) = (e1, r1)" by force
  define e2 where "e2 = or_opt api r1 (ITCINTEN_bit OR TCINTEN_bit OR EDMA_TCC api (EDMA_CHAN_SLOT api r1))
    (test_channel api r1 (dmaphyssrc1 s) (dmaphysdest1 s) a b c e1)"
  obtain e3 r3 where e3: "edma_alloc_slot api 0 (EDMA_SLOT_ANY api) e2 = (e3, r3)" by force
  show ?thesis
    using assms alloc_channel [OF e1] alloc_slot [OF e3]
    unfolding link_setup_def e1 by (auto simp: Let_def e3 simp flip: e2_def split: if_splits) (auto simp: e2_def)
qed

lemma chain_setup_used:
  assumes "chain_setup api a b c q s = (s', x)"
  shows "case x of
      Inl r \<Rightarrow> used (cc s') = used (cc s)
    | Inr (ch1, ch2) \<Rightarrow> ch1 \<noteq> ch2 \<and> {ch1, ch2} \<inter> used (cc s) = {} \<and> used (cc s') = {ch1, ch2} \<union> used (cc s)"
proof -
  obtain e1 r1 where e1: "edma_alloc_channel api (EDMA_CHANNEL_ANY api) (of_int q) (cc s) = (e1, r1)" by force
  define e2 where "e2 = test_channel api r1 (dmaphyssrc1 s) (dmaphysdest1 s) a b c e1"
  obtain e3 r3 where e3: "edma_alloc_channel api (EDMA_CHANNEL_ANY api) (of_int q) e2 = (e3, r3)" by force
  show ?thesis
    using assms alloc_channel [OF e1] alloc_channel [OF e3]
    unfolding chain_setup_def e1
    by (auto simp: Let_def e3 free_channel simp flip: e2_def split: if_splits) (auto simp: e2_def)
qed

lemma link_finish_used:
  assumes "link_finish api env t ch1 ch2 s = Inr (s', p)"
  shows "used (cc s') = used (cc s) - {ch1, ch2}"
proof -
  obtain s1 where s1: "check_copies env t s = Inr (s1, p)" "cc s' =
      edma_free_channel api ch2 (edma_free_slot api ch2 (edma_stop api ch2 (edma_free_channel api ch1 (edma_stop api ch1 (cc s1)))))"
    using assms by (auto simp: link_finish_def bindR_eq_Inr Let_def)
  have "cc s1 = cc s"
    using s1(1) by (rule check_copies_cc)
  then show ?thesis using s1(2) by (auto simp: free_channel free_slot)
qed

end

section \<open>Buffers\<close>

text \<open>The test pattern, and an array with \<open>k\<close> elements from \<open>i\<close> on painted over.\<close>

definition pat :: "nat \<Rightarrow> byte" where
  "pat i = 65 + of_nat (i mod 26)"

definition painted :: "nat \<Rightarrow> nat \<Rightarrow> (nat \<Rightarrow> byte) \<Rightarrow> byte list \<Rightarrow> byte list" where
  "painted i k f a = take i a @ map f [i ..< i + k] @ drop (i + k) a"

lemma painted_0 [simp]: "painted i 0 f a = a"
  by (simp add: painted_def)

lemma painted_step:
  assumes "i < length a"
  shows "painted (Suc i) k f (take i a @ f i # drop (Suc i) a) = painted i (Suc k) f a"
proof -
  have "[i ..< i + Suc k] = i # [Suc i ..< Suc (i + k)]" by (simp add: upt_rec [of i])
  then show ?thesis using assms by (simp add: painted_def min_def add.commute)
qed

lemma painted_prefix:
  assumes "n \<le> length a"
  shows "take n (painted 0 n f a) = map f [0 ..< n]" "length (painted 0 n f a) = length a"
  using assms by (simp_all add: painted_def)

lemma buf_put_ok: "i < length a \<Longrightarrow> buf_put i v (Some a) = Inr (Some (take i a @ v # drop (Suc i) a))"
  by (simp add: buf_put_def mem_write_ok)

lemma fill_loop_ok:
  assumes "dmabufsrc1 s = Some a1" "dmabufdest1 s = Some d1" "dmabufsrc2 s = Some a2" "dmabufdest2 s = Some d2"
    and "i + k \<le> length a1" "i + k \<le> length d1" "i + k \<le> length a2" "i + k \<le> length d2"
  shows "fill_loop i k s = Inr (s\<lparr>dmabufsrc1 := Some (painted i k pat a1), dmabufdest1 := Some (painted i k (\<lambda>_. 0) d1),
    dmabufsrc2 := Some (painted i k pat a2), dmabufdest2 := Some (painted i k (\<lambda>_. 0) d2)\<rparr>)"
  using assms
proof (induction k arbitrary: i s a1 d1 a2 d2)
  case 0
  then show ?case by (cases s) simp
next
  case (Suc k)
  have l: "i < length a1" "i < length d1" "i < length a2" "i < length d2" using Suc.prems by simp_all
  let ?put = "\<lambda>f a. take i a @ f i # drop (Suc i) a"
  let ?s = "s\<lparr>dmabufsrc1 := Some (?put pat a1), dmabufdest1 := Some (?put (\<lambda>_. 0) d1),
    dmabufsrc2 := Some (?put pat a2), dmabufdest2 := Some (?put (\<lambda>_. 0) d2)\<rparr>"
  have "fill_loop i (Suc k) s = fill_loop (Suc i) k ?s"
    using Suc.prems l by (simp add: buf_put_ok flip: pat_def)
  also have "\<dots> = Inr (?s\<lparr>dmabufsrc1 := Some (painted (Suc i) k pat (?put pat a1)),
      dmabufdest1 := Some (painted (Suc i) k (\<lambda>_. 0) (?put (\<lambda>_. 0) d1)),
      dmabufsrc2 := Some (painted (Suc i) k pat (?put pat a2)),
      dmabufdest2 := Some (painted (Suc i) k (\<lambda>_. 0) (?put (\<lambda>_. 0) d2))\<rparr>)"
    by (rule Suc.IH) (use Suc.prems in simp_all)
  finally show ?case
    using l painted_step [of i d1 k "\<lambda>_. 0"] painted_step [of i d2 k "\<lambda>_. 0"] by (simp add: painted_step)
qed

lemma fill_loop_null: "dmabufsrc1 s = None \<Longrightarrow> 0 < k \<Longrightarrow> fill_loop i k s = Inl NullPointer"
  by (cases k) (simp_all add: buf_put_def)

lemma compare_loop_ok:
  assumes "i \<le> n" "n \<le> length a" "n \<le> length b" "length a < 2 ^ 32" "length b < 2 ^ 32"
  shows "\<exists>j. compare_loop i n (Some a) (Some b) = Inr j \<and> j \<le> n \<and> (j = n \<longleftrightarrow> (\<forall>k. i \<le> k \<and> k < n \<longrightarrow> a ! k = b ! k))"
  using assms
proof (induction "n - i" arbitrary: i)
  case 0
  then show ?case by (subst compare_loop.simps) auto
next
  case (Suc d)
  then have i: "i < n" "d = n - Suc i" by simp_all
  then have g: "buf_get i (Some a) = Inr (a ! i)" "buf_get i (Some b) = Inr (b ! i)"
    using Suc.prems by (simp_all add: buf_get_def mem_read_ok take_Suc hd_drop_conv_nth)
  show ?case
  proof (cases "a ! i = b ! i")
    case True
    have "(\<forall>k. i \<le> k \<and> k < n \<longrightarrow> a ! k = b ! k) \<longleftrightarrow> (\<forall>k. Suc i \<le> k \<and> k < n \<longrightarrow> a ! k = b ! k)"
      using True by (metis Suc_leD Suc_leI le_neq_implies_less)
    then show ?thesis using Suc.hyps(1) [OF i(2)] Suc.prems i(1) g True by (subst compare_loop.simps) simp
  next
    case False
    then show ?thesis using i(1) g by (subst compare_loop.simps) auto
  qed
qed

lemma check_copy_ok:
  assumes "0 \<le> n" "nat n \<le> length a" "nat n \<le> length b" "length a < 2 ^ 32" "length b < 2 ^ 32"
  shows "\<exists>s'. check_copy n (Some a) (Some b) s = Inr (s', take (nat n) a = take (nat n) b) \<and> bufs s' = bufs s"
proof -
  obtain j where j: "compare_loop 0 (nat n) (Some a) (Some b) = Inr j" "j \<le> nat n"
    "j = nat n \<longleftrightarrow> (\<forall>k. 0 \<le> k \<and> k < nat n \<longrightarrow> a ! k = b ! k)"
    using compare_loop_ok [of 0 "nat n" a b] assms by auto
  have "take (nat n) a = take (nat n) b \<longleftrightarrow> (\<forall>k < nat n. a ! k = b ! k)"
    using assms(2,3) by (auto simp: list_eq_iff_nth_eq)
  then have "take (nat n) a = take (nat n) b \<longleftrightarrow> int j = n" using j(2,3) assms(1) by auto
  then show ?thesis using j(1) by (auto simp: check_copy_def)
qed

lemma check_copies_ok:
  assumes "bufs s = ((Some a1, Some d1), (Some a2, Some d2))" "0 \<le> n"
    and "\<forall>x \<in> {a1, a2, arrived1 env, arrived2 env}. nat n \<le> length x \<and> length x < 2 ^ 32"
  shows "\<exists>s'. check_copies env n s = Inr (s', take (nat n) a1 = take (nat n) (arrived1 env)
    \<and> take (nat n) a2 = take (nat n) (arrived2 env))"
proof -
  define s0 where "s0 = s\<lparr>dmabufdest1 := Some (arrived1 env), dmabufdest2 := Some (arrived2 env)\<rparr>"
  have b: "dmabufsrc1 s = Some a1" "dmabufdest1 s = Some d1" "dmabufsrc2 s = Some a2" "dmabufdest2 s = Some d2"
    using assms(1) by (simp_all add: bufs_def)
  have b0: "bufs s0 = ((Some a1, Some (arrived1 env)), (Some a2, Some (arrived2 env)))"
    by (simp add: bufs_def s0_def b)
  obtain s1 where s1: "check_copy n (Some a1) (Some (arrived1 env)) s0 = Inr (s1, take (nat n) a1 = take (nat n) (arrived1 env))"
    "bufs s1 = bufs s0"
    using check_copy_ok [of n a1 "arrived1 env" s0] assms(2,3) by auto
  obtain s2 where s2: "check_copy n (Some a2) (Some (arrived2 env)) s1 = Inr (s2, take (nat n) a2 = take (nat n) (arrived2 env))"
    using check_copy_ok [of n a2 "arrived2 env" s1] assms(2,3) by auto
  have p: "dmabufsrc2 s1 = Some a2" "dmabufdest2 s1 = Some (arrived2 env)"
    using s1(2) b0 by (simp_all add: bufs_def)
  show ?thesis
    unfolding check_copies_def Let_def using s1(1) s2 p
    by (simp add: b flip: s0_def) (simp add: s0_def b)
qed

lemma store_shorts_outcome:
  "length m = len \<Longrightarrow> i \<le> j \<Longrightarrow> j < i + k \<Longrightarrow> 2 * j \<le> len \<Longrightarrow> len < 2 * Suc j \<Longrightarrow>
     store_shorts i k m = Inl OutOfBounds"
proof (induction k arbitrary: i m)
  case (Suc k)
  show ?case
  proof (cases "i = j")
    case False
    then have "2 * i + 2 \<le> length m" using Suc.prems by simp
    then have "mem_write (2 * i) [0x11, 0x22] m = Inr (take (2 * i) m @ [0x11, 0x22] @ drop (2 * i + 2) m)"
      by (simp add: mem_write_ok)
    then show ?thesis using Suc.IH [of "take (2 * i) m @ [0x11, 0x22] @ drop (2 * i + 2) m" "Suc i"] Suc.prems False
      by simp
  qed (use Suc.prems in \<open>simp add: mem_write_fault\<close>)
qed simp

lemma fill_block_ok:
  "length (array_voice_block blk) = i + k \<Longrightarrow> 0 < k \<Longrightarrow>
     fill_block i k v blk = Inr (blk\<lparr>block_size := 4096, array_voice_block := take i (array_voice_block blk) @ replicate k v\<rparr>)"
proof (induction k arbitrary: i blk)
  case (Suc k)
  define m where "m = take i (array_voice_block blk) @ v # drop (Suc i) (array_voice_block blk)"
  have w: "mem_write i [v] (array_voice_block blk) = Inr m" using Suc.prems(1) by (simp add: mem_write_ok m_def)
  show ?case
  proof (cases "k = 0")
    case True
    then show ?thesis using w Suc.prems(1) by (simp add: m_def)
  next
    case False
    have "length m = Suc i + k" "take (Suc i) m = take i (array_voice_block blk) @ [v]"
      using Suc.prems(1) by (simp_all add: m_def)
    then show ?thesis using Suc.IH [of "blk\<lparr>block_size := 4096, array_voice_block := m\<rparr>" "Suc i"] w False by simp
  qed
qed simp

text \<open>The allocation of \<open>func1\<close> holds what is stored in it.\<close>

lemma func1_fills:
  "func1 (Some f) = Inr (Some (f\<lparr>fifo_a := 0, fifo_b := 0,
     block0 := \<lparr>block_size = 4096, array_voice_block = replicate 4096 0xAA\<rparr>,
     block1 := \<lparr>block_size = 4096, array_voice_block = replicate 4096 0xFF\<rparr>\<rparr>))"
  by (simp add: func1_def fill_block_ok)

section \<open>Runs that return\<close>

text \<open>The ways a test can return: entries refused, a transfer not started, or all the way through.\<close>

lemma link_InrE:
  assumes "edma3_memtomemcpytest_dma_link api env a b c mode q s = Some (Inr (s', r))"
  obtains (refused) s1 where "fill_loop 0 (nat (total_bytes a b c)) s = Inr s1" "link_setup api a b c q s1 = (s', Inl r)"
  | (run) s1 s2 ch1 ch2 n3 s3 r3 n4 s4 where "fill_loop 0 (nat (total_bytes a b c)) s = Inr s1"
      "link_setup api a b c q s1 = (s2, Inr (ch1, ch2))"
      "link_loop api (irq env) ch1 (numenabled b c) (0, s2, ch2) = Some (n3, s3, r3)"
      "(if r3 = 0 then link_loop api (irq env) ch1 (numenabled b c) (n3, s3, r3) else Some (n3, s3, r3)) = Some (n4, s4, r)"
      "r \<noteq> 0 \<Longrightarrow> s' = msg Transfer_failed s4"
      "r = 0 \<Longrightarrow> \<exists>s5 passed. link_finish api env (total_bytes a b c) ch1 ch2 s4 = Inr (s5, passed)
         \<and> s' = msg (if passed then Transfer_ok else Transfer_failed) s5"
proof -
  obtain s1 where s1: "fill_loop 0 (nat (total_bytes a b c)) s = Inr s1"
    using assms by (auto simp: edma3_memtomemcpytest_dma_link_def split: sum.splits)
  obtain s2 x where s2: "link_setup api a b c q s1 = (s2, x)" by force
  show thesis
  proof (cases x)
    case (Inl r')
    then show ?thesis using assms s1 s2 refused by (simp add: edma3_memtomemcpytest_dma_link_def)
  next
    case (Inr p)
    obtain ch1 ch2 where p: "p = (ch1, ch2)" by force
    obtain n3 s3 r3 where l3: "link_loop api (irq env) ch1 (numenabled b c) (0, s2, ch2) = Some (n3, s3, r3)"
      using assms s1 s2 Inr p by (auto simp: edma3_memtomemcpytest_dma_link_def split: Option.bind_splits)
    obtain n4 s4 r4 where l4: "(if r3 = 0 then link_loop api (irq env) ch1 (numenabled b c) (n3, s3, r3) else Some (n3, s3, r3))
        = Some (n4, s4, r4)"
      using assms s1 s2 Inr p l3 by (auto simp: edma3_memtomemcpytest_dma_link_def split: Option.bind_splits)
    have e: "bindR (if r4 = 0 then link_finish api env (total_bytes a b c) ch1 ch2 s4 else Inr (s4, False))
        (\<lambda>(s, passed). Inr (msg (if passed then Transfer_ok else Transfer_failed) s, r4)) = Inr (s', r)"
      using assms s1 s2 Inr p l3 l4 by (simp add: edma3_memtomemcpytest_dma_link_def)
    have "r4 = r" using e by (auto simp: bindR_eq_Inr)
    note e' = e [unfolded \<open>r4 = r\<close>]
    have f1: "r \<noteq> 0 \<Longrightarrow> s' = msg Transfer_failed s4" using e' by simp
    have f2: "r = 0 \<Longrightarrow> \<exists>s5 passed. link_finish api env (total_bytes a b c) ch1 ch2 s4 = Inr (s5, passed)
         \<and> s' = msg (if passed then Transfer_ok else Transfer_failed) s5"
    proof -
      assume z: "r = 0"
      then obtain y where "link_finish api env (total_bytes a b c) ch1 ch2 s4 = Inr y"
        "Inr (msg (if snd y then Transfer_ok else Transfer_failed) (fst y), r) = (Inr (s', r) :: ('a selftest \<times> int) res)"
        using e' by (cases "link_finish api env (total_bytes a b c) ch1 ch2 s4") (simp_all add: split_beta)
      then show "\<exists>s5 passed. link_finish api env (total_bytes a b c) ch1 ch2 s4 = Inr (s5, passed)
         \<and> s' = msg (if passed then Transfer_ok else Transfer_failed) s5"
        by (intro exI [of _ "fst y"] exI [of _ "snd y"]) simp
    qed
    show ?thesis by (rule run [OF s1 s2 [unfolded Inr p] l3 l4 [unfolded \<open>r4 = r\<close>] f1 f2])
  qed
qed

lemma chain_InrE:
  assumes "edma3_memtomemcpytest_dma_chain api env a b c mode q s = Some (Inr (s', r))"
  obtains (refused) s1 where "fill_loop 0 (nat (total_bytes a b c)) s = Inr s1" "chain_setup api a b c q s1 = (s', Inl r)"
  | (unstarted) s1 s2 ch1 ch2 where "fill_loop 0 (nat (total_bytes a b c)) s = Inr s1"
      "chain_setup api a b c q s1 = (s2, Inr (ch1, ch2))"
      "chain_loop api (irq env) ch1 ch2 (numenabled b c) 0 ch2 s2 = Some (Inl (s', r))"
  | (run) s1 s2 ch1 ch2 s3 s5 passed where "fill_loop 0 (nat (total_bytes a b c)) s = Inr s1"
      "chain_setup api a b c q s1 = (s2, Inr (ch1, ch2))"
      "chain_loop api (irq env) ch1 ch2 (numenabled b c) 0 ch2 s2 = Some (Inr (s3, r))"
      "link_finish api env (total_bytes a b c) ch1 ch2 s3 = Inr (s5, passed)"
      "s' = msg (if passed then Transfer_ok else Transfer_failed) s5"
proof -
  obtain s1 where s1: "fill_loop 0 (nat (total_bytes a b c)) s = Inr s1"
    using assms by (auto simp: chain_test_def split: sum.splits)
  obtain s2 x where s2: "chain_setup api a b c q s1 = (s2, x)" by force
  show thesis
  proof (cases x)
    case (Inl r')
    then show ?thesis using assms s1 s2 refused by (simp add: chain_test_def)
  next
    case (Inr p)
    obtain ch1 ch2 where p: "p = (ch1, ch2)" by force
    obtain y where y: "chain_loop api (irq env) ch1 ch2 (numenabled b c) 0 ch2 s2 = Some y"
      using assms s1 s2 Inr p by (auto simp: chain_test_def split: Option.bind_splits)
    show ?thesis
    proof (cases y)
      case (Inl st)
      then have "st = (s', r)" using assms s1 s2 \<open>x = Inr p\<close> p y by (simp add: chain_test_def)
      then show ?thesis using unstarted [OF s1 s2 [unfolded Inr p]] y Inl \<open>x = Inr p\<close> p s2 s1 by (metis unstarted)
    next
      case (Inr st)
      obtain s3 r3 where st: "st = (s3, r3)" by force
      have e: "bindR (link_finish api env (total_bytes a b c) ch1 ch2 s3)
          (\<lambda>(s, passed). Inr (msg (if passed then Transfer_ok else Transfer_failed) s, r3)) = Inr (s', r)"
        using assms s1 s2 \<open>x = Inr p\<close> p y Inr st by (simp add: chain_test_def)
      then show ?thesis
        using run s1 s2 \<open>x = Inr p\<close> p y Inr st by (auto simp: bindR_eq_Inr)
    qed
  qed
qed

context edma_contract begin

lemma chain_balance:
  assumes "edma3_memtomemcpytest_dma_chain api env a b c mode q s = Some (Inr (s', r))"
  shows "used (cc s') = used (cc s)"
  using assms
proof (cases rule: chain_InrE)
  case (refused s1)
  then show ?thesis using chain_setup_used [OF refused(2)] fill_loop_cc [OF refused(1)] by simp
next
  case (unstarted s1 s2 ch1 ch2)
  then show ?thesis
    using chain_setup_used [OF unstarted(2)] chain_loop_used [OF unstarted(3)] fill_loop_cc [OF unstarted(1)] by auto
next
  case (run s1 s2 ch1 ch2 s3 s5 passed)
  then show ?thesis
    using chain_setup_used [OF run(2)] chain_loop_used [OF run(3)] link_finish_used [OF run(4)] fill_loop_cc [OF run(1)]
    by auto
qed

lemma link_balance:
  assumes "edma3_memtomemcpytest_dma_link api env a b c mode q s = Some (Inr (s', r))"
  shows "if r = 0 then used (cc s') = used (cc s)
    else \<exists>leak. leak \<inter> used (cc s) = {} \<and> used (cc s') = leak \<union> used (cc s) \<and>
      card leak = (case last (kmsg s') of Alloc_failed e \<Rightarrow> 0 | Slot_failed e \<Rightarrow> 1 | _ \<Rightarrow> 2)"
  using assms
proof (cases rule: link_InrE)
  case (refused s1)
  from link_setup_used [OF refused(2)] fill_loop_cc [OF refused(1)]
  consider "r < 0" "last (kmsg s') = Alloc_failed r" "used (cc s') = used (cc s)"
    | ch where "r < 0" "last (kmsg s') = Slot_failed r" "ch \<notin> used (cc s)" "used (cc s') = insert ch (used (cc s))"
    by auto
  then show ?thesis
  proof cases
    case 1
    then show ?thesis by (subst if_not_P) (auto intro!: exI [of _ "{}"])
  next
    case 2
    then show ?thesis by (subst if_not_P) (auto intro!: exI [of _ "{ch}"])
  qed
next
  case (run s1 s2 ch1 ch2 n3 s3 r3 n4 s4)
  have "used (cc s4) = used (cc s2)"
    using run(4) link_loop_used [OF run(3)] by (auto split: if_splits dest!: link_loop_used)
  moreover have u2: "ch1 \<noteq> ch2" "{ch1, ch2} \<inter> used (cc s) = {}" "used (cc s2) = {ch1, ch2} \<union> used (cc s)"
    using link_setup_used [OF run(2)] fill_loop_cc [OF run(1)] by simp_all
  ultimately have u4: "used (cc s4) = {ch1, ch2} \<union> used (cc s)" by simp
  show ?thesis
  proof (cases "r = 0")
    case True
    from run(6) [OF this] obtain s5 where "used (cc s') = used (cc s4) - {ch1, ch2}"
      using link_finish_used by fastforce
    then show ?thesis using u2 u4 True by auto
  next
    case False
    have "{ch1, ch2} \<inter> used (cc s) = {} \<and> used (cc s') = {ch1, ch2} \<union> used (cc s) \<and> card {ch1, ch2} = 2"
      using u2 u4 run(5) [OF False] by simp
    moreover have "last (kmsg s') = Transfer_failed" using run(5) [OF False] by simp
    ultimately show ?thesis using False by (simp only: selftest_msg.case if_False) blast
  qed
qed

end

text \<open>
  The buffers are big enough for \<open>n\<close> bytes, and so is what arrives in them.
\<close>

definition buffers_ok :: "dma_env \<Rightarrow> int \<Rightarrow> 'e selftest \<Rightarrow> bool" where
  "buffers_ok env n s \<longleftrightarrow>
     (case bufs s of ((Some a1, Some d1), (Some a2, Some d2)) \<Rightarrow>
        \<forall>x \<in> {a1, d1, a2, d2, arrived1 env, arrived2 env}. nat n \<le> length x \<and> length x < 2 ^ 32
      | _ \<Rightarrow> False)"

definition pattern :: "int \<Rightarrow> byte list" where
  "pattern n = map pat [0 ..< nat n]"

lemma fill_ok:
  assumes "buffers_ok env n s" "0 \<le> n"
  shows "\<exists>s1 a1 d1 a2 d2. fill_loop 0 (nat n) s = Inr s1 \<and> bufs s1 = ((Some a1, Some d1), (Some a2, Some d2))
    \<and> take (nat n) a1 = pattern n \<and> take (nat n) a2 = pattern n
    \<and> (\<forall>x \<in> {a1, a2, arrived1 env, arrived2 env}. nat n \<le> length x \<and> length x < 2 ^ 32)"
proof -
  obtain a1 d1 a2 d2 where b: "dmabufsrc1 s = Some a1" "dmabufdest1 s = Some d1" "dmabufsrc2 s = Some a2" "dmabufdest2 s = Some d2"
    and l: "\<forall>x \<in> {a1, d1, a2, d2, arrived1 env, arrived2 env}. nat n \<le> length x \<and> length x < 2 ^ 32"
    using assms(1) by (auto simp: buffers_ok_def bufs_def split: option.splits)
  have "fill_loop 0 (nat n) s = Inr (s\<lparr>dmabufsrc1 := Some (painted 0 (nat n) pat a1),
    dmabufdest1 := Some (painted 0 (nat n) (\<lambda>_. 0) d1), dmabufsrc2 := Some (painted 0 (nat n) pat a2),
    dmabufdest2 := Some (painted 0 (nat n) (\<lambda>_. 0) d2)\<rparr>)"
    by (rule fill_loop_ok [OF b]) (use l in simp_all)
  then show ?thesis
    using l by (auto simp: bufs_def pattern_def painted_prefix)
qed

lemma link_finish_ok:
  assumes "bufs s = ((Some a1, Some d1), (Some a2, Some d2))" "0 \<le> n"
    and "take (nat n) a1 = pattern n" "take (nat n) a2 = pattern n"
    and "\<forall>x \<in> {a1, a2, arrived1 env, arrived2 env}. nat n \<le> length x \<and> length x < 2 ^ 32"
  shows "\<exists>s'. link_finish api env n ch1 ch2 s =
    Inr (s', take (nat n) (arrived1 env) = pattern n \<and> take (nat n) (arrived2 env) = pattern n)"
  using check_copies_ok [OF assms(1,2,5)] assms(3,4) by (auto simp: link_finish_def Let_def)

lemma link_loop2_bufs:
  assumes "link_loop api ir ch k (n2, s2, r2) = Some (n3, s3, r3)"
    and "(if r3 = 0 then link_loop api ir ch k (n3, s3, r3) else Some (n3, s3, r3)) = Some (n4, s4, r4)"
  shows "bufs s4 = bufs s2"
  using link_loop_bufs [OF assms(1)] assms(2) by (auto split: if_splits dest!: link_loop_bufs)

text \<open>With the buffers there, no access is wrong.\<close>

lemma link_no_fault:
  assumes "buffers_ok env (total_bytes a b c) s" "0 \<le> total_bytes a b c"
  shows "edma3_memtomemcpytest_dma_link api env a b c mode q s \<noteq> Some (Inl er)"
proof
  let ?n = "total_bytes a b c"
  assume h: "edma3_memtomemcpytest_dma_link api env a b c mode q s = Some (Inl er)"
  obtain s1 a1 d1 a2 d2 where s1: "fill_loop 0 (nat ?n) s = Inr s1" "bufs s1 = ((Some a1, Some d1), (Some a2, Some d2))"
    and l: "take (nat ?n) a1 = pattern ?n" "take (nat ?n) a2 = pattern ?n"
      "\<forall>x \<in> {a1, a2, arrived1 env, arrived2 env}. nat ?n \<le> length x \<and> length x < 2 ^ 32"
    using fill_ok [OF assms] by blast
  obtain s2 x where s2: "link_setup api a b c q s1 = (s2, x)" by force
  obtain ch1 ch2 where x: "x = Inr (ch1, ch2)"
    using h s1 s2 by (cases x) (auto simp: edma3_memtomemcpytest_dma_link_def)
  obtain n3 s3 r3 where l3: "link_loop api (irq env) ch1 (numenabled b c) (0, s2, ch2) = Some (n3, s3, r3)"
    using h s1 s2 x by (auto simp: edma3_memtomemcpytest_dma_link_def split: Option.bind_splits)
  obtain n4 s4 r4 where l4: "(if r3 = 0 then link_loop api (irq env) ch1 (numenabled b c) (n3, s3, r3) else Some (n3, s3, r3))
      = Some (n4, s4, r4)"
    using h s1 s2 x l3 by (auto simp: edma3_memtomemcpytest_dma_link_def split: Option.bind_splits)
  have "bufs s4 = ((Some a1, Some d1), (Some a2, Some d2))"
    using link_loop2_bufs [OF l3 l4] link_setup_bufs [OF s2] s1(2) by simp
  from link_finish_ok [OF this assms(2) l] obtain s5 p where "link_finish api env ?n ch1 ch2 s4 = Inr (s5, p)" by blast
  then show False using h s1 s2 x l3 l4 by (simp add: edma3_memtomemcpytest_dma_link_def split: if_splits)
qed

lemma chain_no_fault:
  assumes "buffers_ok env (total_bytes a b c) s" "0 \<le> total_bytes a b c"
  shows "edma3_memtomemcpytest_dma_chain api env a b c mode q s \<noteq> Some (Inl er)"
proof
  let ?n = "total_bytes a b c"
  assume h: "edma3_memtomemcpytest_dma_chain api env a b c mode q s = Some (Inl er)"
  obtain s1 a1 d1 a2 d2 where s1: "fill_loop 0 (nat ?n) s = Inr s1" "bufs s1 = ((Some a1, Some d1), (Some a2, Some d2))"
    and l: "take (nat ?n) a1 = pattern ?n" "take (nat ?n) a2 = pattern ?n"
      "\<forall>x \<in> {a1, a2, arrived1 env, arrived2 env}. nat ?n \<le> length x \<and> length x < 2 ^ 32"
    using fill_ok [OF assms] by blast
  obtain s2 x where s2: "chain_setup api a b c q s1 = (s2, x)" by force
  obtain ch1 ch2 where x: "x = Inr (ch1, ch2)"
    using h s1 s2 by (cases x) (auto simp: chain_test_def)
  obtain s3 r3 where l3: "chain_loop api (irq env) ch1 ch2 (numenabled b c) 0 ch2 s2 = Some (Inr (s3, r3))"
    using h s1 s2 x by (auto simp: chain_test_def split: Option.bind_splits sum.splits)
  have "bufs s3 = ((Some a1, Some d1), (Some a2, Some d2))"
    using chain_loop_bufs [OF l3] chain_setup_bufs [OF s2] s1(2) by simp
  from link_finish_ok [OF this assms(2) l] obtain s5 p where "link_finish api env ?n ch1 ch2 s3 = Inr (s5, p)" by blast
  then show False using h s1 s2 x l3 by (simp add: chain_test_def)
qed

text \<open>A refused request has a negative code.\<close>

lemma setup_refused:
  "link_setup api a b c q s = (s', Inl r) \<Longrightarrow> r < 0" "chain_setup api a b c q s = (s', Inl r) \<Longrightarrow> r < 0"
  by (auto simp: link_setup_def chain_setup_def Let_def split: prod.splits if_splits)

lemma chain_unstarted: "chain_loop api ir ch1 ch2 k n r s = Some (Inl (s', r')) \<Longrightarrow> r' \<noteq> 0"
  by (induction k arbitrary: n r s) (auto simp: Let_def split: prod.splits option.splits if_splits)

lemma link_verdict:
  assumes "buffers_ok env (total_bytes a b c) s" "0 \<le> total_bytes a b c"
    and "edma3_memtomemcpytest_dma_link api env a b c mode q s = Some (Inr (s', 0))"
  shows "last (kmsg s') = (let n = total_bytes a b c in
    if take (nat n) (arrived1 env) = pattern n \<and> take (nat n) (arrived2 env) = pattern n then Transfer_ok else Transfer_failed)"
  using assms(3)
proof (cases rule: link_InrE)
  case (refused s1)
  then show ?thesis using setup_refused(1) by fastforce
next
  case (run s1 s2 ch1 ch2 n3 s3 r3 n4 s4)
  let ?n = "total_bytes a b c"
  obtain a1 d1 a2 d2 where b1: "bufs s1 = ((Some a1, Some d1), (Some a2, Some d2))"
    and l: "take (nat ?n) a1 = pattern ?n" "take (nat ?n) a2 = pattern ?n"
      "\<forall>x \<in> {a1, a2, arrived1 env, arrived2 env}. nat ?n \<le> length x \<and> length x < 2 ^ 32"
    using fill_ok [OF assms(1,2)] run(1) by auto
  have "bufs s4 = ((Some a1, Some d1), (Some a2, Some d2))"
    using link_loop2_bufs [OF run(3,4)] link_setup_bufs [OF run(2)] b1 by simp
  from link_finish_ok [OF this assms(2) l, of api ch1 ch2] run(6) show ?thesis by (auto simp: Let_def)
qed

lemma chain_verdict:
  assumes "buffers_ok env (total_bytes a b c) s" "0 \<le> total_bytes a b c"
    and "edma3_memtomemcpytest_dma_chain api env a b c mode q s = Some (Inr (s', 0))"
  shows "last (kmsg s') = (let n = total_bytes a b c in
    if take (nat n) (arrived1 env) = pattern n \<and> take (nat n) (arrived2 env) = pattern n then Transfer_ok else Transfer_failed)"
  using assms(3)
proof (cases rule: chain_InrE)
  case (refused s1)
  then show ?thesis using setup_refused(2) by fastforce
next
  case (unstarted s1 s2 ch1 ch2)
  then show ?thesis using chain_unstarted by fastforce
next
  case (run s1 s2 ch1 ch2 s3 s5 passed)
  let ?n = "total_bytes a b c"
  obtain a1 d1 a2 d2 where b1: "bufs s1 = ((Some a1, Some d1), (Some a2, Some d2))"
    and l: "take (nat ?n) a1 = pattern ?n" "take (nat ?n) a2 = pattern ?n"
      "\<forall>x \<in> {a1, a2, arrived1 env, arrived2 env}. nat ?n \<le> length x \<and> length x < 2 ^ 32"
    using fill_ok [OF assms(1,2)] run(1) by auto
  have "bufs s3 = ((Some a1, Some d1), (Some a2, Some d2))"
    using chain_loop_bufs [OF run(3)] chain_setup_bufs [OF run(2)] b1 by simp
  from link_finish_ok [OF this assms(2) l, of api ch1 ch2] run(4,5) show ?thesis by (auto simp: Let_def)
qed

section \<open>Properties\<close>




text \<open>
  C40: as the file is compiled, no buffer is ever allocated: with the null pointers the tests fault at the
  first byte, before they touch the controller, and the set-up that precedes them faults as well, because
  it clears the pointer it then goes through.  The allocator test stores 4380 shorts in 4380 bytes.
\<close>

theorem selftests_fault:
  assumes "dmabufsrc1 s = None" "0 < total_bytes a b c" "zalloc_ok kern" "length m = 4380"
  shows "edma3_memtomemcpytest_dma_link api env a b c mode q s = Some (Inl NullPointer)
    \<and> edma3_memtomemcpytest_dma_chain api env a b c mode q s = Some (Inl NullPointer)
    \<and> test_edma_function kern g = Inl NullPointer
    \<and> test_copy_array (Some m) = Inl OutOfBounds"
proof -
  have "store_shorts 0 4380 m = Inl OutOfBounds"
    by (rule store_shorts_outcome [of _ 4380 _ 2190]) (use assms(4) in simp_all)
  then show ?thesis
    using assms fill_loop_null [OF assms(1), of "nat (total_bytes a b c)" 0]
    by (simp add: edma3_memtomemcpytest_dma_link_def chain_test_def test_edma_function_def
        test_copy_array_def func2_def)
qed

section \<open>Concrete runs\<close>

text \<open>Two bytes on the controller of theory \<open>Edma\<close>, every interrupt a completion.\<close>

definition demo_selftest :: "edma_mem selftest" where
  "demo_selftest = \<lparr>cc = (\<lambda>s. blank_param, []), dmabufsrc1 = Some [0, 0], dmabufsrc2 = Some [0, 0],
     dmabufdest1 = Some [0, 0], dmabufdest2 = Some [0, 0], dmaphyssrc1 = 0x80000000, dmaphyssrc2 = 0x80001000,
     dmaphysdest1 = 0x80002000, dmaphysdest2 = 0x80003000, irqraised1 = 0, irqraised2 = 0, kmsg = []\<rparr>"

definition demo_dma_env :: dma_env where
  "demo_dma_env = \<lparr>irq = (\<lambda>n. Some (Irq1 DMA_COMPLETE)), arrived1 = [65, 66], arrived2 = [65, 0]\<rparr>"

lemma demo_total: "total_bytes 2 1 1 = 2" "numenabled 1 1 = 1"
  by (simp_all add: total_bytes_def numenabled_def)

lemma demo_wait: "irqraised1 s = 0 \<Longrightarrow> wait_irq irqraised1 (irq demo_dma_env) n s = Some (Suc n, s\<lparr>irqraised1 := 1\<rparr>)"
  by (subst wait_irq.simps, subst wait_irq.simps) (simp add: demo_dma_env_def test_callback1_def)

lemma demo_link_run:
  "\<exists>s'. edma3_memtomemcpytest_dma_link edma_mem demo_dma_env 2 1 1 0 0 demo_selftest = Some (Inr (s', 0))
    \<and> kmsg s' = [Mismatch 1, Transfer_failed]"
proof -
  have b: "buffers_ok demo_dma_env 2 demo_selftest"
    by (simp add: buffers_ok_def bufs_def demo_selftest_def demo_dma_env_def)
  have f: "fill_loop 0 2 demo_selftest = Inr (demo_selftest\<lparr>dmabufsrc1 := Some [65, 66], dmabufdest1 := Some [0, 0],
      dmabufsrc2 := Some [65, 66], dmabufdest2 := Some [0, 0]\<rparr>)" (is "_ = Inr ?s1")
    by (simp add: fill_loop_ok demo_selftest_def painted_def pat_def upt_rec)
  have "fst (cc ?s1) = (\<lambda>s. blank_param)" "snd (cc ?s1) = []" by (simp_all add: demo_selftest_def)
  then obtain e where l: "link_setup edma_mem 2 1 1 0 ?s1 = (?s1\<lparr>cc := e\<rparr>, Inr (0, 64))"
    by (simp add: link_setup_def edma_mem_def mem_alloc_def test_channel_def or_opt_def upd_def Let_def eval_nat_numeral)
  have w: "link_loop edma_mem (irq demo_dma_env) 0 1 (n, s, r) =
      Some (Suc n, s\<lparr>irqraised1 := 1\<rparr>, 0)" for n s r
    using demo_wait [of "s\<lparr>irqraised1 := 0\<rparr>" n] by (simp add: edma_mem_def)
  have k: "compare_loop 0 2 (Some [65, 66]) (Some [65, 66]) = Inr 2" "compare_loop 0 2 (Some [65, 66]) (Some [65, 0]) = Inr 1"
    by (simp_all add: compare_loop.simps buf_get_def mem_read_def)
  have m: "link_finish edma_mem demo_dma_env 2 0 64 (?s1\<lparr>cc := e, irqraised1 := 1\<rparr>) =
      Inr ((?s1\<lparr>irqraised1 := 1, dmabufdest1 := Some [65, 66], dmabufdest2 := Some [65, 0], kmsg := [Mismatch 1],
        cc := (fst e, removeAll 64 (removeAll 64 (removeAll 0 (snd e))))\<rparr>), False)"
    by (simp add: link_finish_def check_copies_def check_copy_def k demo_dma_env_def msg_def edma_mem_def Let_def demo_selftest_def)
  show ?thesis
    unfolding edma3_memtomemcpytest_dma_link_def demo_total
    using f l w m by (simp add: msg_def del: link_loop.simps One_nat_def)
qed




theorem selftests_fault_witness:
  "test_copy_array (Some (replicate 4380 0)) = Inl OutOfBounds
   \<and> edma3_memtomemcpytest_dma_link edma_mem demo_dma_env 512 8 8 0 0 (demo_selftest\<lparr>dmabufsrc1 := None\<rparr>)
      = Some (Inl NullPointer)"
proof -
  have n: "0 < total_bytes 512 8 8" by (simp add: total_bytes_def)
  have z: "zalloc_ok \<lparr>zalloc_ok = True, alloc_pages = \<lambda>_. None, cpu_dai = None\<rparr>" by simp
  have m: "length (replicate 4380 (0 :: byte)) = 4380" by simp
  show ?thesis using selftests_fault [OF _ n z m, of "demo_selftest\<lparr>dmabufsrc1 := None\<rparr>"] by simp
qed

end
