(* ===== verification/Spec2Isabelle.thy ===== *)
theory Spec2Isabelle
  imports Timer_Preemption Load_Race Unload_Race Sip_Complete Sip_Dialog Codec_Tables Edma_Selftest
begin

text \<open>
  Verification of the voice router for the Sitara AM3352 board (repository SITARA3552_Ab, everything
  under \<open>src/target_board\<close>).  The program has two halves that share a board and a voice format, but no
  memory: a Linux kernel module (\<open>drv/linux\<close>) and a SIP client that runs as a user process (\<open>app/linux\<close>).

  THE KERNEL MODULE.  \<open>Ab_arm_init_module\<close> (\<open>Ab_arm_maindrv.c\<close>) allocates a FIFO of bytes, sets up the
  audio path and a DMA channel, starts a kernel timer and registers two network hooks.  Then three
  kinds of events drive it, in any order.  Every IP packet passes \<open>Hook_Func\<close>, which hands the UDP packets
  of two hosts to \<open>get_rtp_prepare_packet_handler\<close> (\<open>Ab_arm_itdmdrv.c\<close>); that decodes a u-law payload with
  \<open>g711_ulaw_decoder\<close> (\<open>Ab_arm_codec.c\<close>) and stores the samples in the FIFO (\<open>Ab_arm_fifodrv.c\<close>).  The timer
  takes 4000 bytes out of the FIFO and moves a position in the playback buffer on (\<open>Ab_arm_dmadrv.c\<close>).
  The completion interrupt of the DMA controller queues the period at this position.
  \<open>Ab_arm_cleanup_module\<close> takes everything back.  Sending Ethernet frames (\<open>Ab_arm_ethernetdrv.c\<close>) and the
  self-tests (\<open>Ab_arm_test_drv_file.c\<close>) stand beside this.

  THE SIP CLIENT.  \<open>main_sip_call_Helen\<close> (\<open>sip_call.c\<close>) opens two sockets and polls \<open>main_sip_call\<close>, the life of
  a call, until it stops; that runs \<open>Vyzov_sip\<close>, the session: INVITE, the answers to it, the exchange of
  voice packets, BYE.  Messages are printed into and read from fixed arrays with C string functions; a
  challenge is answered with the digest of \<open>digcalc.c\<close> over the MD5 of \<open>md5.c\<close>.

  HOW THE CODE IS MODELLED.  A C function is a HOL function of the same name that takes and returns the
  state it touches.  Global and static variables of a file are the fields of a record; pointers that
  may be null are options; an array is the list of its elements, read and written with \<open>mem_read\<close> and
  \<open>mem_write\<close>, which are undefined where C leaves the object.  What C leaves undefined is a value, \<open>Inl\<close> with
  a reason of type \<open>ub\<close> (theory Prelude), so every property that says \<open>Inr\<close> also says that nothing was
  accessed out of bounds.  Machine integers are words of their width; where the code computes on \<open>int\<close>
  within range (the codec), \<open>int\<close> with two's complement bit operations.  Loops with a bound are
  recursive functions with a termination proof.  Loops that may not end are \<open>partial_function (option)\<close>:
  \<open>None\<close> is a run that never leaves the loop, and no fuel is used, so that a statement
  \<open>... = Some (Inr x)\<close> says that the loop ends.  Effects on the outside (calls into the sound drivers,
  sockets, files) are traces.  What the outside answers is an argument: a record of kernel operations,
  or a stream of the results of the system calls, one record for each pass of the polling loop.

  WHERE IT IS.
    Prelude            outcomes, bounded memory, machine facts shared by all
    Simulation         locale of step-wise refinement; runs of event lists
    Preemption         code interrupted by events: phases, commuting interrupts
    Codec              \<open>search\<close>, \<open>linear2ulaw\<close>, \<open>ulaw2linear\<close>, \<open>linear2alaw\<close>, \<open>alaw2linear\<close>, \<open>g711_ulaw_decoder\<close>
    Codec_Tables       the conversion tables \<open>u2a\<close> and \<open>a2u\<close> of \<open>Ab_arm_codec.h\<close>
    Voice_Fifo         the FIFO: \<open>voice_buf_set_data_in_rtp_stream1\<close>, \<open>voice_buf_get_data_in_rtp_stream1\<close>
    Rtp_Handler        \<open>get_rtp_prepare_packet_handler\<close> with its local arrays
    Net_Hook           \<open>Hook_Func\<close>, \<open>Hook_Func_ARP\<close>, the filters on address and port
    Edma, Dma_Player   the DMA controller driver as an interface; timer, interrupt, set-up and removal
    Slic               the calls that set up the audio path (\<open>Ab_arm_slicdrv.c\<close>)
    Eth_Tx             \<open>send_packet_buf_to_cpsw0\<close>, \<open>send_packet_buf_to_cpsw1\<close> and the look-up of the devices
    Driver_Module      the module: state, loading, unloading, events, reachable states
    Driver_Spec        the abstract machine the module implements
    Timer_Preemption   the timer routine, statement by statement, under interrupts
    Load_Race, Unload_Race      loading and unloading, call by call, under traffic
    Selftest_Data, Selftest_Model, Edma_Selftest      the self-tests, and what they do
    Md5, Cstring, Digest    MD5; C strings and formatted output; the digests
    Sip_Msg, Sip_Parser     the messages the client prints; the parser of those it receives
    Sip_Call, Sip_Media     the two state machines of a call; its answers to challenges and voice packets
    Sip_App            sockets, the polling loops, the test program and the client
    Sip_Dialog, Sip_Complete     what a call says to the outside in every run; the course of an answered call

  INTERFACES.  Code outside the repository is a parameter, and what the program relies on is a locale.
  \<open>kfifo_contract\<close> (Voice_Fifo) states the kernel's byte FIFO; inside it the repository's FIFO is proved to
  be a \<open>voice_queue\<close>, the contract its readers and writers use (a sublocale).  \<open>edma_contract\<close> (Edma) states the
  DMA controller driver: allocated entries are new, writing an entry changes this entry only.
  \<open>skb_contract\<close> (Eth_Tx) states the kernel's socket buffers.  Each is interpreted on a concrete provider, so
  that the laws are known to be consistent.  \<open>driver_contract\<close> (Driver_Module) collects what the module
  needs; Driver_Spec and Timer_Preemption make it a sublocale of \<open>simulation\<close>, Load_Race and Unload_Race of
  \<open>phased\<close> (Preemption), an invariant that changes from call to call.  \<open>interrupted\<close> (Preemption) says when code
  is atomic towards an interrupt, and is interpreted on the DMA interrupt.  Inside the repository, \<open>hash_api\<close> (Digest) is
  what the digests use of MD5, interpreted on the model of \<open>md5.c\<close>; \<open>compander\<close> (Codec) is the shape of both
  companding laws; \<open>irq_flag\<close> (Edma_Selftest) is a flag a busy wait polls, interpreted twice.

  WHAT IS PROVED.
    The module.  Under every sequence of packets, timer expiries and interrupts it behaves like a
    machine of a byte queue, a packet count and a current period (theory Driver_Spec), also when
    interrupts stop the timer routine between any two statements (Timer_Preemption).  No such sequence makes it fault
    or lets the controller read outside the playback buffer (Driver_Module).  The properties of Net_Hook, Rtp_Handler,
    Voice_Fifo and Dma_Player say the same of its parts, with the exact bounds (a u-law frame is safe
    exactly from 54 to 1514 bytes) and the resources taken and given back.  Loading under traffic succeeds
    exactly without early voice packets (Load_Race); unloading under traffic is safe (Unload_Race).
    The codec.  Both laws invert their decoders, quantisation errors are bounded, and the payload
    decoder stays within its buffer.
    The client.  Whatever the peers send and the system answers, a call that returns has held one dialog
    of the allowed form (Sip_Dialog).  An answered call does return (Sip_Complete); a refused call does, with
    code 2; after silence the loop never returns (Sip_App).  Messages are framed as RFC 3261 asks; the
    parser reads back what is printed; an authentication answer is the digest of RFC 2617, over the MD5
    of RFC 1321.
    The self-tests.  What they leave allocated, what their verdicts mean, and when they hang.
  Each property stands after a text that says it in words and numbers it; most have a witness, the
  property at a concrete input.  Between them, lemmas follow the operations: what an operation leaves
  alone (\<open>..._frame\<close>), its exact result (\<open>..._ok\<close>, \<open>..._result\<close>), its effect on the trace (\<open>..._trace\<close>).

  WHERE THE CODE IS NOT RIGHT.  Several properties describe defects, since they state what the code does:
  the FIFO reports bytes as stored that it dropped; what the timer takes out of the FIFO is never copied to the
  playback buffer; the hooks are registered before what they use exists, and the playback buffer is freed
  before the channel that reads it; loading reports success without memory; the hooks and the handler trust the
  length of a packet; the client loses the first byte of a file and sends its end mark, answers 183 like
  a refusal, closes a file twice when the answer to BYE cannot be sent, and never gives up waiting; the
  self-tests leak a channel, ignore their own verdict and dereference null pointers.

  NOT MODELLED.  \<open>Ab_arm_userspacedrv.c\<close> declares nothing.  Code between \<open>#if 0\<close> and \<open>#endif\<close> and inside
  comments is not compiled: most of \<open>Ab_arm_slicdrv.h\<close>, half of \<open>Ab_arm_test_drv_file.c\<close> (the FIFO test and
  the loops over transfer modes).  Prototypes and include guards have no content; diagnostics printed
  with \<open>printk\<close> and \<open>printf\<close> are left out except where they carry a verdict; \<open>ktime_now\<close> and \<open>rtpSend\<close> have no effect.
  Register and flag constants of the kernel's headers are symbols or parameters.  The kernel, the
  C library's files and sockets and the hardware are parameters, as described.  There is one
  processor; hook and timer are softirqs, which do not interrupt each other, and are events in a sequence.  What
  interrupts them, the DMA interrupt, is an event between the statements of the timer routine; it shares nothing with
  the hook (lemma silent_packet).  Loading and unloading are interrupted between their calls, not inside them.
\<close>

end
